(* ===== verification/Prelude.thy ===== *)
theory Prelude
  imports Main "HOL-Library.Word"
begin

text \<open>
  Shared vocabulary of the development: the machine integer types of the C++ sources
  (\<^verbatim>\<open>uint8_t\<close>, \<^verbatim>\<open>uint16_t\<close>, \<^verbatim>\<open>uint32_t\<close>, and \<^verbatim>\<open>uint64_t\<close> / \<^verbatim>\<open>size_t\<close> / addresses on the
  LP64 platforms the project builds for), the collections of rewrite rules the component
  theories extend, and the generic facts on words and lists that more than one component needs.
\<close>

section \<open>Machine integers\<close>

type_synonym u8 = "8 word"
type_synonym u16 = "16 word"
type_synonym u32 = "32 word"
type_synonym u64 = "64 word"

text \<open>Addresses are 64 bits wide; \<^verbatim>\<open>nullptr\<close> is the zero address.\<close>

type_synonym addr = u64

abbreviation (input) null_ptr :: addr where
  "null_ptr \<equiv> 0"

text \<open>The literal \<^verbatim>\<open>(size_t) -1\<close> (also written \<^verbatim>\<open>-1lu\<close>).\<close>

abbreviation (input) size_max :: u64 where
  "size_max \<equiv> - 1"

text \<open>
  Collections: \<open>word_nat\<close> moves an operation on words to the natural numbers where it cannot
  wrap; \<open>state_simps\<close> holds the frame and projection facts of the state-passing operations.
\<close>

named_theorems word_nat \<open>word operations read as operations on natural numbers\<close>
named_theorems state_simps \<open>projections and frame facts of the state-passing operations\<close>

lemma unat_add_nowrap [word_nat]:
  "unat a + unat b < 2 ^ LENGTH('a) \<Longrightarrow> unat (a + b) = unat a + unat (b :: 'a::len word)"
  by (simp add: unat_word_ariths)

lemma unat_sub_nowrap [word_nat]:
  "b \<le> a \<Longrightarrow> unat (a - b) = unat a - unat (b :: 'a::len word)"
  by (rule unat_sub)

lemma unat_pos_iff: "0 < unat (a :: 'a::len word) \<longleftrightarrow> a \<noteq> 0"
  by (simp add: unat_gt_0)

lemma word_le_unat: "a \<le> b \<longleftrightarrow> unat a \<le> unat (b :: 'a::len word)"
  by (rule word_le_nat_alt)

lemma word_less_unat: "a < b \<longleftrightarrow> unat a < unat (b :: 'a::len word)"
  by (rule word_less_nat_alt)

lemma unat_below: "unat (a :: u64) < 2 ^ 64"
  using unsigned_less [of a] by simp

lemma word_sub_less_pos: "b \<le> a \<Longrightarrow> b \<noteq> 0 \<Longrightarrow> a - b < (a :: 'a::len word)"
  by (simp add: word_less_unat word_nat word_le_unat unat_pos_iff [symmetric])

text \<open>
  The start of a block of \<open>s\<close> bytes that ends at \<open>k\<close>, computed as \<open>k - s + 1\<close> (the
  intermediate \<open>k - s\<close> may wrap when the block starts at address 0).
\<close>

lemma unat_last_minus_size:
  fixes k s :: u64
  assumes "s \<noteq> 0" and "unat s \<le> unat k + 1"
  shows "unat (k - s + 1) = unat k + 1 - unat s"
proof -
  have s1: "unat (s - 1) = unat s - 1"
    using assms(1) by (simp add: unat_minus_one)
  have "s - 1 \<le> k"
    using assms s1 by (simp add: word_le_unat)
  then have "unat (k - (s - 1)) = unat k - (unat s - 1)"
    by (simp add: s1 word_nat)
  moreover have "0 < unat s"
    using assms(1) by (simp add: unat_pos_iff)
  moreover have eq: "k - s + 1 = k - (s - 1)"
    by simp
  ultimately show ?thesis
    unfolding eq by linarith
qed

text \<open>And the last byte of a block of \<open>s\<close> bytes that starts at \<open>p\<close>, \<open>p + s - 1\<close>.\<close>

lemma unat_start_plus_size:
  fixes p s :: u64
  assumes "s \<noteq> 0" and "unat p + unat s \<le> 2 ^ 64"
  shows "unat (p + s - 1) = unat p + unat s - 1"
proof -
  have s1: "unat (s - 1) = unat s - 1"
    using assms(1) by (simp add: unat_minus_one)
  have "0 < unat s"
    using assms(1) by (simp add: unat_pos_iff)
  then have "unat (p + (s - 1)) = unat p + (unat s - 1)"
    using assms(2) by (subst unat_add_nowrap) (simp_all add: s1)
  moreover have eq: "p + s - 1 = p + (s - 1)"
    by simp
  ultimately show ?thesis
    unfolding eq using \<open>0 < unat s\<close> by linarith
qed

section \<open>Options\<close>

lemma option_eqI: "(\<And>v. x = Some v \<longleftrightarrow> y = Some v) \<Longrightarrow> x = y"
  by (cases x; cases y) auto

lemma if_None_SomeD: "(if b then None else x) = Some v \<Longrightarrow> x = Some v"
  by (cases b) simp_all

section \<open>Lists\<close>

lemma drop_add: "drop (m + n) xs = drop n (drop m xs)"
  by (simp add: add.commute)

end
