(* ===== verification/Containers.thy ===== *)
theory Containers
  imports Prelude "HOL-Library.Multiset"
begin

text \<open>
  The two associative containers of the C++ standard library the sources keep their state in.
  \<^verbatim>\<open>std::unordered_map\<close> is an association list with distinct keys whose order is the
  container's iteration order (which the standard leaves open: no theorem depends on it);
  \<^verbatim>\<open>std::map\<close> is an association list with strictly ascending keys, with
  \<^verbatim>\<open>lower_bound\<close>. In both, \<^verbatim>\<open>insert\<close> leaves an existing entry unchanged, as the standard
  says, while \<^verbatim>\<open>operator[]\<close> overwrites.

  The locale \<open>assoc_container\<close> is what the memory tracker and the driver rely on; the locale
  \<open>ordered_container\<close> extends it with \<^verbatim>\<open>lower_bound\<close>. Each is interpreted on the lists below.
\<close>

section \<open>The interfaces\<close>

locale assoc_container =
  fixes lookup :: "'k \<Rightarrow> 'm \<Rightarrow> 'v option"
    and insert_new :: "'k \<Rightarrow> 'v \<Rightarrow> 'm \<Rightarrow> 'm"
    and erase :: "'k \<Rightarrow> 'm \<Rightarrow> 'm"
    and entries :: "'m \<Rightarrow> ('k \<times> 'v) list"
    and invar :: "'m \<Rightarrow> bool"
  assumes lookup_entries: "invar m \<Longrightarrow> lookup k m = map_of (entries m) k"
    and distinct_entries: "invar m \<Longrightarrow> distinct (map fst (entries m))"
    and insert_present: "invar m \<Longrightarrow> lookup k m = Some w \<Longrightarrow> insert_new k v m = m"
    and insert_absent: "invar m \<Longrightarrow> lookup k m = None \<Longrightarrow>
      mset (entries (insert_new k v m)) = add_mset (k, v) (mset (entries m))"
    and erase_present: "invar m \<Longrightarrow> lookup k m = Some v \<Longrightarrow>
      mset (entries m) = add_mset (k, v) (mset (entries (erase k m)))"
    and erase_absent: "invar m \<Longrightarrow> lookup k m = None \<Longrightarrow> erase k m = m"
    and invar_insert: "invar m \<Longrightarrow> invar (insert_new k v m)"
    and invar_erase: "invar m \<Longrightarrow> invar (erase k m)"
begin

lemma lookup_Some_iff: "invar m \<Longrightarrow> lookup k m = Some v \<longleftrightarrow> (k, v) \<in> set (entries m)"
  using distinct_entries by (simp add: lookup_entries)

lemma lookup_None_iff: "invar m \<Longrightarrow> lookup k m = None \<longleftrightarrow> k \<notin> fst ` set (entries m)"
  by (simp add: lookup_entries map_of_eq_None_iff)

lemma set_insert: "invar m \<Longrightarrow> lookup k m = None \<Longrightarrow>
    set (entries (insert_new k v m)) = insert (k, v) (set (entries m))"
  by (simp only: set_mset_mset [symmetric] insert_absent set_mset_add_mset_insert)

lemma set_erase:
  assumes "invar m"
  shows "set (entries (erase k m)) = {e \<in> set (entries m). fst e \<noteq> k}"
proof (cases "lookup k m")
  case None
  then have "k \<notin> fst ` set (entries m)"
    using assms lookup_None_iff by blast
  then show ?thesis
    using None assms by (force simp: erase_absent)
next
  case (Some v)
  have ins: "set (entries m) = insert (k, v) (set (entries (erase k m)))"
    by (simp only: set_mset_mset [symmetric] erase_present [OF assms Some] set_mset_add_mset_insert)
  have "distinct (map fst (entries m))"
    using assms by (rule distinct_entries)
  then have "count (image_mset fst (mset (entries m))) k \<le> 1"
    by (simp add: distinct_count_atmost_1 flip: mset_map)
  then have "k \<notin> fst ` set (entries (erase k m))"
    by (simp add: erase_present [OF assms Some] count_eq_zero_iff)
  then show ?thesis
    using ins by force
qed

lemma lookup_insert: "invar m \<Longrightarrow> lookup k m = None \<Longrightarrow>
    lookup k' (insert_new k v m) = (if k' = k then Some v else lookup k' m)"
  by (rule option_eqI)
     (auto simp: lookup_Some_iff lookup_None_iff set_insert invar_insert image_iff)

lemma lookup_erase: "invar m \<Longrightarrow> lookup k' (erase k m) = (if k' = k then None else lookup k' m)"
  by (rule option_eqI) (auto simp: lookup_Some_iff set_erase invar_erase)

text \<open>Accounting: how a sum of weights over the entries changes.\<close>

lemma weight_insert: "invar m \<Longrightarrow> lookup k m = None \<Longrightarrow>
    sum_list (map w (entries (insert_new k v m))) = w (k, v) + (sum_list (map w (entries m)) :: 'w::comm_monoid_add)"
  by (simp only: sum_mset_sum_list [symmetric] mset_map insert_absent image_mset_add_mset sum_mset.add_mset)

lemma weight_erase: "invar m \<Longrightarrow> lookup k m = Some v \<Longrightarrow>
    sum_list (map w (entries m)) = w (k, v) + (sum_list (map w (entries (erase k m))) :: 'w::comm_monoid_add)"
  by (simp only: sum_mset_sum_list [symmetric] mset_map erase_present image_mset_add_mset sum_mset.add_mset)

lemma length_insert: "invar m \<Longrightarrow> lookup k m = None \<Longrightarrow>
    length (entries (insert_new k v m)) = Suc (length (entries m))"
  by (simp only: size_mset [symmetric] insert_absent size_add_mset)

lemma length_erase: "invar m \<Longrightarrow> lookup k m = Some v \<Longrightarrow>
    length (entries m) = Suc (length (entries (erase k m)))"
  by (simp only: size_mset [symmetric] erase_present size_add_mset)

end

locale ordered_container = assoc_container lookup insert_new erase entries invar
  for lookup :: "'k::linorder \<Rightarrow> 'm \<Rightarrow> 'v option"
    and insert_new :: "'k \<Rightarrow> 'v \<Rightarrow> 'm \<Rightarrow> 'm"
    and erase :: "'k \<Rightarrow> 'm \<Rightarrow> 'm"
    and entries :: "'m \<Rightarrow> ('k \<times> 'v) list"
    and invar :: "'m \<Rightarrow> bool" +
  fixes lower_bound :: "'k \<Rightarrow> 'm \<Rightarrow> ('k \<times> 'v) option"
  assumes lower_bound_None: "invar m \<Longrightarrow> lower_bound k m = None \<Longrightarrow> e \<in> set (entries m) \<Longrightarrow> fst e < k"
    and lower_bound_in: "invar m \<Longrightarrow> lower_bound k m = Some e \<Longrightarrow> e \<in> set (entries m)"
    and lower_bound_ge: "invar m \<Longrightarrow> lower_bound k m = Some e \<Longrightarrow> k \<le> fst e"
    and lower_bound_least: "invar m \<Longrightarrow> lower_bound k m = Some e \<Longrightarrow> e' \<in> set (entries m) \<Longrightarrow>
      k \<le> fst e' \<Longrightarrow> fst e \<le> fst e'"
begin

lemma lower_bound_lookup: "invar m \<Longrightarrow> lower_bound k m = Some (k', v) \<Longrightarrow> lookup k' m = Some v"
  using lower_bound_in [of m k] by (simp add: lookup_Some_iff)

lemma below_lower_bound: "invar m \<Longrightarrow> lower_bound k m = Some e \<Longrightarrow> e' \<in> set (entries m) \<Longrightarrow>
    fst e' < fst e \<Longrightarrow> fst e' < k"
  using lower_bound_least [of m k e e'] by fastforce

end

section \<open>Unordered maps\<close>

type_synonym ('k, 'v) umap = "('k \<times> 'v) list"

definition um_find :: "'k \<Rightarrow> ('k, 'v) umap \<Rightarrow> 'v option" where
  "um_find k m = map_of m k"

definition um_insert :: "'k \<Rightarrow> 'v \<Rightarrow> ('k, 'v) umap \<Rightarrow> ('k, 'v) umap" where
  "um_insert k v m = (case um_find k m of None \<Rightarrow> m @ [(k, v)] | Some _ \<Rightarrow> m)"

definition um_erase :: "'k \<Rightarrow> ('k, 'v) umap \<Rightarrow> ('k, 'v) umap" where
  "um_erase k m = filter (\<lambda>e. fst e \<noteq> k) m"

text \<open>\<^verbatim>\<open>m[k] = v\<close>: assigns to the entry of \<open>k\<close>, creating it when there is none.\<close>

fun um_set :: "'k \<Rightarrow> 'v \<Rightarrow> ('k, 'v) umap \<Rightarrow> ('k, 'v) umap" where
  "um_set k v [] = [(k, v)]"
| "um_set k v ((k', v') # m) = (if k = k' then (k, v) # m else (k', v') # um_set k v m)"

definition um_invar :: "('k, 'v) umap \<Rightarrow> bool" where
  "um_invar m = distinct (map fst m)"

lemma um_erase_absent: "um_find k m = None \<Longrightarrow> um_erase k m = m"
  by (induction m) (auto simp: um_find_def um_erase_def split: if_splits)

lemma um_erase_present: "um_invar m \<Longrightarrow> um_find k m = Some v \<Longrightarrow>
    mset m = add_mset (k, v) (mset (um_erase k m))"
proof (induction m)
  case Nil
  then show ?case by (simp add: um_find_def)
next
  case (Cons e m)
  show ?case
  proof (cases "fst e = k")
    case True
    have "um_find k m = None"
      using Cons.prems(1) True by (auto simp: um_invar_def um_find_def map_of_eq_None_iff)
    then have "um_erase k m = m"
      by (rule um_erase_absent)
    then show ?thesis
      using Cons.prems(2) True by (cases e) (simp add: um_find_def um_erase_def)
  next
    case False
    then show ?thesis
      using Cons by (cases e) (simp add: um_find_def um_erase_def um_invar_def)
  qed
qed

interpretation um: assoc_container um_find um_insert um_erase "\<lambda>m. m" um_invar
proof (unfold_locales, goal_cases)
  case (4 m k v) then show ?case by (simp add: um_insert_def)
next
  case (5 m k v) then show ?case by (rule um_erase_present)
next
  case (7 m k v)
  then show ?case
    by (auto simp: um_invar_def um_insert_def um_find_def map_of_eq_None_iff split: option.splits)
next
  case (8 m k)
  then show ?case
    by (metis um_invar_def um_erase_def distinct_map_filter)
qed (auto simp: um_find_def um_invar_def um_insert_def um_erase_absent)

lemma um_find_set: "um_find k' (um_set k v m) = (if k' = k then Some v else um_find k' m)"
  by (induction m) (auto simp: um_find_def)

lemma um_find_erase: "um_find k' (um_erase k m) = (if k' = k then None else um_find k' m)"
  by (induction m) (auto simp: um_find_def um_erase_def)

lemma um_set_absent: "um_find k m = None \<Longrightarrow> um_set k v m = m @ [(k, v)]"
  by (induction m) (auto simp: um_find_def split: if_splits)

lemma um_keys_set: "fst ` set (um_set k v m) = insert k (fst ` set m)"
  by (induction m) (force simp: image_iff)+

lemma um_invar_set: "um_invar m \<Longrightarrow> um_invar (um_set k v m)"
proof (induction m)
  case (Cons e m)
  then show ?case
    using um_keys_set [of k v m] by (cases e) (auto simp: um_invar_def)
qed (simp add: um_invar_def)

section \<open>Ordered maps\<close>

type_synonym ('k, 'v) omap = "('k \<times> 'v) list"

fun om_insert :: "'k::linorder \<Rightarrow> 'v \<Rightarrow> ('k, 'v) omap \<Rightarrow> ('k, 'v) omap" where
  "om_insert k v [] = [(k, v)]"
| "om_insert k v ((k', v') # m) =
    (if k < k' then (k, v) # (k', v') # m
     else if k = k' then (k', v') # m
     else (k', v') # om_insert k v m)"

definition om_lower_bound :: "'k::linorder \<Rightarrow> ('k, 'v) omap \<Rightarrow> ('k \<times> 'v) option" where
  "om_lower_bound k m = List.find (\<lambda>e. k \<le> fst e) m"

definition om_invar :: "('k::linorder, 'v) omap \<Rightarrow> bool" where
  "om_invar m = sorted_wrt (<) (map fst m)"

lemma om_invar_distinct: "om_invar m \<Longrightarrow> um_invar m"
  by (auto simp: om_invar_def um_invar_def strict_sorted_iff)

lemma om_insert_present: "om_invar m \<Longrightarrow> um_find k m = Some w \<Longrightarrow> om_insert k v m = m"
  by (induction m)
     (auto simp: om_invar_def um_find_def split: if_splits dest!: map_of_SomeD)

lemma om_insert_absent: "um_find k m = None \<Longrightarrow>
    mset (om_insert k v m) = add_mset (k, v) (mset m)"
  by (induction m) (auto simp: um_find_def split: if_splits)

lemma om_keys_insert: "fst ` set (om_insert k v m) = insert k (fst ` set m)"
  by (induction m) (force simp: image_iff)+

lemma om_invar_insert: "om_invar m \<Longrightarrow> om_invar (om_insert k v m)"
proof (induction m)
  case (Cons e m)
  show ?case
  proof (cases "fst e < k")
    case True
    have "\<forall>x \<in> fst ` set (om_insert k v m). fst e < x"
      using Cons.prems True unfolding om_keys_insert by (auto simp: om_invar_def)
    moreover have "om_invar (om_insert k v m)"
      using Cons by (simp add: om_invar_def)
    ultimately show ?thesis
      using True by (cases e) (auto simp: om_invar_def)
  next
    case False
    then show ?thesis
      using Cons.prems by (cases e) (fastforce simp: om_invar_def)
  qed
qed (simp add: om_invar_def)

lemma om_invar_erase: "om_invar m \<Longrightarrow> om_invar (um_erase k m)"
  by (induction m) (auto simp: om_invar_def um_erase_def)

lemma om_lower_bound_Nil [simp]: "om_lower_bound k [] = None"
  by (simp add: om_lower_bound_def)

lemma om_lower_bound_Cons [simp]:
  "om_lower_bound k (e # m) = (if k \<le> fst e then Some e else om_lower_bound k m)"
  by (simp add: om_lower_bound_def)

interpretation om: ordered_container um_find om_insert um_erase "\<lambda>m. m" om_invar om_lower_bound
proof (unfold_locales, goal_cases)
  case (9 m k e)
  then show ?case by (cases e) (auto simp: om_lower_bound_def find_None_iff not_le)
next
  case (10 m k e)
  then show ?case by (induction m) (auto simp: om_invar_def split: if_splits)
next
  case (11 m k e)
  then show ?case by (induction m) (auto simp: om_invar_def split: if_splits)
next
  case (12 m k e e')
  then show ?case
    by (induction m) (auto simp: om_invar_def split: if_splits)
qed (auto simp: um_find_def om_insert_present om_insert_absent um_erase_present um_erase_absent
       om_invar_insert om_invar_erase om_invar_distinct om_invar_distinct [unfolded um_invar_def])

end
