(* ===== verification/Call_Stack.thy ===== *)
theory Call_Stack
  imports Prelude
begin

text \<open>
  The captured call stacks of \<^verbatim>\<open>include/dtest_core/call_stack.h\<close> and
  \<^verbatim>\<open>src/call_stack.cpp\<close>. A stack is the array \<^verbatim>\<open>_stack\<close> obtained from \<^verbatim>\<open>malloc\<close>, of
  which \<^verbatim>\<open>backtrace\<close> filled the first \<^verbatim>\<open>_len\<close> cells, and the number \<^verbatim>\<open>_skip\<close> of innermost
  frames left out. The frames of the running thread and the contents \<^verbatim>\<open>malloc\<close> returns are
  arguments (\<open>bt\<close>, \<open>raw\<close>). A pointer \<^verbatim>\<open>_stack\<close> that is \<^verbatim>\<open>nullptr\<close> is \<open>None\<close>.
\<close>

definition MAX_STACK_FRAMES :: nat where
  "MAX_STACK_FRAMES = 32"

record call_stack =
  cs_len :: nat
  cs_stack :: "addr list option"
  cs_skip :: nat

text \<open>
  \<^verbatim>\<open>CallStack::trace\<close>: allocates \<^verbatim>\<open>_MAX_STACK_FRAMES + skip\<close> cells, of contents \<open>raw\<close>, and
  overwrites a prefix with the innermost frames.
\<close>

definition cs_capacity :: "nat \<Rightarrow> nat" where
  "cs_capacity skip = MAX_STACK_FRAMES + skip"

definition trace_stack :: "addr list \<Rightarrow> addr list \<Rightarrow> nat \<Rightarrow> call_stack" where
  "trace_stack bt raw skip =
    (let skip = skip + 1;
         n = min (length bt) (cs_capacity skip)
     in \<lparr>cs_len = n, cs_stack = Some (take n bt @ drop n raw), cs_skip = skip\<rparr>)"

text \<open>\<^verbatim>\<open>stack()[i]\<close>; a cell outside the allocated array is a \<open>None\<close>.\<close>

definition stack_at :: "call_stack \<Rightarrow> nat \<Rightarrow> addr option" where
  "stack_at cs i =
    (case cs_stack cs of
       None \<Rightarrow> None
     | Some st \<Rightarrow> (if cs_skip cs + i < length st then Some (st ! (cs_skip cs + i)) else None))"

definition cs_invalidate :: "call_stack \<Rightarrow> call_stack" where
  "cs_invalidate cs = cs\<lparr>cs_len := 0, cs_stack := None, cs_skip := 0\<rparr>"

text \<open>\<^verbatim>\<open>_copy\<close> copies the first \<^verbatim>\<open>_len\<close> cells only, into an array of that length.\<close>

definition cs_copy :: "call_stack \<Rightarrow> call_stack" where
  "cs_copy rhs =
    \<lparr>cs_len = cs_len rhs,
     cs_stack = Some (take (cs_len rhs) (case cs_stack rhs of None \<Rightarrow> [] | Some st \<Rightarrow> st)),
     cs_skip = cs_skip rhs\<rparr>"

text \<open>The move constructor: the new object and what is left of the source.\<close>

definition cs_move :: "call_stack \<Rightarrow> call_stack \<times> call_stack" where
  "cs_move rhs =
    (\<lparr>cs_len = cs_len rhs, cs_stack = cs_stack rhs, cs_skip = cs_skip rhs\<rparr>, cs_invalidate rhs)"

text \<open>Every frame position the exception tables ask for lies inside the array of a fresh trace.\<close>

lemma stack_at_trace:
  assumes "length raw = cs_capacity (skip + 1)" and "i < MAX_STACK_FRAMES"
  shows "\<exists>a. stack_at (trace_stack bt raw skip) i = Some a"
  using assms by (auto simp: trace_stack_def stack_at_def cs_capacity_def Let_def)

lemma stack_at_trace_frame:
  assumes "length raw = cs_capacity (skip + 1)" and "i < MAX_STACK_FRAMES"
    and "skip + 1 + i < length bt"
  shows "stack_at (trace_stack bt raw skip) i = Some (bt ! (skip + 1 + i))"
  using assms by (auto simp: trace_stack_def stack_at_def cs_capacity_def Let_def nth_append)

lemma cs_copy_frames:
  assumes "cs_stack rhs = Some st" and "cs_len rhs \<le> length st" and "cs_skip rhs + i < cs_len rhs"
  shows "stack_at (cs_copy rhs) i = stack_at rhs i"
  using assms by (simp add: cs_copy_def stack_at_def)

end
