(* ===== verification/Memory.thy ===== *)
theory Memory
  imports Containers Call_Stack
begin

text \<open>
  The memory tracker of \<^verbatim>\<open>include/dtest_core/memory.h\<close> and \<^verbatim>\<open>src/memory.cpp\<close>: heap blocks in
  an unordered map keyed by their address, mapped regions in an ordered map keyed by the address
  of their last byte, the byte and block counters with their peaks, and the per-thread lock
  count. The state is that of one thread inside the critical section of \<^verbatim>\<open>_mtx\<close>; the mutex
  itself only serialises the operations. \<^verbatim>\<open>CallStack::trace(2)\<close> is an argument \<open>cs\<close>.
\<close>

section \<open>State\<close>

record allocation =
  asize :: u64
  acalls :: call_stack

record tracking_exception =
  te_pos :: nat
  te_name :: string
  te_offset :: u64
  te_low :: addr
  te_high :: addr

definition tracking_ex :: "nat \<Rightarrow> string \<Rightarrow> u64 \<Rightarrow> tracking_exception" where
  "tracking_ex pos name off =
    \<lparr>te_pos = pos, te_name = name, te_offset = off, te_low = null_ptr, te_high = null_ptr\<rparr>"

definition alloc_ex_table :: "tracking_exception list" where
  "alloc_ex_table =
    [tracking_ex 0 ''_dl_allocate_tls'' size_max,
     tracking_ex 2 ''GOMP_parallel'' 0x26,
     tracking_ex 2 ''GOMP_parallel'' 0x2a,
     tracking_ex 2 ''GOMP_parallel'' 0x2b,
     tracking_ex 2 ''GOMP_parallel'' 0x3a,
     tracking_ex 2 ''GOMP_parallel'' 0x3d,
     tracking_ex 2 ''GOMP_parallel'' 0x41,
     tracking_ex 2 ''GOMP_parallel'' 0x42,
     tracking_ex 1 ''__tls_get_addr'' 0x38,
     tracking_ex 1 ''__tls_get_addr'' 0x3c,
     tracking_ex 0 ''_IO_file_doallocate'' size_max]"

definition dealloc_ex_table :: "tracking_exception list" where
  "dealloc_ex_table =
    [tracking_ex 0 ''_dl_deallocate_tls'' size_max,
     tracking_ex 0 ''_dl_deallocate_tls'' size_max,
     tracking_ex 0 ''pthread_create'' size_max,
     tracking_ex 0 ''_IO_setb'' size_max]"

record memory =
  m_track :: bool
  m_blocks :: "(addr, allocation) umap"
  m_ordered :: "(addr, allocation) omap"
  m_alloc_size :: u64
  m_free_size :: u64
  m_alloc_count :: u64
  m_free_count :: u64
  m_max_alloc :: u64
  m_max_count :: u64
  m_locked :: u64
  m_alloc_ex :: "tracking_exception list"
  m_dealloc_ex :: "tracking_exception list"

text \<open>A tracker before \<^verbatim>\<open>reinitialize\<close> has resolved any symbol.\<close>

definition memory_fields :: memory where
  "memory_fields =
    \<lparr>m_track = False, m_blocks = [], m_ordered = [],
     m_alloc_size = 0, m_free_size = 0, m_alloc_count = 0, m_free_count = 0,
     m_max_alloc = 0, m_max_count = 0, m_locked = 0,
     m_alloc_ex = alloc_ex_table, m_dealloc_ex = dealloc_ex_table\<rparr>"

section \<open>Guards\<close>

definition mem_enter :: "memory \<Rightarrow> bool \<times> memory" where
  "mem_enter m =
    (if \<not> m_track m \<or> m_locked m \<noteq> 0 then (False, m)
     else (True, m\<lparr>m_locked := m_locked m + 1\<rparr>))"

definition mem_exit :: "memory \<Rightarrow> memory" where
  "mem_exit m = m\<lparr>m_locked := m_locked m - 1\<rparr>"

definition mem_lock :: "memory \<Rightarrow> memory" where
  "mem_lock m = m\<lparr>m_locked := m_locked m + 1\<rparr>"

definition mem_unlock :: "memory \<Rightarrow> memory" where
  "mem_unlock m = m\<lparr>m_locked := m_locked m - 1\<rparr>"

definition mem_track_activity :: "bool \<Rightarrow> memory \<Rightarrow> memory" where
  "mem_track_activity val m = m\<lparr>m_track := val\<rparr>"

definition reset_max_allocation :: "memory \<Rightarrow> memory" where
  "reset_max_allocation m = m\<lparr>m_max_alloc := 0\<rparr>"

text \<open>
  The exception tables: a call is not tracked when the frame at the entry's position lies in the
  entry's address range. A frame position outside the captured array reads as the null address.
\<close>

definition frame_at :: "call_stack \<Rightarrow> nat \<Rightarrow> addr" where
  "frame_at cs i = (case stack_at cs i of None \<Rightarrow> null_ptr | Some a \<Rightarrow> a)"

definition te_matches :: "call_stack \<Rightarrow> tracking_exception \<Rightarrow> bool" where
  "te_matches cs e \<longleftrightarrow> te_low e \<le> frame_at cs (te_pos e) \<and> frame_at cs (te_pos e) < te_high e"

definition can_track_alloc :: "call_stack \<Rightarrow> memory \<Rightarrow> bool" where
  "can_track_alloc cs m \<longleftrightarrow> \<not> list_ex (te_matches cs) (m_alloc_ex m)"

definition can_track_dealloc :: "call_stack \<Rightarrow> memory \<Rightarrow> bool" where
  "can_track_dealloc cs m \<longleftrightarrow> \<not> list_ex (te_matches cs) (m_dealloc_ex m)"

text \<open>
  \<^verbatim>\<open>reinitialize\<close> resolves the entries whose symbol was not found yet. The dynamic linker is
  the argument \<open>dlsym\<close> (0 for an unknown symbol) and \<open>sym_size\<close> (the \<^verbatim>\<open>st_size\<close> that
  \<^verbatim>\<open>dladdr1\<close> reports).
\<close>

definition te_resolve :: "(string \<Rightarrow> addr) \<Rightarrow> (addr \<Rightarrow> u64) \<Rightarrow> tracking_exception \<Rightarrow> tracking_exception" where
  "te_resolve dlsym sym_size e =
    (if te_low e \<noteq> null_ptr then e
     else let low = dlsym (te_name e) in
       if low = null_ptr then e\<lparr>te_low := low\<rparr>
       else if te_offset e = size_max then
         e\<lparr>te_low := low, te_high := low + sym_size low\<rparr>
       else e\<lparr>te_low := low + te_offset e, te_high := low + te_offset e + 1\<rparr>)"

definition reinitialize :: "(string \<Rightarrow> addr) \<Rightarrow> (addr \<Rightarrow> u64) \<Rightarrow> memory \<Rightarrow> memory" where
  "reinitialize dlsym sym_size m =
    m\<lparr>m_alloc_ex := map (te_resolve dlsym sym_size) (m_alloc_ex m),
      m_dealloc_ex := map (te_resolve dlsym sym_size) (m_dealloc_ex m)\<rparr>"

definition memory_init :: "(string \<Rightarrow> addr) \<Rightarrow> (addr \<Rightarrow> u64) \<Rightarrow> memory" where
  "memory_init dlsym sym_size = reinitialize dlsym sym_size memory_fields"

section \<open>Allocation\<close>

text \<open>The two assignments that follow every growth of \<^verbatim>\<open>_allocateSize\<close>.\<close>

definition update_peaks :: "memory \<Rightarrow> memory" where
  "update_peaks m =
    m\<lparr>m_max_alloc := max (m_max_alloc m) (m_alloc_size m - m_free_size m),
      m_max_count := max (m_max_count m) (m_alloc_count m - m_free_count m)\<rparr>"

definition mem_track :: "call_stack \<Rightarrow> addr \<Rightarrow> u64 \<Rightarrow> memory \<Rightarrow> memory" where
  "mem_track cs ptr sz m0 =
    (case mem_enter m0 of
       (False, m) \<Rightarrow> m
     | (True, m) \<Rightarrow>
         mem_exit
           (if can_track_alloc cs m then
              update_peaks
                (m\<lparr>m_blocks := um_insert ptr \<lparr>asize = sz, acalls = cs\<rparr> (m_blocks m),
                   m_alloc_size := m_alloc_size m + sz,
                   m_alloc_count := m_alloc_count m + 1\<rparr>)
            else m))"

definition mem_track_mapped :: "call_stack \<Rightarrow> addr \<Rightarrow> u64 \<Rightarrow> memory \<Rightarrow> memory" where
  "mem_track_mapped cs ptr sz m0 =
    (case mem_enter m0 of
       (False, m) \<Rightarrow> m
     | (True, m) \<Rightarrow>
         mem_exit
           (if can_track_alloc cs m then
              update_peaks
                (m\<lparr>m_ordered := om_insert (ptr + sz - 1) \<lparr>asize = sz, acalls = cs\<rparr> (m_ordered m),
                   m_alloc_size := m_alloc_size m + sz\<rparr>)
            else m))"

section \<open>Deallocation and reallocation of heap blocks\<close>

text \<open>
  A deallocation ends normally, or throws \<^verbatim>\<open>SandboxFatalException\<close> for an address with no
  tracked block. The tracker's state is returned in both cases; the call \<^verbatim>\<open>sandbox().exitAll()\<close>
  before the \<^verbatim>\<open>throw\<close> is made by the wrappers of the theory \<open>Sandbox\<close>.
\<close>

datatype mem_outcome = Mem_done | No_valid_block addr

definition fatal_unless_excepted :: "call_stack \<Rightarrow> addr \<Rightarrow> memory \<Rightarrow> mem_outcome \<times> memory" where
  "fatal_unless_excepted cs ptr m =
    (let error = can_track_dealloc cs m
     in (if error then No_valid_block ptr else Mem_done, mem_exit m))"

definition mem_retrack :: "call_stack \<Rightarrow> addr \<Rightarrow> addr \<Rightarrow> u64 \<Rightarrow> memory \<Rightarrow> mem_outcome \<times> memory" where
  "mem_retrack cs old_ptr new_ptr new_size m0 =
    (case mem_enter m0 of
       (False, m) \<Rightarrow> (Mem_done, m)
     | (True, m) \<Rightarrow>
         (case um_find old_ptr (m_blocks m) of
            None \<Rightarrow> fatal_unless_excepted cs old_ptr m
          | Some al \<Rightarrow>
              (Mem_done,
               mem_exit
                 (update_peaks
                   (m\<lparr>m_blocks := um_insert new_ptr (al\<lparr>asize := new_size\<rparr>)
                                    (um_erase old_ptr (m_blocks m)),
                      m_alloc_size := m_alloc_size m + (new_size - asize al)\<rparr>)))))"

definition mem_remove :: "call_stack \<Rightarrow> addr \<Rightarrow> memory \<Rightarrow> mem_outcome \<times> memory" where
  "mem_remove cs ptr m0 =
    (case mem_enter m0 of
       (False, m) \<Rightarrow> (Mem_done, m)
     | (True, m) \<Rightarrow>
         (case um_find ptr (m_blocks m) of
            None \<Rightarrow> fatal_unless_excepted cs ptr m
          | Some al \<Rightarrow>
              (Mem_done,
               mem_exit
                 (m\<lparr>m_free_size := m_free_size m + asize al,
                    m_free_count := m_free_count m + 1,
                    m_blocks := um_erase ptr (m_blocks m)\<rparr>))))"

section \<open>Deallocation and reallocation of mapped regions\<close>

text \<open>
  The body of the \<^verbatim>\<open>while\<close> loop of \<^verbatim>\<open>remove_mapped\<close>, which \<^verbatim>\<open>retrack_mapped\<close> repeats word for
  word on \<^verbatim>\<open>oldPtr\<close> and \<^verbatim>\<open>oldSize\<close>. The state is the pointer, the number of bytes still to
  release, the regions and \<^verbatim>\<open>_freeSize\<close>; \<open>None\<close> is a \<^verbatim>\<open>break\<close>.
\<close>

type_synonym release_state = "addr \<times> u64 \<times> (addr, allocation) omap \<times> u64"

definition release_step :: "release_state \<Rightarrow> release_state option" where
  "release_step s =
    (case s of (ptr, sz, ob, fs) \<Rightarrow>
      (case om_lower_bound ptr ob of
         None \<Rightarrow> None
       | Some (k, al) \<Rightarrow>
           let p = k - asize al + 1 in
           if p > ptr then None
           else let ob = um_erase k ob in
             Some
              (if ptr = p then
                 (if asize al > sz then
                    let p = p + sz;
                        al = al\<lparr>asize := asize al - sz\<rparr>
                    in (ptr, 0, om_insert (p + asize al - 1) al ob, fs + sz)
                  else (ptr + asize al, sz - asize al, ob, fs + asize al))
               else
                 let off = ptr - p;
                     rem = asize al - off
                 in if rem > sz then
                      let al = al\<lparr>asize := off\<rparr>;
                          ob = om_insert (p + asize al - 1) al ob;
                          p = ptr + sz;
                          al = al\<lparr>asize := rem - sz\<rparr>
                      in (ptr, 0, om_insert (p + asize al - 1) al ob, fs + sz)
                    else
                      let al = al\<lparr>asize := asize al - rem\<rparr>
                      in (ptr + rem, sz - rem, om_insert (p + asize al - 1) al ob, fs + rem))))"

text \<open>
  The loop ends for every state, also for one no operation produces: an iteration lowers the
  number of bytes to release, or (a region of size 0 that ends at the last address) keeps it and
  removes a region.
\<close>

lemma om_lower_bound_mem: "om_lower_bound k ob = Some e \<Longrightarrow> e \<in> set ob \<and> k \<le> fst e"
  by (induction ob) (auto split: if_splits)

lemma um_erase_shorter: "(k, v) \<in> set ob \<Longrightarrow> length (um_erase k ob) < length ob"
  unfolding um_erase_def by (rule length_filter_less) auto

text \<open>The four outcomes of an iteration, for a region \<open>al\<close> from \<open>p\<close> to \<open>k\<close>.\<close>

lemma release_step_cases:
  assumes "release_step (ptr, sz, ob, fs) = Some s"
  obtains (whole) k al where "om_lower_bound ptr ob = Some (k, al)" "ptr = k - asize al + 1"
      "asize al \<le> sz" "s = (ptr + asize al, sz - asize al, um_erase k ob, fs + asize al)"
  | (front) k al where "om_lower_bound ptr ob = Some (k, al)" "ptr = k - asize al + 1"
      "sz < asize al"
      "s = (ptr, 0, om_insert (ptr + sz + (asize al - sz) - 1) (al\<lparr>asize := asize al - sz\<rparr>)
                      (um_erase k ob), fs + sz)"
  | (middle) k al p rem where "om_lower_bound ptr ob = Some (k, al)" "p = k - asize al + 1"
      "p < ptr" "rem = asize al - (ptr - p)" "sz < rem"
      "s = (ptr, 0, om_insert (ptr + sz + (rem - sz) - 1) (al\<lparr>asize := rem - sz\<rparr>)
                      (om_insert (p + (ptr - p) - 1) (al\<lparr>asize := ptr - p\<rparr>) (um_erase k ob)),
            fs + sz)"
  | (tail) k al p rem where "om_lower_bound ptr ob = Some (k, al)" "p = k - asize al + 1"
      "p < ptr" "rem = asize al - (ptr - p)" "rem \<le> sz"
      "s = (ptr + rem, sz - rem,
            om_insert (p + (asize al - rem) - 1) (al\<lparr>asize := asize al - rem\<rparr>) (um_erase k ob),
            fs + rem)"
proof -
  obtain k al where lb: "om_lower_bound ptr ob = Some (k, al)"
    using assms by (auto simp: release_step_def split: option.splits)
  define p where "p = k - asize al + 1"
  define rem where "rem = asize al - (ptr - p)"
  note unf = assms [unfolded release_step_def prod.case lb option.case Let_def, folded p_def, folded rem_def]
  have p_le: "p \<le> ptr"
    using unf by (auto split: if_splits)
  consider "ptr = p" "asize al \<le> sz" | "ptr = p" "sz < asize al"
    | "p < ptr" "sz < rem" | "p < ptr" "rem \<le> sz"
    using p_le by fastforce
  then show ?thesis
  proof cases
    case 1 then show ?thesis using unf lb by (intro whole) (auto simp: p_def)
  next
    case 2 then show ?thesis using unf lb by (intro front) (auto simp: p_def)
  next
    case 3
    then have "s = (ptr, 0, om_insert (ptr + sz + (rem - sz) - 1) (al\<lparr>asize := rem - sz\<rparr>)
        (om_insert (p + (ptr - p) - 1) (al\<lparr>asize := ptr - p\<rparr>) (um_erase k ob)), fs + sz)"
      using unf by (auto split: if_splits)
    with 3 show ?thesis
      by (intro middle [OF lb p_def _ rem_def])
  next
    case 4
    then have "s = (ptr + rem, sz - rem,
        om_insert (p + (asize al - rem) - 1) (al\<lparr>asize := asize al - rem\<rparr>) (um_erase k ob),
        fs + rem)"
      using unf by (auto split: if_splits)
    with 4 show ?thesis
      by (intro tail [OF lb p_def _ rem_def])
  qed
qed

lemma region_rest_nonzero:
  fixes k s ptr :: u64
  assumes "k - s + 1 < ptr" and "ptr \<le> k"
  shows "s - (ptr - (k - s + 1)) \<noteq> 0"
proof -
  have "s - (ptr - (k - s + 1)) = k - ptr + 1"
    by simp
  moreover have "k - ptr + 1 \<noteq> 0"
  proof
    assume "k - ptr + 1 = 0"
    then have "k = ptr - 1"
      by (simp add: algebra_simps)
    moreover have "ptr \<noteq> 0"
      using assms(1) by auto
    ultimately show False
      using assms(2) by (simp add: word_le_unat unat_minus_one unat_pos_iff [symmetric])
  qed
  ultimately show ?thesis
    by metis
qed

lemma release_step_decreases:
  assumes "release_step (ptr, sz, ob, fs) = Some (ptr', sz', ob', fs')" and "0 < sz"
  shows "sz' < sz \<or> sz' = sz \<and> length ob' < length ob"
  using assms(1)
proof (cases rule: release_step_cases)
  case (whole k al)
  then show ?thesis
    using om_lower_bound_mem [OF whole(1)] um_erase_shorter [of k al ob]
    by (cases "asize al = 0") (auto intro: word_sub_less_pos)
next
  case (tail k al p rem)
  then have "rem \<noteq> 0"
    using region_rest_nonzero om_lower_bound_mem [OF tail(1)] by auto
  then show ?thesis
    using tail by (auto intro: word_sub_less_pos)
qed (use assms(2) in auto)

function release_loop :: "release_state \<Rightarrow> release_state" where
  "release_loop (ptr, sz, ob, fs) =
    (if sz > 0 then
       (case release_step (ptr, sz, ob, fs) of
          None \<Rightarrow> (ptr, sz, ob, fs)
        | Some s \<Rightarrow> release_loop s)
     else (ptr, sz, ob, fs))"
  by pat_completeness auto
termination
  by (relation "measures [\<lambda>(ptr, sz, ob, fs). unat sz, \<lambda>(ptr, sz, ob, fs). length ob]")
     (auto dest!: release_step_decreases simp: word_less_unat)

declare release_loop.simps [simp del]

definition mem_remove_mapped :: "call_stack \<Rightarrow> addr \<Rightarrow> u64 \<Rightarrow> memory \<Rightarrow> mem_outcome \<times> memory" where
  "mem_remove_mapped cs ptr0 sz0 m0 =
    (case mem_enter m0 of
       (False, m) \<Rightarrow> (Mem_done, m)
     | (True, m) \<Rightarrow>
         (case release_loop (ptr0, sz0, m_ordered m, m_free_size m) of
            (ptr, sz, ob, fs) \<Rightarrow>
              let m = m\<lparr>m_ordered := ob, m_free_size := fs\<rparr> in
              if sz > 0 then fatal_unless_excepted cs ptr m
              else (Mem_done, mem_exit m)))"

definition mem_retrack_mapped ::
  "call_stack \<Rightarrow> addr \<Rightarrow> u64 \<Rightarrow> addr \<Rightarrow> u64 \<Rightarrow> memory \<Rightarrow> mem_outcome \<times> memory" where
  "mem_retrack_mapped cs old_ptr0 old_size0 new_ptr new_size m0 =
    (case mem_enter m0 of
       (False, m) \<Rightarrow> (Mem_done, m)
     | (True, m) \<Rightarrow>
         (case release_loop (old_ptr0, old_size0, m_ordered m, m_free_size m) of
            (old_ptr, old_size, ob, fs) \<Rightarrow>
              let m = m\<lparr>m_ordered := ob, m_free_size := fs\<rparr> in
              if old_size > 0 then fatal_unless_excepted cs old_ptr m
              else
                (Mem_done,
                 mem_exit
                   (if can_track_alloc cs m then
                      update_peaks
                        (m\<lparr>m_ordered := om_insert (new_ptr + new_size - 1)
                                          \<lparr>asize = new_size, acalls = cs\<rparr> (m_ordered m),
                           m_alloc_size := m_alloc_size m + new_size\<rparr>)
                    else m))))"

section \<open>Clearing and reporting\<close>

text \<open>
  \<^verbatim>\<open>clear\<close> hands every block back to the C library: the calls it makes are returned, in order.
  Neither \<^verbatim>\<open>clear\<close> nor \<^verbatim>\<open>report\<close> looks at the result of \<^verbatim>\<open>_enter\<close>, and both call \<^verbatim>\<open>_exit\<close>.
\<close>

datatype libc_release = Libc_free addr | Libc_munmap addr u64

definition mem_clear :: "memory \<Rightarrow> libc_release list \<times> memory" where
  "mem_clear m0 =
    (let m = snd (mem_enter m0);
         calls = map (\<lambda>(b, al). Libc_free b) (m_blocks m)
               @ map (\<lambda>(b, al). Libc_munmap (b - asize al + 1) (asize al)) (m_ordered m);
         m = fold (\<lambda>(b, al) m. m\<lparr>m_free_size := m_free_size m + asize al,
                                  m_free_count := m_free_count m + 1\<rparr>) (m_blocks m) m;
         m = m\<lparr>m_blocks := []\<rparr>;
         m = fold (\<lambda>(b, al) m. m\<lparr>m_free_size := m_free_size m + asize al\<rparr>) (m_ordered m) m;
         m = m\<lparr>m_ordered := []\<rparr>
     in (calls, mem_exit m))"

text \<open>The printing of an address and of a call stack (symbol lookup) are arguments.\<close>

definition report_block :: "(addr \<Rightarrow> string) \<Rightarrow> (call_stack \<Rightarrow> string) \<Rightarrow> addr \<Rightarrow> call_stack \<Rightarrow> string" where
  "report_block show_ptr show_stack b cs =
    ''\<newline>Block @ '' @ show_ptr b @ '' allocated from:\<newline>'' @ show_stack cs"

definition mem_report ::
  "(addr \<Rightarrow> string) \<Rightarrow> (call_stack \<Rightarrow> string) \<Rightarrow> memory \<Rightarrow> string \<times> memory" where
  "mem_report show_ptr show_stack m0 =
    (let m = snd (mem_enter m0)
     in (concat (map (\<lambda>(b, al). report_block show_ptr show_stack b (acalls al)) (m_blocks m))
         @ concat (map (\<lambda>(b, al). report_block show_ptr show_stack (b - asize al + 1) (acalls al))
                    (m_ordered m)),
         mem_exit m))"

end
