(* ===== verification/Memory_Regions.thy ===== *)
theory Memory_Regions
  imports Memory
begin

text \<open>
  Mapped regions as sets of bytes. A well-formed tracker holds disjoint regions, each inside the
  address space; its abstraction is the set of mapped byte addresses (as natural numbers, so
  that a region may end at the last address). Releasing a range removes exactly its bytes, in
  order, up to the first byte that is not mapped.
\<close>

section \<open>Abstraction\<close>

definition region_ok :: "addr \<Rightarrow> allocation \<Rightarrow> bool" where
  "region_ok k al \<longleftrightarrow> asize al \<noteq> 0 \<and> unat (asize al) \<le> unat k + 1"

definition region_bytes :: "addr \<Rightarrow> allocation \<Rightarrow> nat set" where
  "region_bytes k al = {unat k + 1 - unat (asize al) ..< unat k + 1}"

definition mapped_bytes :: "(addr, allocation) omap \<Rightarrow> nat set" where
  "mapped_bytes ob = (\<Union>(k, al) \<in> set ob. region_bytes k al)"

definition regions_ok :: "(addr, allocation) omap \<Rightarrow> bool" where
  "regions_ok ob \<longleftrightarrow> om_invar ob
     \<and> (\<forall>(k, al) \<in> set ob. region_ok k al)
     \<and> (\<forall>(k, al) \<in> set ob. \<forall>(k', al') \<in> set ob. k \<noteq> k' \<longrightarrow> region_bytes k al \<inter> region_bytes k' al' = {})"

definition mapped_total :: "(addr, allocation) omap \<Rightarrow> nat" where
  "mapped_total ob = sum_list (map (\<lambda>e. unat (asize (snd e))) ob)"

lemma regions_ok_om_invar: "regions_ok ob \<Longrightarrow> om_invar ob"
  by (simp add: regions_ok_def)

lemma regions_ok_region: "regions_ok ob \<Longrightarrow> (k, al) \<in> set ob \<Longrightarrow> region_ok k al"
  by (fastforce simp: regions_ok_def)

lemma regions_ok_disjoint: "regions_ok ob \<Longrightarrow> (k, al) \<in> set ob \<Longrightarrow> (k', al') \<in> set ob \<Longrightarrow> k \<noteq> k' \<Longrightarrow>
    region_bytes k al \<inter> region_bytes k' al' = {}"
  unfolding regions_ok_def by (drule conjunct2, drule conjunct2) (drule (1) bspec, fastforce)

lemma regions_okI:
  assumes "om_invar ob" and "\<And>k al. (k, al) \<in> set ob \<Longrightarrow> region_ok k al"
    and "\<And>k al k' al'. (k, al) \<in> set ob \<Longrightarrow> (k', al') \<in> set ob \<Longrightarrow> k \<noteq> k' \<Longrightarrow>
      region_bytes k al \<inter> region_bytes k' al' = {}"
  shows "regions_ok ob"
  unfolding regions_ok_def using assms by blast

lemma region_ok_last: "region_ok k al \<Longrightarrow> unat k \<in> region_bytes k al"
  by (auto simp: region_ok_def region_bytes_def unat_pos_iff [symmetric])

lemma region_first: "region_ok k al \<Longrightarrow> unat (k - asize al + 1) = unat k + 1 - unat (asize al)"
  by (simp add: region_ok_def unat_last_minus_size)

text \<open>A region given by its first byte and its size.\<close>

lemma region_from_start:
  assumes "asize al \<noteq> 0" and "unat p + unat (asize al) \<le> 2 ^ 64"
  shows "region_ok (p + asize al - 1) al"
    and "region_bytes (p + asize al - 1) al = {unat p ..< unat p + unat (asize al)}"
  using assms unat_start_plus_size [OF assms]
  by (auto simp: region_ok_def region_bytes_def unat_pos_iff [symmetric])

section \<open>Erasing and inserting a region\<close>

lemma regions_erase:
  assumes ok: "regions_ok ob" and mem: "um_find k ob = Some al"
  shows "regions_ok (um_erase k ob)"
    and "mapped_bytes (um_erase k ob) = mapped_bytes ob - region_bytes k al"
    and "mapped_total ob = unat (asize al) + mapped_total (um_erase k ob)"
proof -
  have inv: "om_invar ob"
    using ok by (rule regions_ok_om_invar)
  have kal: "(k, al) \<in> set ob"
    using mem inv by (simp add: om.lookup_Some_iff)
  have uniq: "al' = al" if "(k, al') \<in> set ob" for al'
    using that mem inv by (metis om.lookup_Some_iff option.inject)
  show "regions_ok (um_erase k ob)"
    using regions_ok_region [OF ok] regions_ok_disjoint [OF ok] om.invar_erase [OF inv]
    by (intro regions_okI) (auto simp: om.set_erase [OF inv])
  show "mapped_bytes (um_erase k ob) = mapped_bytes ob - region_bytes k al"
  proof -
    have "set ob = insert (k, al) (set (um_erase k ob))"
      using kal by (auto simp: om.set_erase [OF inv] dest: uniq)
    then have "mapped_bytes ob = region_bytes k al \<union> mapped_bytes (um_erase k ob)"
      by (simp add: mapped_bytes_def)
    moreover have "region_bytes k al \<inter> region_bytes k' al' = {}" if "(k', al') \<in> set (um_erase k ob)" for k' al'
      using that regions_ok_disjoint [OF ok kal] by (auto simp: om.set_erase [OF inv])
    then have "region_bytes k al \<inter> mapped_bytes (um_erase k ob) = {}"
      by (force simp: mapped_bytes_def)
    ultimately show ?thesis
      by blast
  qed
  show "mapped_total ob = unat (asize al) + mapped_total (um_erase k ob)"
    unfolding mapped_total_def by (subst om.weight_erase [OF inv mem]) simp
qed

lemma regions_fresh:
  assumes "regions_ok ob" and "region_ok k al" and "region_bytes k al \<inter> mapped_bytes ob = {}"
  shows "um_find k ob = None"
proof (rule ccontr)
  assume "um_find k ob \<noteq> None"
  then obtain al' where "(k, al') \<in> set ob"
    using om.lookup_Some_iff [OF regions_ok_om_invar [OF assms(1)]] by auto
  then have "unat k \<in> mapped_bytes ob"
    using region_ok_last [OF regions_ok_region [OF assms(1)]] by (force simp: mapped_bytes_def)
  then show False
    using assms(2,3) region_ok_last by blast
qed

lemma regions_insert:
  assumes ok: "regions_ok ob" and rok: "region_ok k al"
    and disj: "region_bytes k al \<inter> mapped_bytes ob = {}"
  shows "regions_ok (om_insert k al ob)"
    and "mapped_bytes (om_insert k al ob) = region_bytes k al \<union> mapped_bytes ob"
    and "mapped_total (om_insert k al ob) = unat (asize al) + mapped_total ob"
proof -
  have inv: "om_invar ob"
    using ok by (rule regions_ok_om_invar)
  have new: "um_find k ob = None"
    using ok rok disj by (rule regions_fresh)
  have disj': "region_bytes k al \<inter> region_bytes k' al' = {}" if "(k', al') \<in> set ob" for k' al'
    using that disj by (force simp: mapped_bytes_def)
  show "regions_ok (om_insert k al ob)"
  proof (rule regions_okI)
    show "om_invar (om_insert k al ob)"
      using inv by (rule om.invar_insert)
  next
    fix k1 al1 assume "(k1, al1) \<in> set (om_insert k al ob)"
    then show "region_ok k1 al1"
      using rok regions_ok_region [OF ok] by (auto simp: om.set_insert [OF inv new])
  next
    fix k1 al1 k2 al2
    assume "(k1, al1) \<in> set (om_insert k al ob)" "(k2, al2) \<in> set (om_insert k al ob)" "k1 \<noteq> k2"
    then show "region_bytes k1 al1 \<inter> region_bytes k2 al2 = {}"
      using disj' regions_ok_disjoint [OF ok] unfolding om.set_insert [OF inv new]
      by (metis Int_commute insert_iff prod.inject)
  qed
  show "mapped_bytes (om_insert k al ob) = region_bytes k al \<union> mapped_bytes ob"
    by (simp add: mapped_bytes_def om.set_insert [OF inv new])
  show "mapped_total (om_insert k al ob) = unat (asize al) + mapped_total ob"
    unfolding mapped_total_def by (subst om.weight_insert [OF inv new]) simp
qed

text \<open>Re-inserting the part of an erased region that starts at \<open>p\<close>.\<close>

lemma regions_insert_start:
  assumes "regions_ok ob" and "asize al \<noteq> 0" and "unat p + unat (asize al) \<le> 2 ^ 64"
    and "{unat p ..< unat p + unat (asize al)} \<inter> mapped_bytes ob = {}"
  shows "regions_ok (om_insert (p + asize al - 1) al ob)"
    and "mapped_bytes (om_insert (p + asize al - 1) al ob)
         = {unat p ..< unat p + unat (asize al)} \<union> mapped_bytes ob"
    and "mapped_total (om_insert (p + asize al - 1) al ob) = unat (asize al) + mapped_total ob"
  using regions_insert [OF assms(1) region_from_start(1) [OF assms(2,3)]] assms(4)
  by (simp_all add: region_from_start(2) [OF assms(2,3)])

section \<open>One iteration\<close>

lemma not_mapped_before_lower_bound:
  assumes ok: "regions_ok ob" and "om_lower_bound ptr ob = None \<or>
    (\<exists>k al. om_lower_bound ptr ob = Some (k, al) \<and> ptr < k - asize al + 1)"
  shows "unat ptr \<notin> mapped_bytes ob"
proof
  assume "unat ptr \<in> mapped_bytes ob"
  then obtain k' al' where e: "(k', al') \<in> set ob" and pin: "unat ptr \<in> region_bytes k' al'"
    by (auto simp: mapped_bytes_def)
  have inv: "om_invar ob"
    using ok by (rule regions_ok_om_invar)
  have k': "ptr \<le> k'"
    using pin by (auto simp: region_bytes_def word_le_unat)
  then obtain k al where lb: "om_lower_bound ptr ob = Some (k, al)" and first: "ptr < k - asize al + 1"
    using assms(2) om.lower_bound_None [OF inv _ e, of ptr] by fastforce
  have kin: "(k, al) \<in> set ob" and kle: "k \<le> k'" and pk: "ptr \<le> k"
    using om.lower_bound_in [OF inv lb] om.lower_bound_least [OF inv lb e] om.lower_bound_ge [OF inv lb] k'
    by auto
  have rok: "region_ok k al"
    using ok kin by (rule regions_ok_region)
  have "unat ptr < unat k + 1 - unat (asize al)"
    using first by (simp add: word_less_unat region_first [OF rok])
  then have "unat ptr \<notin> region_bytes k al"
    by (simp add: region_bytes_def)
  then have "k \<noteq> k'"
    using pin e kin inv by (metis om.lookup_Some_iff option.inject)
  moreover have "unat k \<in> region_bytes k' al'"
    using pin pk kle by (auto simp: region_bytes_def word_le_unat)
  ultimately show False
    using regions_ok_disjoint [OF ok kin e] region_ok_last [OF rok] by blast
qed

text \<open>What one iteration does to \<open>n > 0\<close> bytes at \<open>ptr\<close>.\<close>

definition releases ::
  "nat \<Rightarrow> addr \<Rightarrow> u64 \<Rightarrow> (addr, allocation) omap \<Rightarrow> u64 \<Rightarrow> release_state \<Rightarrow> bool" where
  "releases n ptr sz ob fs s =
    (case s of (ptr', sz', ob', fs') \<Rightarrow>
       n \<le> unat sz \<and> unat sz' = unat sz - n \<and> (sz' \<noteq> 0 \<longrightarrow> unat ptr' = unat ptr + n)
       \<and> {unat ptr ..< unat ptr + n} \<subseteq> mapped_bytes ob
       \<and> regions_ok ob'
       \<and> mapped_bytes ob' = mapped_bytes ob - {unat ptr ..< unat ptr + n}
       \<and> mapped_total ob = mapped_total ob' + n
       \<and> fs' = fs + of_nat n)"

lemma region_in_mapped: "(k, al) \<in> set ob \<Longrightarrow> region_bytes k al \<subseteq> mapped_bytes ob"
  by (force simp: mapped_bytes_def)


text \<open>The region an iteration works on, and its byte range in natural numbers.\<close>

lemma release_region:
  assumes ok: "regions_ok ob" and lb: "om_lower_bound ptr ob = Some (k, al)"
    and p: "p = k - asize al + 1" and le: "p \<le> ptr"
  shows "um_find k ob = Some al" and "region_ok k al"
    and "region_bytes k al = {unat p ..< unat p + unat (asize al)}"
    and "unat p + unat (asize al) = unat k + 1"
    and "unat p \<le> unat ptr" and "unat ptr \<le> unat k"
    and "{unat p ..< unat p + unat (asize al)} \<subseteq> mapped_bytes ob"
proof -
  have inv: "om_invar ob"
    using ok by (rule regions_ok_om_invar)
  have mem: "(k, al) \<in> set ob"
    using om.lower_bound_in [OF inv lb] .
  show "um_find k ob = Some al"
    using inv lb by (rule om.lower_bound_lookup)
  show rok: "region_ok k al"
    using ok mem by (rule regions_ok_region)
  show bound: "unat p + unat (asize al) = unat k + 1"
    using rok region_first [OF rok] p by (simp add: region_ok_def)
  show range: "region_bytes k al = {unat p ..< unat p + unat (asize al)}"
    unfolding bound using region_first [OF rok] p by (simp add: region_bytes_def)
  show "unat p \<le> unat ptr"
    using le by (simp add: word_le_unat)
  show "unat ptr \<le> unat k"
    using om.lower_bound_ge [OF inv lb] by (simp add: word_le_unat)
  show "{unat p ..< unat p + unat (asize al)} \<subseteq> mapped_bytes ob"
    using region_in_mapped [OF mem] range by simp
qed

lemma releases_whole:
  assumes ok: "regions_ok ob" and lb: "om_lower_bound ptr ob = Some (k, al)"
    and p: "ptr = k - asize al + 1" and le: "asize al \<le> sz"
    and range: "unat ptr + unat sz \<le> 2 ^ 64"
  shows "releases (unat (asize al)) ptr sz ob fs
    (ptr + asize al, sz - asize al, um_erase k ob, fs + asize al)"
proof -
  note r = release_region [OF ok lb p order_refl]
  have "unat (sz - asize al) = unat sz - unat (asize al)" and le': "unat (asize al) \<le> unat sz"
    using le by (simp_all add: word_nat word_le_unat)
  moreover have "sz - asize al \<noteq> 0 \<longrightarrow> unat (ptr + asize al) = unat ptr + unat (asize al)"
  proof
    assume "sz - asize al \<noteq> 0"
    then have "unat (asize al) < unat sz"
      using le le' by (metis eq_iff_diff_eq_0 le_neq_implies_less word_unat_eq_iff)
    then show "unat (ptr + asize al) = unat ptr + unat (asize al)"
      using range by (intro unat_add_nowrap) simp
  qed
  ultimately show ?thesis
    using regions_erase [OF ok r(1)] r(3,7) by (simp add: releases_def)
qed

lemma releases_front:
  assumes ok: "regions_ok ob" and lb: "om_lower_bound ptr ob = Some (k, al)"
    and p: "ptr = k - asize al + 1" and less: "sz < asize al"
  shows "releases (unat sz) ptr sz ob fs
    (ptr, 0, om_insert (ptr + sz + (asize al - sz) - 1) (al\<lparr>asize := asize al - sz\<rparr>) (um_erase k ob),
     fs + sz)"
proof -
  note r = release_region [OF ok lb p order_refl]
  note e = regions_erase [OF ok r(1)]
  let ?al = "al\<lparr>asize := asize al - sz\<rparr>"
  have lt: "unat sz < unat (asize al)"
    using less by (simp add: word_less_unat)
  have rest: "unat (asize ?al) = unat (asize al) - unat sz"
    using less by (simp add: word_nat)
  have ptr': "unat (ptr + sz) = unat ptr + unat sz"
    using r(4) lt unat_below [of k] by (intro unat_add_nowrap) simp
  have nz: "asize ?al \<noteq> 0"
    using rest lt unat_pos_iff [of "asize ?al"] by simp
  have fits: "unat (ptr + sz) + unat (asize ?al) = unat ptr + unat (asize al)"
    using ptr' rest lt by simp
  have bound: "unat (ptr + sz) + unat (asize ?al) \<le> 2 ^ 64"
    using fits r(4) unat_below [of k] by simp
  have disj: "{unat (ptr + sz) ..< unat (ptr + sz) + unat (asize ?al)} \<inter> mapped_bytes (um_erase k ob) = {}"
    unfolding fits unfolding ptr' e(2) r(3) by auto
  note ins = regions_insert_start [OF e(1) nz bound disj]
  have "mapped_bytes (om_insert (ptr + sz + asize ?al - 1) ?al (um_erase k ob))
      = mapped_bytes ob - {unat ptr ..< unat ptr + unat sz}"
    unfolding ins(2) fits unfolding ptr' e(2) r(3) using r(7) lt by auto
  moreover have "{unat ptr ..< unat ptr + unat sz} \<subseteq> mapped_bytes ob"
    using r(7) lt by auto
  ultimately show ?thesis
    using ins(1,3) e(3) rest lt by (simp add: releases_def)
qed

lemma release_rest:
  assumes ok: "regions_ok ob" and lb: "om_lower_bound ptr ob = Some (k, al)"
    and p: "p = k - asize al + 1" and le: "p < ptr" and rem: "rem = asize al - (ptr - p)"
  shows "unat (ptr - p) = unat ptr - unat p" and "unat p < unat ptr"
    and "unat rem = unat k + 1 - unat ptr" and "asize al - rem = ptr - p"
proof -
  note r = release_region [OF ok lb p order_less_imp_le [OF le]]
  show off: "unat (ptr - p) = unat ptr - unat p"
    using le by (simp add: word_nat)
  show lt: "unat p < unat ptr"
    using le by (simp add: word_less_unat)
  have "ptr - p \<le> asize al"
    using off r(4,6) by (simp add: word_le_unat)
  then show "unat rem = unat k + 1 - unat ptr"
    using off r(4,6) lt by (simp add: rem word_nat)
  show "asize al - rem = ptr - p"
    by (simp add: rem)
qed

lemma releases_middle:
  assumes ok: "regions_ok ob" and lb: "om_lower_bound ptr ob = Some (k, al)"
    and p: "p = k - asize al + 1" and le: "p < ptr" and rem: "rem = asize al - (ptr - p)"
    and less: "sz < rem"
  shows "releases (unat sz) ptr sz ob fs
    (ptr, 0, om_insert (ptr + sz + (rem - sz) - 1) (al\<lparr>asize := rem - sz\<rparr>)
               (om_insert (p + (ptr - p) - 1) (al\<lparr>asize := ptr - p\<rparr>) (um_erase k ob)), fs + sz)"
proof -
  note r = release_region [OF ok lb p order_less_imp_le [OF le]]
  note q = release_rest [OF ok lb p le rem]
  note e = regions_erase [OF ok r(1)]
  have inside: "x \<in> mapped_bytes ob" if "unat p \<le> x" "x < unat k + 1" for x
    using r(7) that unfolding r(4) by auto
  let ?al1 = "al\<lparr>asize := ptr - p\<rparr>" and ?al2 = "al\<lparr>asize := rem - sz\<rparr>"
  have k64: "unat k + 1 \<le> 2 ^ 64"
    using unat_below [of k] by simp
  have lt: "unat sz < unat rem"
    using less by (simp add: word_less_unat)
  have s1: "unat (asize ?al1) = unat ptr - unat p"
    using q(1) by simp
  have s2: "unat (asize ?al2) = unat rem - unat sz"
    using less by (simp add: word_nat)
  have nz1: "asize ?al1 \<noteq> 0" and nz2: "asize ?al2 \<noteq> 0"
    using s1 s2 q(2) lt unat_pos_iff [of "asize ?al1"] unat_pos_iff [of "asize ?al2"] by auto
  have end1: "unat p + unat (asize ?al1) = unat ptr"
    using s1 q(2) by simp
  have ptr': "unat (ptr + sz) = unat ptr + unat sz"
    using lt q(3) k64 by (intro unat_add_nowrap) simp
  have end2: "unat (ptr + sz) + unat (asize ?al2) = unat k + 1"
    using ptr' s2 q(3) lt r(6) by simp
  let ?ob1 = "om_insert (p + asize ?al1 - 1) ?al1 (um_erase k ob)"
  have "{unat p ..< unat p + unat (asize ?al1)} \<inter> mapped_bytes (um_erase k ob) = {}"
    unfolding end1 e(2) r(3) using r(4,6) by auto
  note i1 = regions_insert_start [OF e(1) nz1 _ this, unfolded end1]
  have i1': "regions_ok ?ob1" "mapped_bytes ?ob1 = {unat p ..< unat ptr} \<union> mapped_bytes (um_erase k ob)"
    "mapped_total ?ob1 = unat (asize ?al1) + mapped_total (um_erase k ob)"
    using i1 unat_below [of ptr] by simp_all
  have "{unat (ptr + sz) ..< unat (ptr + sz) + unat (asize ?al2)} \<inter> mapped_bytes ?ob1 = {}"
    unfolding end2 unfolding i1'(2) e(2) r(3) r(4) ptr' using q(2) by auto
  note i2 = regions_insert_start [OF i1'(1) nz2 _ this, unfolded end2, OF k64]
  have "mapped_bytes (om_insert (ptr + sz + asize ?al2 - 1) ?al2 ?ob1)
      = mapped_bytes ob - {unat ptr ..< unat ptr + unat sz}"
    unfolding i2(2) unfolding ptr' i1'(2) e(2) r(3) r(4) using inside r(4,6) q(2,3) lt by auto
  moreover have "{unat ptr ..< unat ptr + unat sz} \<subseteq> mapped_bytes ob"
    using inside r(4,6) q(2,3) lt by auto
  moreover have "mapped_total ob
      = mapped_total (om_insert (ptr + sz + asize ?al2 - 1) ?al2 ?ob1) + unat sz"
    unfolding i2(3) i1'(3) e(3) s1 s2 using q(2,3) lt r(4,6) by simp
  ultimately show ?thesis
    using i2(1) by (simp add: releases_def)
qed

lemma releases_tail:
  assumes ok: "regions_ok ob" and lb: "om_lower_bound ptr ob = Some (k, al)"
    and p: "p = k - asize al + 1" and le: "p < ptr" and rem: "rem = asize al - (ptr - p)"
    and le2: "rem \<le> sz" and range: "unat ptr + unat sz \<le> 2 ^ 64"
  shows "releases (unat rem) ptr sz ob fs
    (ptr + rem, sz - rem,
     om_insert (p + (asize al - rem) - 1) (al\<lparr>asize := asize al - rem\<rparr>) (um_erase k ob), fs + rem)"
proof -
  note r = release_region [OF ok lb p order_less_imp_le [OF le]]
  note q = release_rest [OF ok lb p le rem]
  note e = regions_erase [OF ok r(1)]
  let ?al = "al\<lparr>asize := ptr - p\<rparr>"
  have s: "unat (asize ?al) = unat ptr - unat p"
    using q(1) by simp
  have nz: "asize ?al \<noteq> 0"
    using s q(2) unat_pos_iff [of "asize ?al"] by auto
  have end1: "unat p + unat (asize ?al) = unat ptr"
    using s q(2) by simp
  have rem_end: "unat ptr + unat rem = unat k + 1"
    using q(3) r(6) by simp
  have disj: "{unat p ..< unat p + unat (asize ?al)} \<inter> mapped_bytes (um_erase k ob) = {}"
    unfolding end1 e(2) r(3) using r(4,6) by auto
  have "unat ptr \<le> 2 ^ 64"
    using unat_below [of ptr] by simp
  note ins = regions_insert_start [OF e(1) nz _ disj, unfolded end1, OF this]
  have le': "unat rem \<le> unat sz"
    using le2 by (simp add: word_le_unat)
  have "sz - rem \<noteq> 0 \<longrightarrow> unat (ptr + rem) = unat ptr + unat rem"
  proof
    assume "sz - rem \<noteq> 0"
    then have "unat rem < unat sz"
      using le' by (metis eq_iff_diff_eq_0 le_neq_implies_less word_unat_eq_iff)
    then show "unat (ptr + rem) = unat ptr + unat rem"
      using range by (intro unat_add_nowrap) simp
  qed
  moreover have "unat (sz - rem) = unat sz - unat rem"
    using le2 by (simp add: word_nat)
  moreover have "mapped_bytes (om_insert (p + asize ?al - 1) ?al (um_erase k ob))
      = mapped_bytes ob - {unat ptr ..< unat ptr + unat rem}"
    unfolding ins(2) e(2) r(3) rem_end r(4) using r(7) r(4) r(6) q(2) by auto
  moreover have "{unat ptr ..< unat ptr + unat rem} \<subseteq> mapped_bytes ob"
    using r(7) r(4) rem_end q(2) by auto
  moreover have "mapped_total ob = mapped_total (om_insert (p + asize ?al - 1) ?al (um_erase k ob)) + unat rem"
    unfolding ins(3) e(3) s using rem_end r(4) q(2) by simp
  ultimately show ?thesis
    using ins(1) le' by (simp add: releases_def q(4))
qed

lemma release_step_releases:
  assumes "regions_ok ob" and "release_step (ptr, sz, ob, fs) = Some s"
    and "unat ptr + unat sz \<le> 2 ^ 64"
  shows "\<exists>n. releases n ptr sz ob fs s"
  using assms(2)
proof (cases rule: release_step_cases)
  case (whole k al) then show ?thesis using releases_whole assms by blast
next
  case (front k al) then show ?thesis using releases_front assms by blast
next
  case (middle k al p rem) then show ?thesis using releases_middle assms by blast
next
  case (tail k al p rem) then show ?thesis using releases_tail assms by blast
qed

lemma release_step_None:
  assumes "regions_ok ob" and "release_step (ptr, sz, ob, fs) = None"
  shows "unat ptr \<notin> mapped_bytes ob"
  using assms(2)
  by (intro not_mapped_before_lower_bound [OF assms(1)])
     (auto simp: release_step_def Let_def split: option.splits if_splits prod.splits)

section \<open>The loop\<close>

text \<open>
  The loop releases the longest fully mapped prefix of the range: all of it, or up to the first
  byte that is not mapped, which is the address it returns.
\<close>

lemma release_loop_releases:
  assumes "regions_ok ob" and "unat ptr + unat sz \<le> 2 ^ 64"
  shows "\<exists>n. releases n ptr sz ob fs (release_loop (ptr, sz, ob, fs))
    \<and> (case release_loop (ptr, sz, ob, fs) of (ptr', sz', ob', fs') \<Rightarrow>
         sz' \<noteq> 0 \<longrightarrow> unat ptr' \<notin> mapped_bytes ob)"
  using assms
proof (induction "(ptr, sz, ob, fs)" arbitrary: ptr sz ob fs rule: release_loop.induct)
  case (1 ptr sz ob fs)
  have refl: "releases 0 ptr sz ob fs (ptr, sz, ob, fs)"
    using "1.prems" by (simp add: releases_def)
  show ?case
  proof (cases "sz = 0")
    case True
    then show ?thesis
      using refl by (subst release_loop.simps) (auto simp: release_loop.simps)
  next
    case pos: False
    show ?thesis
    proof (cases "release_step (ptr, sz, ob, fs)")
      case None
      then show ?thesis
        using refl release_step_None [OF "1.prems"(1) None] pos
        by (auto simp: release_loop.simps [of ptr sz ob fs])
    next
      case (Some s)
      obtain ptr1 sz1 ob1 fs1 where s: "s = (ptr1, sz1, ob1, fs1)"
        by (cases s)
      obtain n where n: "releases n ptr sz ob fs s"
        using release_step_releases [OF "1.prems"(1) Some "1.prems"(2)] by blast
      have loop: "release_loop (ptr, sz, ob, fs) = release_loop (ptr1, sz1, ob1, fs1)"
        using Some pos s by (simp add: release_loop.simps [of ptr sz ob fs] word_gt_0)
      show ?thesis
      proof (cases "sz1 = 0")
        case True
        then show ?thesis
          using n s loop by (auto simp: release_loop.simps [of ptr1])
      next
        case False
        have ok1: "regions_ok ob1" and sz1: "unat sz1 = unat sz - n" "n \<le> unat sz"
          and ptr1: "unat ptr1 = unat ptr + n" and fs1: "fs1 = fs + of_nat n"
          and m1: "mapped_bytes ob1 = mapped_bytes ob - {unat ptr ..< unat ptr + n}"
          and t1: "mapped_total ob = mapped_total ob1 + n"
          and sub1: "{unat ptr ..< unat ptr + n} \<subseteq> mapped_bytes ob"
          using n False unfolding s releases_def by auto
        have "unat ptr1 + unat sz1 \<le> 2 ^ 64"
          using sz1 ptr1 "1.prems"(2) by simp
        with "1.hyps" [OF _ Some [unfolded s] ok1] pos obtain n2
          where n2: "releases n2 ptr1 sz1 ob1 fs1 (release_loop (ptr1, sz1, ob1, fs1))"
            and last: "case release_loop (ptr1, sz1, ob1, fs1) of (ptr', sz', ob', fs') \<Rightarrow>
               sz' \<noteq> 0 \<longrightarrow> unat ptr' \<notin> mapped_bytes ob1"
          by (auto simp: word_gt_0)
        obtain ptr2 sz2 ob2 fs2 where res: "release_loop (ptr1, sz1, ob1, fs1) = (ptr2, sz2, ob2, fs2)"
          by (cases "release_loop (ptr1, sz1, ob1, fs1)")
        have joined: "{unat ptr ..< unat ptr + n} \<union> {unat ptr1 ..< unat ptr1 + n2}
            = {unat ptr ..< unat ptr + (n + n2)}"
          unfolding ptr1 by auto
        have "releases (n + n2) ptr sz ob fs (ptr2, sz2, ob2, fs2)"
          using n2 res sz1 ptr1 fs1 t1 sub1 m1 unfolding releases_def joined [symmetric] by auto
        moreover have "sz2 \<noteq> 0 \<longrightarrow> unat ptr2 \<notin> mapped_bytes ob"
          using last n2 res ptr1 unfolding releases_def m1 by auto
        ultimately show ?thesis
          using loop res by auto
      qed
    qed
  qed
qed

end
