(* ===== verification/Memory_Accounts.thy ===== *)
theory Memory_Accounts
  imports Memory_Regions
begin

text \<open>
  The counters of the tracker. In every state that operations on addresses the C library really
  hands out can reach, the difference of the byte counters is the number of bytes in the blocks
  and regions held, the difference of the block counters is the number of blocks, and the peaks
  are the largest values these differences had.
\<close>

section \<open>The invariant\<close>

definition heap_total :: "(addr, allocation) umap \<Rightarrow> nat" where
  "heap_total bs = sum_list (map (\<lambda>e. unat (asize (snd e))) bs)"

definition in_use :: "memory \<Rightarrow> nat" where
  "in_use m = heap_total (m_blocks m) + mapped_total (m_ordered m)"

definition mem_inv :: "memory \<Rightarrow> bool" where
  "mem_inv m \<longleftrightarrow> um_invar (m_blocks m) \<and> regions_ok (m_ordered m)
     \<and> m_alloc_size m - m_free_size m = of_nat (in_use m)
     \<and> m_alloc_count m - m_free_count m = of_nat (length (m_blocks m))"

definition tracking :: "memory \<Rightarrow> bool" where
  "tracking m \<longleftrightarrow> m_track m \<and> m_locked m = 0"

lemma mem_enter_tracking: "tracking m \<Longrightarrow> mem_enter m = (True, m\<lparr>m_locked := 1\<rparr>)"
  by (simp add: mem_enter_def tracking_def)

lemma mem_enter_not_tracking: "\<not> tracking m \<Longrightarrow> mem_enter m = (False, m)"
  by (auto simp: mem_enter_def tracking_def)

lemma mem_exit_locked [simp]: "mem_exit (m\<lparr>m_locked := 1\<rparr>) = m\<lparr>m_locked := 0\<rparr>"
  by (simp add: mem_exit_def)

lemma can_track_locked [simp]:
  "can_track_alloc cs (m\<lparr>m_locked := l\<rparr>) = can_track_alloc cs m"
  "can_track_dealloc cs (m\<lparr>m_locked := l\<rparr>) = can_track_dealloc cs m"
  by (simp_all add: can_track_alloc_def can_track_dealloc_def)

lemma can_track_dealloc_regions [simp]:
  "can_track_dealloc cs (m\<lparr>m_ordered := ob, m_free_size := fs\<rparr>) = can_track_dealloc cs m"
  "can_track_alloc cs (m\<lparr>m_ordered := ob, m_free_size := fs\<rparr>) = can_track_alloc cs m"
  by (simp_all add: can_track_dealloc_def can_track_alloc_def)

text \<open>
  Each operation as an equation on a tracking state: the lock count is back at 0, and the guard
  is gone.
\<close>

lemma mem_track_eq: "tracking m \<Longrightarrow> mem_track cs ptr sz m =
    (if can_track_alloc cs m then
       update_peaks (m\<lparr>m_blocks := um_insert ptr \<lparr>asize = sz, acalls = cs\<rparr> (m_blocks m),
         m_alloc_size := m_alloc_size m + sz, m_alloc_count := m_alloc_count m + 1\<rparr>)
     else m)"
  by (simp add: mem_track_def mem_enter_tracking update_peaks_def mem_exit_def tracking_def)

lemma mem_track_mapped_eq: "tracking m \<Longrightarrow> mem_track_mapped cs ptr sz m =
    (if can_track_alloc cs m then
       update_peaks (m\<lparr>m_ordered := om_insert (ptr + sz - 1) \<lparr>asize = sz, acalls = cs\<rparr> (m_ordered m),
         m_alloc_size := m_alloc_size m + sz\<rparr>)
     else m)"
  by (simp add: mem_track_mapped_def mem_enter_tracking update_peaks_def mem_exit_def tracking_def)

definition fatal_outcome :: "call_stack \<Rightarrow> addr \<Rightarrow> memory \<Rightarrow> mem_outcome" where
  "fatal_outcome cs ptr m = (if can_track_dealloc cs m then No_valid_block ptr else Mem_done)"

lemma mem_retrack_eq: "tracking m \<Longrightarrow> mem_retrack cs old_ptr new_ptr new_size m =
    (case um_find old_ptr (m_blocks m) of
       None \<Rightarrow> (fatal_outcome cs old_ptr m, m)
     | Some al \<Rightarrow> (Mem_done,
         update_peaks (m\<lparr>m_blocks := um_insert new_ptr (al\<lparr>asize := new_size\<rparr>) (um_erase old_ptr (m_blocks m)),
           m_alloc_size := m_alloc_size m + (new_size - asize al)\<rparr>)))"
  by (simp add: mem_retrack_def mem_enter_tracking update_peaks_def mem_exit_def tracking_def
      fatal_unless_excepted_def fatal_outcome_def split: option.split)

lemma mem_remove_eq: "tracking m \<Longrightarrow> mem_remove cs ptr m =
    (case um_find ptr (m_blocks m) of
       None \<Rightarrow> (fatal_outcome cs ptr m, m)
     | Some al \<Rightarrow> (Mem_done, m\<lparr>m_free_size := m_free_size m + asize al,
         m_free_count := m_free_count m + 1, m_blocks := um_erase ptr (m_blocks m)\<rparr>))"
  by (simp add: mem_remove_def mem_enter_tracking mem_exit_def tracking_def
      fatal_unless_excepted_def fatal_outcome_def split: option.split)

lemma mem_remove_mapped_eq:
  assumes "tracking m" and "release_loop (ptr, sz, m_ordered m, m_free_size m) = (ptr', sz', ob, fs)"
  shows "mem_remove_mapped cs ptr sz m =
    (if sz' > 0 then fatal_outcome cs ptr' m else Mem_done, m\<lparr>m_ordered := ob, m_free_size := fs\<rparr>)"
  using assms
  by (simp add: mem_remove_mapped_def mem_enter_tracking mem_exit_def tracking_def
      fatal_unless_excepted_def fatal_outcome_def can_track_dealloc_def Let_def)

lemma mem_retrack_mapped_eq:
  assumes "tracking m"
    and "release_loop (old_ptr, old_size, m_ordered m, m_free_size m) = (ptr', sz', ob, fs)"
  shows "mem_retrack_mapped cs old_ptr old_size new_ptr new_size m =
    (let m' = m\<lparr>m_ordered := ob, m_free_size := fs\<rparr>
     in if sz' > 0 then (fatal_outcome cs ptr' m, m')
        else (Mem_done,
          if can_track_alloc cs m then
            update_peaks (m'\<lparr>m_ordered := om_insert (new_ptr + new_size - 1) \<lparr>asize = new_size, acalls = cs\<rparr> ob,
              m_alloc_size := m_alloc_size m + new_size\<rparr>)
          else m'))"
  using assms
  by (simp add: mem_retrack_mapped_def mem_enter_tracking mem_exit_def tracking_def update_peaks_def
      fatal_unless_excepted_def fatal_outcome_def can_track_dealloc_def can_track_alloc_def Let_def)

text \<open>An operation on a state that is not tracking, or in a locked section, changes nothing.\<close>

lemmas not_tracking_ops = mem_track_def mem_track_mapped_def mem_retrack_def mem_remove_def
  mem_remove_mapped_def mem_retrack_mapped_def

lemma not_tracking_unchanged:
  assumes "\<not> tracking m"
  shows "mem_track cs ptr sz m = m" and "mem_track_mapped cs ptr sz m = m"
    and "mem_retrack cs ptr ptr' sz m = (Mem_done, m)" and "mem_remove cs ptr m = (Mem_done, m)"
    and "mem_remove_mapped cs ptr sz m = (Mem_done, m)"
    and "mem_retrack_mapped cs ptr sz ptr' sz' m = (Mem_done, m)"
  using assms by (simp_all add: not_tracking_ops mem_enter_not_tracking)


section \<open>Every operation keeps the accounts\<close>

datatype mem_event =
    Track call_stack addr u64
  | Track_mapped call_stack addr u64
  | Retrack call_stack addr addr u64
  | Retrack_mapped call_stack addr u64 addr u64
  | Remove call_stack addr
  | Remove_mapped call_stack addr u64

fun mem_apply :: "mem_event \<Rightarrow> memory \<Rightarrow> memory" where
  "mem_apply (Track cs p sz) m = mem_track cs p sz m"
| "mem_apply (Track_mapped cs p sz) m = mem_track_mapped cs p sz m"
| "mem_apply (Retrack cs p q sz) m = snd (mem_retrack cs p q sz m)"
| "mem_apply (Retrack_mapped cs p psz q qsz) m = snd (mem_retrack_mapped cs p psz q qsz m)"
| "mem_apply (Remove cs p) m = snd (mem_remove cs p m)"
| "mem_apply (Remove_mapped cs p sz) m = snd (mem_remove_mapped cs p sz m)"

text \<open>
  What the C library guarantees of the addresses it returns, seen from the tracker: a new block
  is not one that is still held, a new region is non-empty, inside the address space, and
  disjoint from the regions still held.
\<close>

definition range_bytes :: "addr \<Rightarrow> u64 \<Rightarrow> nat set" where
  "range_bytes p sz = {unat p ..< unat p + unat sz}"

definition range_ok :: "addr \<Rightarrow> u64 \<Rightarrow> bool" where
  "range_ok p sz \<longleftrightarrow> unat p + unat sz \<le> 2 ^ 64"

fun event_ok :: "mem_event \<Rightarrow> memory \<Rightarrow> bool" where
  "event_ok (Track cs p sz) m \<longleftrightarrow> um_find p (m_blocks m) = None"
| "event_ok (Track_mapped cs p sz) m \<longleftrightarrow>
     sz \<noteq> 0 \<and> range_ok p sz \<and> range_bytes p sz \<inter> mapped_bytes (m_ordered m) = {}"
| "event_ok (Retrack cs p q sz) m \<longleftrightarrow> q = p \<or> um_find q (m_blocks m) = None"
| "event_ok (Retrack_mapped cs p psz q qsz) m \<longleftrightarrow>
     range_ok p psz \<and> qsz \<noteq> 0 \<and> range_ok q qsz
     \<and> range_bytes q qsz \<inter> (mapped_bytes (m_ordered m) - range_bytes p psz) = {}"
| "event_ok (Remove cs p) m \<longleftrightarrow> True"
| "event_ok (Remove_mapped cs p sz) m \<longleftrightarrow> range_ok p sz"

lemma heap_insert: "um_invar bs \<Longrightarrow> um_find p bs = None \<Longrightarrow>
    heap_total (um_insert p al bs) = unat (asize al) + heap_total bs"
  unfolding heap_total_def by (subst um.weight_insert) simp_all

lemma heap_erase: "um_invar bs \<Longrightarrow> um_find p bs = Some al \<Longrightarrow>
    heap_total bs = unat (asize al) + heap_total (um_erase p bs)"
  unfolding heap_total_def by (subst um.weight_erase) simp_all

lemma update_peaks_fields [simp, state_simps]:
  "m_blocks (update_peaks m) = m_blocks m" "m_ordered (update_peaks m) = m_ordered m"
  "m_alloc_size (update_peaks m) = m_alloc_size m" "m_free_size (update_peaks m) = m_free_size m"
  "m_alloc_count (update_peaks m) = m_alloc_count m" "m_free_count (update_peaks m) = m_free_count m"
  "m_track (update_peaks m) = m_track m" "m_locked (update_peaks m) = m_locked m"
  by (simp_all add: update_peaks_def)

lemma mem_inv_update_peaks [simp]: "mem_inv (update_peaks m) = mem_inv m"
  by (simp add: mem_inv_def in_use_def)

lemma in_use_update_peaks [simp]: "in_use (update_peaks m) = in_use m"
  by (simp add: in_use_def)

lemma mem_inv_track:
  assumes "mem_inv m" and "event_ok (Track cs p sz) m" and "tracking m"
  shows "mem_inv (mem_track cs p sz m)"
  using assms
  by (simp add: mem_track_eq mem_inv_def in_use_def um.invar_insert um.length_insert heap_insert algebra_simps)

lemma mem_inv_track_mapped:
  assumes "mem_inv m" and "event_ok (Track_mapped cs p sz) m" and "tracking m"
  shows "mem_inv (mem_track_mapped cs p sz m)"
proof -
  let ?al = "\<lparr>asize = sz, acalls = cs\<rparr>"
  have "regions_ok (m_ordered m)" "asize ?al \<noteq> 0" "unat p + unat (asize ?al) \<le> 2 ^ 64"
    "{unat p ..< unat p + unat (asize ?al)} \<inter> mapped_bytes (m_ordered m) = {}"
    using assms by (simp_all add: mem_inv_def range_ok_def range_bytes_def)
  note ins = regions_insert_start [OF this, simplified]
  show ?thesis
    using assms ins by (simp add: mem_track_mapped_eq mem_inv_def in_use_def algebra_simps)
qed

lemma mem_inv_retrack:
  assumes inv: "mem_inv m" and ok: "event_ok (Retrack cs p q sz) m" and "tracking m"
  shows "mem_inv (snd (mem_retrack cs p q sz m))"
proof (cases "um_find p (m_blocks m)")
  case None
  then show ?thesis using assms by (simp add: mem_retrack_eq)
next
  case (Some al)
  have bs: "um_invar (m_blocks m)"
    using inv by (simp add: mem_inv_def)
  have bs': "um_invar (um_erase p (m_blocks m))"
    using bs by (rule um.invar_erase)
  have fresh: "um_find q (um_erase p (m_blocks m)) = None"
    using ok by (auto simp: um.lookup_erase [OF bs])
  show ?thesis
    using assms Some bs' fresh heap_erase [OF bs Some] um.length_erase [OF bs Some]
    by (simp add: mem_retrack_eq mem_inv_def in_use_def um.invar_insert um.length_insert heap_insert algebra_simps)
qed

lemma mem_inv_remove:
  assumes inv: "mem_inv m" and "tracking m"
  shows "mem_inv (snd (mem_remove cs p m))"
proof (cases "um_find p (m_blocks m)")
  case None
  then show ?thesis using assms by (simp add: mem_remove_eq)
next
  case (Some al)
  have bs: "um_invar (m_blocks m)"
    using inv by (simp add: mem_inv_def)
  show ?thesis
    using assms Some heap_erase [OF bs Some] um.length_erase [OF bs Some] um.invar_erase [OF bs]
    by (simp add: mem_remove_eq mem_inv_def in_use_def algebra_simps)
qed

text \<open>The state after the release loop of \<^verbatim>\<open>remove_mapped\<close> and \<^verbatim>\<open>retrack_mapped\<close>.\<close>

lemma mem_inv_released:
  assumes inv: "mem_inv m" and range: "range_ok p sz"
    and loop: "release_loop (p, sz, m_ordered m, m_free_size m) = (p', sz', ob, fs)"
  obtains n where "n \<le> unat sz" "unat sz' = unat sz - n"
    "mapped_bytes ob = mapped_bytes (m_ordered m) - {unat p ..< unat p + n}"
    "regions_ok ob" "fs = m_free_size m + of_nat n"
    "in_use m = in_use (m\<lparr>m_ordered := ob, m_free_size := fs\<rparr>) + n"
    "mem_inv (m\<lparr>m_ordered := ob, m_free_size := fs\<rparr>)"
    "{unat p ..< unat p + n} \<subseteq> mapped_bytes (m_ordered m)"
    "sz' \<noteq> 0 \<Longrightarrow> unat p' = unat p + n" "sz' \<noteq> 0 \<Longrightarrow> unat p' \<notin> mapped_bytes (m_ordered m)"
proof -
  have "regions_ok (m_ordered m)" "unat p + unat sz \<le> 2 ^ 64"
    using inv range by (simp_all add: mem_inv_def range_ok_def)
  from release_loop_releases [OF this, of "m_free_size m"] obtain n
    where n: "releases n p sz (m_ordered m) (m_free_size m) (p', sz', ob, fs)"
      and last: "sz' \<noteq> 0 \<longrightarrow> unat p' \<notin> mapped_bytes (m_ordered m)"
    unfolding loop by auto
  have use: "in_use m = in_use (m\<lparr>m_ordered := ob, m_free_size := fs\<rparr>) + n"
    using n by (simp add: releases_def in_use_def)
  have fs: "fs = m_free_size m + of_nat n" and ok: "regions_ok ob"
    using n by (simp_all add: releases_def)
  have "m_alloc_size m - m_free_size m = of_nat (in_use m)"
    using inv by (simp add: mem_inv_def)
  then have "m_alloc_size m - fs = of_nat (in_use (m\<lparr>m_ordered := ob, m_free_size := fs\<rparr>))"
    unfolding use fs by (simp add: algebra_simps)
  then have "mem_inv (m\<lparr>m_ordered := ob, m_free_size := fs\<rparr>)"
    using inv ok by (simp add: mem_inv_def)
  then show thesis
    using that n last use unfolding releases_def by auto
qed

lemma mem_inv_remove_mapped:
  assumes "mem_inv m" and "event_ok (Remove_mapped cs p sz) m" and "tracking m"
  shows "mem_inv (snd (mem_remove_mapped cs p sz m))"
proof -
  obtain p' sz' ob fs where loop: "release_loop (p, sz, m_ordered m, m_free_size m) = (p', sz', ob, fs)"
    by (cases "release_loop (p, sz, m_ordered m, m_free_size m)")
  have "range_ok p sz"
    using assms(2) by simp
  then show ?thesis
    using mem_inv_released [OF assms(1) _ loop] by (simp add: mem_remove_mapped_eq [OF assms(3) loop]) blast
qed

lemma mem_inv_retrack_mapped:
  assumes "mem_inv m" and ok: "event_ok (Retrack_mapped cs p psz q qsz) m" and "tracking m"
  shows "mem_inv (snd (mem_retrack_mapped cs p psz q qsz m))"
proof -
  obtain p' sz' ob fs where loop: "release_loop (p, psz, m_ordered m, m_free_size m) = (p', sz', ob, fs)"
    by (cases "release_loop (p, psz, m_ordered m, m_free_size m)")
  have "range_ok p psz"
    using ok by simp
  then obtain n where n: "unat sz' = unat psz - n" "n \<le> unat psz"
      "mapped_bytes ob = mapped_bytes (m_ordered m) - {unat p ..< unat p + n}" "regions_ok ob"
      and inv': "mem_inv (m\<lparr>m_ordered := ob, m_free_size := fs\<rparr>)"
    using mem_inv_released [OF assms(1) _ loop] by metis
  show ?thesis
  proof (cases "sz' = 0")
    case False
    then show ?thesis
      using inv' by (simp add: mem_retrack_mapped_eq [OF assms(3) loop] word_gt_0)
  next
    case True
    then have "n = unat psz"
      using n(1,2) by simp
    then have disj: "range_bytes q qsz \<inter> mapped_bytes ob = {}"
      using ok n(3) by (simp add: range_bytes_def)
    let ?al = "\<lparr>asize = qsz, acalls = cs\<rparr>"
    have "asize ?al \<noteq> 0" "unat q + unat (asize ?al) \<le> 2 ^ 64"
      "{unat q ..< unat q + unat (asize ?al)} \<inter> mapped_bytes ob = {}"
      using ok disj by (simp_all add: range_ok_def range_bytes_def)
    note ins = regions_insert_start [OF n(4) this, simplified]
    show ?thesis
      using True inv' ins
      by (simp add: mem_retrack_mapped_eq [OF assms(3) loop] Let_def mem_inv_def in_use_def algebra_simps)
  qed
qed

lemma mem_apply_inv:
  assumes "mem_inv m" and "event_ok e m"
  shows "mem_inv (mem_apply e m)"
proof (cases "tracking m")
  case True
  then show ?thesis
    using assms
    by (cases e) (auto simp del: event_ok.simps intro: mem_inv_track mem_inv_track_mapped mem_inv_retrack
        mem_inv_retrack_mapped mem_inv_remove mem_inv_remove_mapped)
next
  case False
  then show ?thesis
    using assms by (cases e) (simp_all add: not_tracking_unchanged)
qed


section \<open>Peaks\<close>

text \<open>
  An event either ends in \<open>update_peaks\<close> on a state with the old peaks, or keeps the peaks and
  does not raise what is in use.
\<close>

lemma mem_apply_growth:
  assumes inv: "mem_inv m" and ok: "event_ok e m"
  obtains (grown) m1 where "mem_apply e m = update_peaks m1"
      "m_max_alloc m1 = m_max_alloc m" "m_max_count m1 = m_max_count m"
  | (not_grown) "m_max_alloc (mem_apply e m) = m_max_alloc m" "m_max_count (mem_apply e m) = m_max_count m"
      "in_use (mem_apply e m) \<le> in_use m" "length (m_blocks (mem_apply e m)) \<le> length (m_blocks m)"
proof (cases "tracking m")
  case False
  then have "mem_apply e m = m"
    by (cases e) (simp_all add: not_tracking_unchanged)
  then show ?thesis
    using not_grown by simp
next
  case tr: True
  have bs: "um_invar (m_blocks m)"
    using inv by (simp add: mem_inv_def)
  show ?thesis
  proof (cases e)
    case (Track cs p sz)
    then show ?thesis
      using tr not_grown by (cases "can_track_alloc cs m") (auto simp: mem_track_eq intro!: grown)
  next
    case (Track_mapped cs p sz)
    then show ?thesis
      using tr not_grown by (cases "can_track_alloc cs m") (auto simp: mem_track_mapped_eq intro!: grown)
  next
    case (Retrack cs p q sz)
    then show ?thesis
      using tr not_grown by (cases "um_find p (m_blocks m)") (auto simp: mem_retrack_eq intro!: grown)
  next
    case (Remove cs p)
    then show ?thesis
      using tr not_grown heap_erase [OF bs] um.length_erase [OF bs]
      by (cases "um_find p (m_blocks m)") (simp_all add: mem_remove_eq in_use_def)
  next
    case (Remove_mapped cs p sz)
    obtain p' sz' ob fs where loop: "release_loop (p, sz, m_ordered m, m_free_size m) = (p', sz', ob, fs)"
      by (cases "release_loop (p, sz, m_ordered m, m_free_size m)")
    have "range_ok p sz"
      using ok Remove_mapped by simp
    then have "in_use (m\<lparr>m_ordered := ob, m_free_size := fs\<rparr>) \<le> in_use m"
      using mem_inv_released [OF inv _ loop] by (metis le_add1)
    then show ?thesis
      using Remove_mapped by (intro not_grown) (simp_all add: mem_remove_mapped_eq [OF tr loop])
  next
    case (Retrack_mapped cs p psz q qsz)
    obtain p' sz' ob fs where loop: "release_loop (p, psz, m_ordered m, m_free_size m) = (p', sz', ob, fs)"
      by (cases "release_loop (p, psz, m_ordered m, m_free_size m)")
    have "range_ok p psz"
      using ok Retrack_mapped by simp
    then have "in_use (m\<lparr>m_ordered := ob, m_free_size := fs\<rparr>) \<le> in_use m"
      using mem_inv_released [OF inv _ loop] by (metis le_add1)
    moreover have "mem_apply e m = m\<lparr>m_ordered := ob, m_free_size := fs\<rparr>"
      if "sz' > 0 \<or> \<not> can_track_alloc cs m"
      using that Retrack_mapped by (auto simp: mem_retrack_mapped_eq [OF tr loop] Let_def)
    ultimately have keep: thesis if "sz' > 0 \<or> \<not> can_track_alloc cs m"
      using that not_grown by simp
    show ?thesis
    proof (cases "sz' > 0 \<or> \<not> can_track_alloc cs m")
      case False
      then have "mem_apply e m = update_peaks (m\<lparr>m_free_size := fs,
          m_ordered := om_insert (q + qsz - 1) \<lparr>asize = qsz, acalls = cs\<rparr> ob,
          m_alloc_size := m_alloc_size m + qsz\<rparr>)"
        using Retrack_mapped by (simp add: mem_retrack_mapped_eq [OF tr loop] Let_def)
      then show ?thesis
        by (rule grown) simp_all
    qed (rule keep)
  qed
qed

lemma unat_diff_in_use: "mem_inv m \<Longrightarrow> in_use m < 2 ^ 64 \<Longrightarrow> unat (m_alloc_size m - m_free_size m) = in_use m"
  by (simp add: mem_inv_def unsigned_of_nat take_bit_nat_eq_self)

lemma unat_diff_count: "mem_inv m \<Longrightarrow> length (m_blocks m) < 2 ^ 64 \<Longrightarrow>
    unat (m_alloc_count m - m_free_count m) = length (m_blocks m)"
  by (simp add: mem_inv_def unsigned_of_nat take_bit_nat_eq_self)

lemma unat_max: "unat (max a (b :: 'a::len word)) = max (unat a) (unat b)"
  by (simp add: max_def word_le_unat)

text \<open>
  A run of the tracker from a state with nothing recorded, with the largest number of bytes and
  of blocks held in the states it went through. Both must fit the counters' 64 bits.
\<close>

definition mem_start :: "memory \<Rightarrow> bool" where
  "mem_start m \<longleftrightarrow> m_blocks m = [] \<and> m_ordered m = []
     \<and> m_alloc_size m = m_free_size m \<and> m_alloc_count m = m_free_count m
     \<and> m_max_alloc m = 0 \<and> m_max_count m = 0"

inductive tracked_run :: "nat \<Rightarrow> nat \<Rightarrow> memory \<Rightarrow> bool" where
  run_start: "mem_start m \<Longrightarrow> tracked_run 0 0 m"
| run_event: "tracked_run pb pc m \<Longrightarrow> event_ok e m \<Longrightarrow>
    in_use (mem_apply e m) < 2 ^ 64 \<Longrightarrow> length (m_blocks (mem_apply e m)) < 2 ^ 64 \<Longrightarrow>
    tracked_run (max pb (in_use (mem_apply e m))) (max pc (length (m_blocks (mem_apply e m)))) (mem_apply e m)"

lemma mem_start_inv: "mem_start m \<Longrightarrow> mem_inv m \<and> in_use m = 0"
  by (simp add: mem_start_def mem_inv_def um_invar_def regions_ok_def om_invar_def in_use_def
      heap_total_def mapped_total_def)

lemma tracked_run_peaks:
  "tracked_run pb pc m \<Longrightarrow> mem_inv m \<and> unat (m_max_alloc m) = pb \<and> unat (m_max_count m) = pc
     \<and> in_use m \<le> pb \<and> length (m_blocks m) \<le> pc"
proof (induction rule: tracked_run.induct)
  case (run_start m)
  then show ?case
    using mem_start_inv [OF run_start] by (simp add: mem_start_def)
next
  case (run_event pb pc m e)
  then have inv: "mem_inv m" and inv': "mem_inv (mem_apply e m)"
    using mem_apply_inv by auto
  show ?case
    using inv run_event.hyps(2)
  proof (cases rule: mem_apply_growth)
    case (grown m1)
    have "mem_inv m1" "in_use m1 < 2 ^ 64" "length (m_blocks m1) < 2 ^ 64"
      using inv' run_event.hyps(3,4) grown(1) by simp_all
    note m1 = unat_diff_in_use [OF this(1,2)] unat_diff_count [OF this(1,3)]
    have "unat (m_max_alloc (update_peaks m1)) = max pb (in_use m1)"
      "unat (m_max_count (update_peaks m1)) = max pc (length (m_blocks m1))"
      using run_event.IH grown(2,3) by (simp_all add: update_peaks_def unat_max m1)
    then show ?thesis
      using inv' grown(1) by simp
  next
    case not_grown
    then show ?thesis
      using run_event.IH inv' by (simp add: max_absorb1)
  qed
qed

section \<open>Properties\<close>

text \<open>C1. The peaks are exact: after any run of allocations, reallocations and deallocations from
  a state with nothing recorded, \<^verbatim>\<open>_maxAllocate\<close> and \<^verbatim>\<open>_maxAllocateCount\<close> are the largest numbers
  of bytes and of blocks that were held at once, and the counter differences are what is held
  now.\<close>

theorem peaks_exact:
  assumes "tracked_run pb pc m"
  shows "unat (m_max_alloc m) = pb \<and> unat (m_max_count m) = pc
    \<and> m_alloc_size m - m_free_size m = of_nat (in_use m)
    \<and> m_alloc_count m - m_free_count m = of_nat (length (m_blocks m))"
  using tracked_run_peaks [OF assms] by (simp add: mem_inv_def)

text \<open>A tracker that is switched on, and a call stack that no exception table entry matches.\<close>

definition sample_memory :: memory where
  "sample_memory = memory_fields\<lparr>m_track := True\<rparr>"

definition sample_stack :: call_stack where
  "sample_stack = \<lparr>cs_len = 0, cs_stack = None, cs_skip = 0\<rparr>"

lemma sample_tracking: "tracking sample_memory"
  by (simp add: tracking_def sample_memory_def memory_fields_def)

lemma sample_can_track: "can_track_alloc sample_stack sample_memory" "can_track_dealloc sample_stack sample_memory"
  by (simp_all add: can_track_alloc_def can_track_dealloc_def te_matches_def frame_at_def stack_at_def
      sample_stack_def sample_memory_def memory_fields_def alloc_ex_table_def dealloc_ex_table_def tracking_ex_def)

lemma sample_start: "mem_start sample_memory"
  by (simp add: mem_start_def sample_memory_def memory_fields_def)

lemma sample_step1: "mem_apply (Track sample_stack 16 10) sample_memory =
    sample_memory\<lparr>m_blocks := [(16, \<lparr>asize = 10, acalls = sample_stack\<rparr>)],
      m_alloc_size := 10, m_alloc_count := 1, m_max_alloc := 10, m_max_count := 1\<rparr>"
  unfolding mem_apply.simps mem_track_eq [OF sample_tracking]
  by (simp only: sample_can_track if_True)
     (simp add: update_peaks_def um_insert_def um_find_def sample_memory_def memory_fields_def)

theorem peaks_exact_witness:
  "tracked_run 10 1 (mem_apply (Track sample_stack 16 10) sample_memory)
   \<and> unat (m_max_alloc (mem_apply (Track sample_stack 16 10) sample_memory)) = 10"
proof -
  have "tracked_run (max 0 10) (max 0 1) (mem_apply (Track sample_stack 16 10) sample_memory)"
    using run_event [OF run_start [OF sample_start], of "Track sample_stack 16 10"]
    unfolding sample_step1
    by (simp add: in_use_def heap_total_def mapped_total_def sample_memory_def memory_fields_def um_find_def)
  then have run: "tracked_run 10 1 (mem_apply (Track sample_stack 16 10) sample_memory)"
    by simp
  then show ?thesis
    using peaks_exact [OF run] by blast
qed

end
