(* ===== verification/Memory_Props.thy ===== *)
theory Memory_Props
  imports Memory_Accounts
begin

text \<open>
  What the tracker promises its callers, operation by operation, over the abstraction to sets of
  mapped bytes.
\<close>

section \<open>A sample state\<close>

text \<open>One region of 12 bytes at 16 and one heap block of 5 bytes at 64.\<close>

definition sample_mapped :: memory where
  "sample_mapped = sample_memory\<lparr>m_ordered := [(27, \<lparr>asize = 12, acalls = sample_stack\<rparr>)],
     m_blocks := [(64, \<lparr>asize = 5, acalls = sample_stack\<rparr>)], m_alloc_size := 17, m_alloc_count := 1\<rparr>"

lemma sample_mapped_ok: "mem_inv sample_mapped" "tracking sample_mapped"
  "can_track_alloc sample_stack sample_mapped" "can_track_dealloc sample_stack sample_mapped"
  "mapped_bytes (m_ordered sample_mapped) = {16 ..< 28}"
proof -
  show "mem_inv sample_mapped"
    by (simp add: mem_inv_def sample_mapped_def sample_memory_def memory_fields_def um_invar_def
        regions_ok_def om_invar_def region_ok_def in_use_def heap_total_def mapped_total_def)
  show "tracking sample_mapped"
    using sample_tracking by (simp add: tracking_def sample_mapped_def)
  show "can_track_alloc sample_stack sample_mapped" "can_track_dealloc sample_stack sample_mapped"
    using sample_can_track by (simp_all add: can_track_alloc_def can_track_dealloc_def sample_mapped_def)
  show "mapped_bytes (m_ordered sample_mapped) = {16 ..< 28}"
    by (simp add: mapped_bytes_def region_bytes_def sample_mapped_def)
qed

section \<open>Unmapping\<close>

lemma release_all:
  assumes inv: "mem_inv m" and range: "range_ok p sz" and sub: "range_bytes p sz \<subseteq> mapped_bytes (m_ordered m)"
  obtains p' ob where "release_loop (p, sz, m_ordered m, m_free_size m) = (p', 0, ob, m_free_size m + sz)"
    and "regions_ok ob" and "mapped_bytes ob = mapped_bytes (m_ordered m) - range_bytes p sz"
proof -
  obtain p' sz' ob fs where loop: "release_loop (p, sz, m_ordered m, m_free_size m) = (p', sz', ob, fs)"
    by (cases "release_loop (p, sz, m_ordered m, m_free_size m)")
  obtain n where n: "n \<le> unat sz" "unat sz' = unat sz - n" "regions_ok ob"
      "mapped_bytes ob = mapped_bytes (m_ordered m) - {unat p ..< unat p + n}"
      "fs = m_free_size m + of_nat n"
      "sz' \<noteq> 0 \<Longrightarrow> unat p' = unat p + n" "sz' \<noteq> 0 \<Longrightarrow> unat p' \<notin> mapped_bytes (m_ordered m)"
    using mem_inv_released [OF inv range loop] by metis
  have "sz' = 0"
  proof (rule ccontr)
    assume nz: "sz' \<noteq> 0"
    then have "n < unat sz"
      using n(1,2) unat_pos_iff [of sz'] by simp
    then have "unat p' \<in> range_bytes p sz"
      using n(6) [OF nz] by (simp add: range_bytes_def)
    then show False
      using sub n(7) [OF nz] by blast
  qed
  then have "n = unat sz"
    using n(1,2) by simp
  then show thesis
    using that [of p' ob] loop n(3,4,5) \<open>sz' = 0\<close> by (simp add: range_bytes_def)
qed

lemma release_until:
  assumes inv: "mem_inv m" and range: "range_ok p sz"
    and gap: "unat a \<in> range_bytes p sz" "unat a \<notin> mapped_bytes (m_ordered m)"
    and before: "{unat p ..< unat a} \<subseteq> mapped_bytes (m_ordered m)"
  obtains sz' ob where "release_loop (p, sz, m_ordered m, m_free_size m)
      = (a, sz', ob, m_free_size m + (a - p))" and "sz' \<noteq> 0"
    and "regions_ok ob" and "mapped_bytes ob = mapped_bytes (m_ordered m) - {unat p ..< unat a}"
proof -
  obtain p' sz' ob fs where loop: "release_loop (p, sz, m_ordered m, m_free_size m) = (p', sz', ob, fs)"
    by (cases "release_loop (p, sz, m_ordered m, m_free_size m)")
  obtain n where n: "n \<le> unat sz" "unat sz' = unat sz - n" "regions_ok ob"
      "mapped_bytes ob = mapped_bytes (m_ordered m) - {unat p ..< unat p + n}"
      "fs = m_free_size m + of_nat n" "{unat p ..< unat p + n} \<subseteq> mapped_bytes (m_ordered m)"
      "sz' \<noteq> 0 \<Longrightarrow> unat p' = unat p + n" "sz' \<noteq> 0 \<Longrightarrow> unat p' \<notin> mapped_bytes (m_ordered m)"
    using mem_inv_released [OF inv range loop] by metis
  have an: "unat p + n \<le> unat a"
    using n(6) gap by (force simp: range_bytes_def)
  then have nz: "sz' \<noteq> 0"
    using gap(1) n(2) unat_pos_iff [of sz'] by (simp add: range_bytes_def)
  then have "\<not> unat p' < unat a"
    using before n(7,8) [OF nz] by (metis atLeastLessThan_iff le_add1 subsetD)
  then have end_n: "unat p' = unat a" and "n = unat a - unat p"
    using an n(7) [OF nz] by simp_all
  moreover have "p \<le> a"
    using gap(1) by (simp add: range_bytes_def word_le_unat)
  ultimately have "of_nat n = a - p"
    by (simp add: word_nat [symmetric])
  moreover have "unat p + n = unat a"
    using end_n n(7) [OF nz] by simp
  moreover have "p' = a"
    using end_n by (simp add: word_unat_eq_iff)
  ultimately show thesis
    using that [of sz' ob] loop nz n(3,4,5) by simp
qed

text \<open>C2. Unmapping a fully mapped range succeeds, takes exactly its bytes out of the regions, adds
  its length to the freed bytes and touches nothing else, whatever regions the range crosses,
  splits or covers.\<close>

theorem remove_mapped_exact:
  assumes "mem_inv m" and "tracking m" and "range_ok p sz"
    and "range_bytes p sz \<subseteq> mapped_bytes (m_ordered m)"
  shows "\<exists>ob. mem_remove_mapped cs p sz m
        = (Mem_done, m\<lparr>m_ordered := ob, m_free_size := m_free_size m + sz\<rparr>)
      \<and> regions_ok ob \<and> mapped_bytes ob = mapped_bytes (m_ordered m) - range_bytes p sz"
proof -
  obtain p' ob where "release_loop (p, sz, m_ordered m, m_free_size m) = (p', 0, ob, m_free_size m + sz)"
      "regions_ok ob" "mapped_bytes ob = mapped_bytes (m_ordered m) - range_bytes p sz"
    using release_all [OF assms(1,3,4)] .
  then show ?thesis
    by (auto simp: mem_remove_mapped_eq [OF assms(2)])
qed

theorem remove_mapped_exact_witness:
  "\<exists>ob. mem_remove_mapped sample_stack 20 4 sample_mapped
        = (Mem_done, sample_mapped\<lparr>m_ordered := ob, m_free_size := m_free_size sample_mapped + 4\<rparr>)
      \<and> regions_ok ob \<and> mapped_bytes ob = mapped_bytes (m_ordered sample_mapped) - range_bytes 20 4"
  by (rule remove_mapped_exact) (simp_all add: sample_mapped_ok range_ok_def range_bytes_def)

text \<open>Unmapping a range with a gap reports the address of the first byte that is not mapped
  (unless the caller is in the table of exceptions), after having released the bytes before it.\<close>

theorem remove_mapped_gap:
  assumes "mem_inv m" and "tracking m" and "range_ok p sz"
    and "unat a \<in> range_bytes p sz" and "unat a \<notin> mapped_bytes (m_ordered m)"
    and "{unat p ..< unat a} \<subseteq> mapped_bytes (m_ordered m)"
  shows "\<exists>ob. mem_remove_mapped cs p sz m
        = (if can_track_dealloc cs m then No_valid_block a else Mem_done,
           m\<lparr>m_ordered := ob, m_free_size := m_free_size m + (a - p)\<rparr>)
      \<and> regions_ok ob \<and> mapped_bytes ob = mapped_bytes (m_ordered m) - {unat p ..< unat a}"
proof -
  obtain sz' ob where "release_loop (p, sz, m_ordered m, m_free_size m)
      = (a, sz', ob, m_free_size m + (a - p))" "sz' \<noteq> 0" "regions_ok ob"
      "mapped_bytes ob = mapped_bytes (m_ordered m) - {unat p ..< unat a}"
    using release_until [OF assms(1,3-6)] .
  then show ?thesis
    by (auto simp: mem_remove_mapped_eq [OF assms(2)] fatal_outcome_def word_gt_0)
qed

theorem remove_mapped_gap_witness:
  "\<exists>ob. mem_remove_mapped sample_stack 20 16 sample_mapped
        = (if can_track_dealloc sample_stack sample_mapped then No_valid_block 28 else Mem_done,
           sample_mapped\<lparr>m_ordered := ob, m_free_size := m_free_size sample_mapped + (28 - 20)\<rparr>)
      \<and> regions_ok ob \<and> mapped_bytes ob
        = mapped_bytes (m_ordered sample_mapped) - {unat (20 :: addr) ..< unat (28 :: addr)}"
  by (rule remove_mapped_gap) (simp_all add: sample_mapped_ok range_ok_def range_bytes_def)

text \<open>Remapping moves the mapped bytes: the old range is released and the new region is held,
  the counters grow by both lengths, and the accounts stay right.\<close>

theorem retrack_mapped_exact:
  assumes "mem_inv m" and "tracking m" and "can_track_alloc cs m"
    and "event_ok (Retrack_mapped cs p psz q qsz) m"
    and "range_bytes p psz \<subseteq> mapped_bytes (m_ordered m)"
  shows "\<exists>m'. mem_retrack_mapped cs p psz q qsz m = (Mem_done, m')
      \<and> mapped_bytes (m_ordered m') = (mapped_bytes (m_ordered m) - range_bytes p psz) \<union> range_bytes q qsz
      \<and> m_alloc_size m' = m_alloc_size m + qsz \<and> m_free_size m' = m_free_size m + psz
      \<and> m_blocks m' = m_blocks m \<and> mem_inv m'"
proof -
  have range: "range_ok p psz" "qsz \<noteq> 0" "range_ok q qsz"
    "range_bytes q qsz \<inter> (mapped_bytes (m_ordered m) - range_bytes p psz) = {}"
    using assms(4) by simp_all
  obtain p' ob where loop: "release_loop (p, psz, m_ordered m, m_free_size m) = (p', 0, ob, m_free_size m + psz)"
    and ok: "regions_ok ob" and bytes: "mapped_bytes ob = mapped_bytes (m_ordered m) - range_bytes p psz"
    using release_all [OF assms(1) range(1) assms(5)] .
  let ?al = "\<lparr>asize = qsz, acalls = cs\<rparr>"
  have "asize ?al \<noteq> 0" "unat q + unat (asize ?al) \<le> 2 ^ 64"
    "{unat q ..< unat q + unat (asize ?al)} \<inter> mapped_bytes ob = {}"
    using range by (simp_all add: range_ok_def range_bytes_def bytes)
  note ins = regions_insert_start [OF ok this, simplified]
  have "mem_inv (snd (mem_retrack_mapped cs p psz q qsz m))"
    using assms by (intro mem_inv_retrack_mapped)
  then show ?thesis
    using ins(2) bytes assms(3)
    by (auto simp: mem_retrack_mapped_eq [OF assms(2) loop] Let_def range_bytes_def)
qed

theorem retrack_mapped_exact_witness:
  "\<exists>m'. mem_retrack_mapped sample_stack 24 4 128 8 sample_mapped = (Mem_done, m')
      \<and> mapped_bytes (m_ordered m')
        = (mapped_bytes (m_ordered sample_mapped) - range_bytes 24 4) \<union> range_bytes 128 8
      \<and> m_alloc_size m' = m_alloc_size sample_mapped + 8 \<and> m_free_size m' = m_free_size sample_mapped + 4
      \<and> m_blocks m' = m_blocks sample_mapped \<and> mem_inv m'"
  by (rule retrack_mapped_exact) (auto simp: sample_mapped_ok range_ok_def range_bytes_def)

section \<open>Heap blocks\<close>

text \<open>Freeing a block that is held removes that block only and counts its bytes; freeing any
  other address changes nothing and is the fatal error of the sandbox, unless the caller is in
  the table of exceptions.\<close>

theorem remove_outcome:
  assumes "mem_inv m" and "tracking m"
  shows "mem_remove cs p m =
    (case um_find p (m_blocks m) of
       Some al \<Rightarrow> (Mem_done, m\<lparr>m_free_size := m_free_size m + asize al,
                     m_free_count := m_free_count m + 1, m_blocks := um_erase p (m_blocks m)\<rparr>)
     | None \<Rightarrow> (if can_track_dealloc cs m then No_valid_block p else Mem_done, m))
    \<and> um_find q (m_blocks (snd (mem_remove cs p m))) = (if q = p then None else um_find q (m_blocks m))"
proof -
  have "um_invar (m_blocks m)"
    using assms(1) by (simp add: mem_inv_def)
  then show ?thesis
    by (auto simp: mem_remove_eq [OF assms(2)] fatal_outcome_def um.lookup_erase split: option.split)
qed

theorem remove_outcome_witness:
  "mem_remove sample_stack 64 sample_mapped =
    (case um_find 64 (m_blocks sample_mapped) of
       Some al \<Rightarrow> (Mem_done, sample_mapped\<lparr>m_free_size := m_free_size sample_mapped + asize al,
                     m_free_count := m_free_count sample_mapped + 1,
                     m_blocks := um_erase 64 (m_blocks sample_mapped)\<rparr>)
     | None \<Rightarrow> (if can_track_dealloc sample_stack sample_mapped then No_valid_block 64 else Mem_done,
               sample_mapped))
    \<and> um_find 64 (m_blocks (snd (mem_remove sample_stack 64 sample_mapped)))
      = (if (64 :: addr) = 64 then None else um_find 64 (m_blocks sample_mapped))"
  by (rule remove_outcome) (simp_all add: sample_mapped_ok)

lemma clear_counts:
  "fold (\<lambda>(b, al) m. m\<lparr>m_free_size := m_free_size m + asize al, m_free_count := m_free_count m + 1\<rparr>) bs m
   = m\<lparr>m_free_size := m_free_size m + of_nat (heap_total bs), m_free_count := m_free_count m + of_nat (length bs)\<rparr>"
  by (induction bs arbitrary: m) (auto simp: heap_total_def algebra_simps)

lemma clear_sizes:
  "fold (\<lambda>(b, al) m. m\<lparr>m_free_size := m_free_size m + asize al\<rparr>) ob m
   = m\<lparr>m_free_size := m_free_size m + of_nat (mapped_total ob)\<rparr>"
  by (induction ob arbitrary: m) (auto simp: mapped_total_def algebra_simps)

lemma mem_clear_state: "snd (mem_clear m) =
    mem_exit ((snd (mem_enter m))\<lparr>m_blocks := [], m_ordered := [],
      m_free_size := m_free_size m + of_nat (in_use m),
      m_free_count := m_free_count m + of_nat (length (m_blocks m))\<rparr>)"
  by (rule memory.equality)
     (simp_all add: mem_clear_def clear_counts clear_sizes Let_def mem_enter_def mem_exit_def in_use_def add.assoc)

text \<open>Clearing a tracker hands each held block to \<^verbatim>\<open>free\<close> and each held region, from its first
  byte, to \<^verbatim>\<open>munmap\<close>, and leaves nothing held: the byte counters and the block counters agree.\<close>

theorem clear_releases_all:
  assumes "mem_inv m" and "tracking m"
  shows "\<exists>m'. mem_clear m =
      (map (\<lambda>(b, al). Libc_free b) (m_blocks m)
       @ map (\<lambda>(b, al). Libc_munmap (b - asize al + 1) (asize al)) (m_ordered m), m')
    \<and> m_blocks m' = [] \<and> m_ordered m' = [] \<and> m_alloc_size m' = m_free_size m'
    \<and> m_alloc_count m' = m_free_count m' \<and> m_locked m' = m_locked m"
proof -
  have "m_alloc_size m = m_free_size m + of_nat (in_use m)"
    "m_alloc_count m = m_free_count m + of_nat (length (m_blocks m))"
    using assms(1) by (simp_all add: mem_inv_def algebra_simps)
  moreover have "fst (mem_clear m) = map (\<lambda>(b, al). Libc_free b) (m_blocks m)
      @ map (\<lambda>(b, al). Libc_munmap (b - asize al + 1) (asize al)) (m_ordered m)"
    by (simp add: mem_clear_def mem_enter_def Let_def)
  ultimately show ?thesis
    using assms(2) mem_clear_state [of m] prod.collapse [of "mem_clear m"]
    by (intro exI [of _ "snd (mem_clear m)"])
       (simp add: mem_enter_tracking mem_exit_def tracking_def)
qed

theorem clear_releases_all_witness:
  "\<exists>m'. mem_clear sample_mapped =
      (map (\<lambda>(b, al). Libc_free b) (m_blocks sample_mapped)
       @ map (\<lambda>(b, al). Libc_munmap (b - asize al + 1) (asize al)) (m_ordered sample_mapped), m')
    \<and> m_blocks m' = [] \<and> m_ordered m' = [] \<and> m_alloc_size m' = m_free_size m'
    \<and> m_alloc_count m' = m_free_count m' \<and> m_locked m' = m_locked sample_mapped"
  by (rule clear_releases_all) (simp_all add: sample_mapped_ok)

text \<open>Reporting and clearing are the two operations that do not pair their lock count: called
  while the tracker is off they leave the thread's count one lower than it was, so at 0 it
  becomes the largest \<^verbatim>\<open>size_t\<close> and a later \<^verbatim>\<open>trackActivity(true)\<close> no longer tracks anything
  in this thread.\<close>

theorem report_unlocks_when_off:
  assumes "\<not> m_track m" and "m_locked m = 0"
  shows "m_locked (snd (mem_report sp ss m)) = size_max
    \<and> m_locked (snd (mem_clear m)) = size_max
    \<and> mem_track cs p sz (mem_track_activity True (snd (mem_report sp ss m)))
      = mem_track_activity True (snd (mem_report sp ss m))"
proof -
  have off: "\<not> tracking m"
    using assms by (simp add: tracking_def)
  have rep: "snd (mem_report sp ss m) = mem_exit m"
    by (simp add: mem_report_def mem_enter_not_tracking [OF off] Let_def)
  have clr: "m_locked (snd (mem_clear m)) = size_max"
    using assms by (simp add: mem_clear_state mem_enter_not_tracking [OF off] mem_exit_def)
  have "\<not> tracking (mem_track_activity True (mem_exit m))"
    using assms by (simp add: tracking_def mem_track_activity_def mem_exit_def)
  then show ?thesis
    using assms clr by (simp add: rep not_tracking_unchanged mem_exit_def)
qed

theorem report_unlocks_when_off_witness:
  "m_locked (snd (mem_report (\<lambda>_. []) (\<lambda>_. []) memory_fields)) = size_max
    \<and> m_locked (snd (mem_clear memory_fields)) = size_max
    \<and> mem_track sample_stack 16 8 (mem_track_activity True (snd (mem_report (\<lambda>_. []) (\<lambda>_. []) memory_fields)))
      = mem_track_activity True (snd (mem_report (\<lambda>_. []) (\<lambda>_. []) memory_fields))"
  by (rule report_unlocks_when_off) (simp_all add: memory_fields_def)

end
