(* ===== verification/Util.thy ===== *)
theory Util
  imports Prelude
begin

text \<open>
  The text helpers of \<^verbatim>\<open>include/dtest_core/util.h\<close> and \<^verbatim>\<open>src/util.cpp\<close>: indentation, JSON
  strings, and the formatting of sizes and durations. A \<^verbatim>\<open>std::string\<close> is a list of characters
  that may hold a NUL; code that walks \<^verbatim>\<open>c_str()\<close> stops at the first one.
\<close>

section \<open>Characters and numbers as text\<close>

abbreviation NL :: char where "NL \<equiv> CHR 0x0A"
abbreviation NUL :: char where "NUL \<equiv> CHR 0x00"
abbreviation DQ :: char where "DQ \<equiv> CHR 0x22"
abbreviation BSL :: char where "BSL \<equiv> CHR 0x5C"

definition c_str :: "string \<Rightarrow> string" where
  "c_str s = takeWhile (\<lambda>c. c \<noteq> NUL) s"

fun show_nat :: "nat \<Rightarrow> string" where
  "show_nat n = (if n < 10 then [char_of (48 + n)] else show_nat (n div 10) @ [char_of (48 + n mod 10)])"

declare show_nat.simps [simp del]

definition show_u64 :: "u64 \<Rightarrow> string" where
  "show_u64 w = show_nat (unat w)"

section \<open>Doubles\<close>

text \<open>
  The formatting routines divide doubles. A finite non-negative double is a fraction
  (numerator, denominator); conversion and division round to 53 significant bits, ties to even,
  and printing with a fixed precision rounds the exact value, ties to even.
\<close>

type_synonym frac = "nat \<times> nat"

fun round_even :: "frac \<Rightarrow> nat" where
  "round_even (n, d) =
    (let q = n div d; r = n mod d
     in if 2 * r < d then q else if d < 2 * r then q + 1 else if even q then q else q + 1)"

fun bit_len :: "nat \<Rightarrow> nat" where
  "bit_len n = (if n = 0 then 0 else 1 + bit_len (n div 2))"

declare bit_len.simps [simp del]

text \<open>Rounding of a value that is 0 or at least 1 (all the values formatted here are).\<close>

fun dbl :: "frac \<Rightarrow> frac" where
  "dbl (n, d) =
    (let len = bit_len (n div d)
     in if len \<le> 53 then (round_even (n * 2 ^ (53 - len), d), 2 ^ (53 - len))
        else (round_even (n, d * 2 ^ (len - 53)) * 2 ^ (len - 53), 1))"

definition dbl_of_u64 :: "u64 \<Rightarrow> frac" where
  "dbl_of_u64 w = dbl (unat w, 1)"

fun dbl_div :: "frac \<Rightarrow> nat \<Rightarrow> frac" where
  "dbl_div (n, d) k = dbl (n, d * k)"

fun dbl_less :: "frac \<Rightarrow> nat \<Rightarrow> bool" where
  "dbl_less (n, d) k = (n < k * d)"

fun show_fixed :: "nat \<Rightarrow> frac \<Rightarrow> string" where
  "show_fixed prec (n, d) =
    (let m = round_even (n * 10 ^ prec, d);
         frac = show_nat (m mod 10 ^ prec)
     in show_nat (m div 10 ^ prec) @ ''.'' @ replicate (prec - length frac) (CHR ''0'') @ frac)"

section \<open>Durations and sizes\<close>

definition formatDuration :: "frac \<Rightarrow> string" where
  "formatDuration nanos =
    (if dbl_less nanos (10 ^ 3) then show_fixed 3 nanos @ '' ns''
     else if dbl_less nanos (10 ^ 6) then show_fixed 3 (dbl_div nanos (10 ^ 3)) @ '' us''
     else if dbl_less nanos (10 ^ 9) then show_fixed 3 (dbl_div nanos (10 ^ 6)) @ '' ms''
     else show_fixed 3 (dbl_div nanos (10 ^ 9)) @ '' s'')"

definition json_duration :: "string \<Rightarrow> string \<Rightarrow> string" where
  "json_duration v u =
    ''{ '' @ [DQ] @ ''value'' @ [DQ] @ '': '' @ v @ '', '' @ [DQ] @ ''unit'' @ [DQ] @ '': ''
    @ [DQ] @ u @ [DQ] @ '' }''"

definition formatDurationJSON :: "frac \<Rightarrow> string" where
  "formatDurationJSON nanos =
    (if dbl_less nanos (10 ^ 3) then json_duration (show_fixed 3 nanos) ''ns''
     else if dbl_less nanos (10 ^ 6) then json_duration (show_fixed 3 (dbl_div nanos (10 ^ 3))) ''us''
     else if dbl_less nanos (10 ^ 9) then json_duration (show_fixed 3 (dbl_div nanos (10 ^ 6))) ''ms''
     else json_duration (show_fixed 3 (dbl_div nanos (10 ^ 9))) ''s'')"

definition KB :: nat where "KB = 1024"
definition MB :: nat where "MB = 1024 * KB"
definition GB :: nat where "GB = 1024 * MB"
definition TB :: nat where "TB = 1024 * GB"

definition formatSize :: "u64 \<Rightarrow> string" where
  "formatSize sz =
    (if unat sz < KB then show_u64 sz @ '' B''
     else if unat sz < MB then show_fixed 2 (dbl_div (dbl_of_u64 sz) KB) @ '' KB''
     else if unat sz < GB then show_fixed 2 (dbl_div (dbl_of_u64 sz) MB) @ '' MB''
     else if unat sz < TB then show_fixed 2 (dbl_div (dbl_of_u64 sz) GB) @ '' GB''
     else show_fixed 2 (dbl_div (dbl_of_u64 sz) TB) @ '' TB'')"

section \<open>Indentation\<close>

fun indent_from :: "string \<Rightarrow> string \<Rightarrow> string" where
  "indent_from ind [] = []"
| "indent_from ind (c # p) =
    c # (if c = NL \<and> p \<noteq> [] then ind else []) @ indent_from ind p"

definition indent :: "string \<Rightarrow> nat \<Rightarrow> string" where
  "indent str spaces =
    (let ind = replicate spaces (CHR '' '') in ind @ indent_from ind (c_str str))"

section \<open>JSON strings\<close>

text \<open>The \<^verbatim>\<open>switch\<close> that the three \<^verbatim>\<open>jsonify\<close> overloads share.\<close>

fun json_char :: "char \<Rightarrow> string" where
  "json_char c =
    (if c = NL then [DQ, CHR '','', NL, CHR '' '', CHR '' '', DQ]
     else if c = DQ then [BSL, c]
     else [c])"

definition jsonify :: "string \<Rightarrow> string" where
  "jsonify str =
    (if NL \<notin> set str then [DQ] @ concat (map json_char str) @ [DQ]
     else ''['' @ [NL] @ ''  '' @ [DQ] @ concat (map json_char (c_str str)) @ [DQ, NL] @ '']'')"

text \<open>The loop over the elements, \<open>i\<close> of \<open>count\<close> done; \<open>f\<close> selects the characters walked.\<close>

fun jsonify_items :: "(string \<Rightarrow> string) \<Rightarrow> string \<Rightarrow> nat \<Rightarrow> nat \<Rightarrow> string list \<Rightarrow> string" where
  "jsonify_items f ind count i [] = []"
| "jsonify_items f ind count i (x # xs) =
    ''  '' @ [DQ] @ concat (map json_char (f x))
    @ (if i < count - 1 then [DQ, CHR '','', NL] @ ind else [DQ, NL] @ ind)
    @ jsonify_items f ind count (i + 1) xs"

definition jsonify_with :: "(string \<Rightarrow> string) \<Rightarrow> string list \<Rightarrow> nat \<Rightarrow> string" where
  "jsonify_with f strs n =
    (let ind = replicate n (CHR '' ''); count = length strs
     in ''['' @ (if count > 0 then [NL] @ ind else '' '') @ jsonify_items f ind count 0 strs @ '']'')"

text \<open>\<^verbatim>\<open>jsonify(size_t, char const * const *, int)\<close> walks C strings, the template whole strings.\<close>

definition jsonify_argv :: "string list \<Rightarrow> nat \<Rightarrow> string" where
  "jsonify_argv strs n = jsonify_with c_str strs n"

definition jsonify_container :: "string list \<Rightarrow> nat \<Rightarrow> string" where
  "jsonify_container strs n = jsonify_with (\<lambda>x. x) strs n"

end
