(* ===== verification/Util_Props.thy ===== *)
theory Util_Props
  imports Util
begin

text \<open>
  The text helpers against a reader of JSON: what \<^verbatim>\<open>jsonify\<close> prints is read back as the string
  it was given, line by line, as long as the string holds no backslash and no control character
  other than the newline. A backslash is not escaped, and the reader shows what goes wrong.
\<close>

section \<open>A reader of JSON strings and arrays of strings\<close>

definition control :: "char \<Rightarrow> bool" where
  "control c \<longleftrightarrow> (of_char c :: nat) < 32"

definition plain :: "string \<Rightarrow> bool" where
  "plain s \<longleftrightarrow> (\<forall>c \<in> set s. c \<noteq> BSL \<and> \<not> control c)"

text \<open>The rest of a string literal after its opening quote, and what follows it.\<close>

fun json_lit :: "string \<Rightarrow> (string \<times> string) option" where
  "json_lit [] = None"
| "json_lit (c # cs) =
    (if c = DQ then Some ([], cs)
     else if c = BSL then
       (case cs of
          [] \<Rightarrow> None
        | e # cs' \<Rightarrow>
            if e = DQ \<or> e = BSL then map_option (\<lambda>(s, r). (e # s, r)) (json_lit cs') else None)
     else if control c then None
     else map_option (\<lambda>(s, r). (c # s, r)) (json_lit cs))"

definition skip_ws :: "string \<Rightarrow> string" where
  "skip_ws s = dropWhile (\<lambda>c. c = CHR '' '' \<or> c = NL) s"

text \<open>The elements of an array up to the closing bracket; the fuel bounds their number.\<close>

fun json_elems :: "nat \<Rightarrow> string \<Rightarrow> string list option" where
  "json_elems 0 s = None"
| "json_elems (Suc n) s =
    (case skip_ws s of
       [] \<Rightarrow> None
     | c # cs \<Rightarrow>
         if c \<noteq> DQ then None
         else (case json_lit cs of
                 None \<Rightarrow> None
               | Some (x, r) \<Rightarrow>
                   (case skip_ws r of
                      [] \<Rightarrow> None
                    | d # ds \<Rightarrow>
                        if d = CHR '','' then map_option ((#) x) (json_elems n ds)
                        else if d = CHR '']'' \<and> ds = [] then Some [x]
                        else None)))"

definition json_array :: "string \<Rightarrow> string list option" where
  "json_array s =
    (case s of
       [] \<Rightarrow> None
     | c # cs \<Rightarrow>
         if c \<noteq> CHR ''['' then None
         else if skip_ws cs = '']'' then Some []
         else json_elems (length cs) cs)"

fun split_lines :: "string \<Rightarrow> string list" where
  "split_lines [] = [[]]"
| "split_lines (c # cs) =
    (if c = NL then [] # split_lines cs
     else (case split_lines cs of [] \<Rightarrow> [[c]] | l # ls \<Rightarrow> (c # l) # ls))"

section \<open>Reading what was printed\<close>

declare json_elems.simps [simp del]

lemma control_NL [simp]: "control NL"
  by (simp add: control_def)

lemma plain_Nil [simp]: "plain []"
  by (simp add: plain_def)

lemma plain_Cons [simp]: "plain (c # s) \<longleftrightarrow> c \<noteq> BSL \<and> \<not> control c \<and> plain s"
  by (auto simp: plain_def)

lemma plain_no_NL: "plain s \<Longrightarrow> NL \<notin> set s"
  unfolding plain_def by (metis control_NL)

lemma plainI: "NL \<notin> set s \<Longrightarrow> \<forall>c \<in> set s. c = NL \<or> c \<noteq> BSL \<and> \<not> control c \<Longrightarrow> plain s"
  unfolding plain_def by metis

lemma plain_no_NUL: "\<forall>c \<in> set s. c = NL \<or> c \<noteq> BSL \<and> \<not> control c \<Longrightarrow> NUL \<notin> set s"
  by (force simp: control_def)

lemma json_char_plain [simp]: "\<not> control c \<Longrightarrow> json_char c = (if c = DQ then [BSL, c] else [c])"
  by auto

declare json_char.simps [simp del]

lemma json_char_NL [simp]: "json_char NL = [DQ, CHR '','', NL, CHR '' '', CHR '' '', DQ]"
  by (simp add: json_char.simps)

lemma json_lit_plain: "plain s \<Longrightarrow> json_lit (concat (map json_char s) @ DQ # r) = Some (s, r)"
  by (induction s) auto

lemma skip_ws_quote: "set w \<subseteq> {CHR '' '', NL} \<Longrightarrow> skip_ws (w @ DQ # s) = DQ # s"
  by (auto simp: skip_ws_def dropWhile_append)

lemma split_lines_not_Nil: "split_lines s \<noteq> []"
  by (induction s) (auto split: list.splits)

lemma split_lines_plain: "NL \<notin> set s \<Longrightarrow> split_lines s = [s]"
  by (induction s) auto

lemma split_lines_append: "NL \<notin> set a \<Longrightarrow> split_lines (a @ NL # b) = a # split_lines b"
  by (induction a) auto

text \<open>An element followed by a comma, and the last one.\<close>

lemma json_elems_more:
  assumes "plain x" and "set w \<subseteq> {CHR '' '', NL}"
  shows "json_elems (Suc n) (w @ DQ # concat (map json_char x) @ DQ # CHR '','' # r)
    = map_option ((#) x) (json_elems n r)"
proof -
  have "skip_ws (CHR '','' # r) = CHR '','' # r"
    by (simp add: skip_ws_def)
  then show ?thesis
    using assms by (simp add: json_elems.simps skip_ws_quote json_lit_plain)
qed

lemma json_elems_last:
  assumes "plain x" and "set w \<subseteq> {CHR '' '', NL}" and "set v \<subseteq> {CHR '' '', NL}"
  shows "json_elems (Suc n) (w @ DQ # concat (map json_char x) @ DQ # v @ '']'') = Some [x]"
proof -
  have "skip_ws (v @ '']'') = '']''"
    using assms(3) by (auto simp: skip_ws_def dropWhile_append)
  then show ?thesis
    using assms by (simp add: json_elems.simps skip_ws_quote json_lit_plain)
qed

lemma json_elems_lines:
  assumes "\<forall>c \<in> set s. c = NL \<or> c \<noteq> BSL \<and> \<not> control c" and "set w \<subseteq> {CHR '' '', NL}"
    and "length s < n"
  shows "json_elems n (w @ DQ # concat (map json_char s) @ [DQ, NL] @ '']'') = Some (split_lines s)"
  using assms
proof (induction s arbitrary: n w rule: length_induct)
  case (1 s)
  obtain m where n: "n = Suc m"
    using "1.prems"(3) by (cases n) auto
  show ?case
  proof (cases "NL \<in> set s")
    case False
    then have "plain s"
      using "1.prems"(1) by (rule plainI)
    then show ?thesis
      unfolding n split_lines_plain [OF False]
      using json_elems_last [of s w "[NL]" m] "1.prems"(2) by simp
  next
    case True
    then obtain a b where s: "s = a @ NL # b" and a: "NL \<notin> set a"
      by (meson split_list_first)
    have "plain a"
      using "1.prems"(1) a by (intro plainI) (simp_all add: s)
    then have "json_elems n (w @ DQ # concat (map json_char s) @ [DQ, NL] @ '']'')
        = map_option ((#) a) (json_elems m ([NL, CHR '' '', CHR '' ''] @ DQ # concat (map json_char b) @ [DQ, NL] @ '']''))"
      using json_elems_more [of a w m] "1.prems"(2) by (simp add: s n)
    also have "json_elems m ([NL, CHR '' '', CHR '' ''] @ DQ # concat (map json_char b) @ [DQ, NL] @ '']'')
        = Some (split_lines b)"
      using "1.prems"(1,3) by (intro "1.IH" [rule_format]) (auto simp: s n)
    finally show ?thesis
      using split_lines_append [OF a] by (simp add: s)
  qed
qed

text \<open>C39. A string without backslashes and control characters is printed as a JSON string literal
  that reads back as the string; one with newlines as well, as the JSON array of its lines.\<close>

theorem jsonify_reads_back:
  assumes "\<forall>c \<in> set s. c = NL \<or> c \<noteq> BSL \<and> \<not> control c"
  shows "if NL \<in> set s then json_array (jsonify s) = Some (split_lines s)
    else \<exists>t. jsonify s = DQ # t \<and> json_lit t = Some (s, [])"
proof (cases "NL \<in> set s")
  case False
  then have "plain s"
    using assms by (rule plainI)
  then show ?thesis
    using False json_lit_plain [of s "[]"] by (simp add: jsonify_def)
next
  case True
  have "c_str s = s"
    using plain_no_NUL [OF assms] by (auto simp: c_str_def takeWhile_eq_all_conv)
  moreover have "length s \<le> length (concat (map json_char s))"
    by (induction s) (auto simp: json_char.simps)
  then have "json_elems (length (NL # ''  '' @ DQ # concat (map json_char s) @ [DQ, NL] @ '']''))
      ([NL, CHR '' '', CHR '' ''] @ DQ # concat (map json_char s) @ [DQ, NL] @ '']'') = Some (split_lines s)"
    using assms by (intro json_elems_lines) auto
  ultimately show ?thesis
    using True by (simp add: jsonify_def json_array_def skip_ws_def)
qed

theorem jsonify_reads_back_witness:
  "if NL \<in> set (''a'' @ [DQ, NL] @ ''b'')
   then json_array (jsonify (''a'' @ [DQ, NL] @ ''b'')) = Some (split_lines (''a'' @ [DQ, NL] @ ''b''))
   else \<exists>t. jsonify (''a'' @ [DQ, NL] @ ''b'') = DQ # t \<and> json_lit t = Some (''a'' @ [DQ, NL] @ ''b'', [])"
  by (rule jsonify_reads_back) (simp add: control_def)

lemma json_elems_items:
  assumes "\<forall>x \<in> set xs. plain x" and "xs \<noteq> []" and "set ind \<subseteq> {CHR '' ''}" and "set w \<subseteq> {CHR '' '', NL}"
    and "length xs \<le> n" and "i + length xs = count"
  shows "json_elems n (w @ jsonify_items (\<lambda>x. x) ind count i xs @ '']'') = Some xs"
  using assms
proof (induction xs arbitrary: n i w)
  case (Cons x xs)
  obtain m where n: "n = Suc m"
    using Cons.prems(5) by (cases n) auto
  have w: "set (w @ ''  '') \<subseteq> {CHR '' '', NL}" and nl: "set (NL # ind) \<subseteq> {CHR '' '', NL}"
    using Cons.prems(3,4) by auto
  show ?case
  proof (cases xs)
    case Nil
    then have "\<not> i < count - 1"
      using Cons.prems(6) by simp
    then show ?thesis
      using json_elems_last [OF _ w nl, of x m] Cons.prems(1) n Nil by simp
  next
    case (Cons y ys)
    then have "i < count - 1"
      using Cons.prems(6) by simp
    then have "json_elems n (w @ jsonify_items (\<lambda>x. x) ind count i (x # xs) @ '']'')
        = map_option ((#) x) (json_elems m ((NL # ind) @ jsonify_items (\<lambda>x. x) ind count (i + 1) xs @ '']''))"
      using json_elems_more [OF _ w, of x m] Cons.prems(1) n by simp
    also have "json_elems m ((NL # ind) @ jsonify_items (\<lambda>x. x) ind count (i + 1) xs @ '']'') = Some xs"
      using Cons Cons.prems nl n by (intro Cons.IH) auto
    finally show ?thesis by simp
  qed
qed simp

lemma length_jsonify_items: "length xs \<le> length (jsonify_items f ind count i xs)"
  by (induction xs arbitrary: i) (auto simp: le_SucI trans_le_add2)

text \<open>A container of such strings (without newlines) is printed as the JSON array of its
  elements, in order, at every indentation.\<close>

theorem jsonify_container_reads_back:
  assumes "\<forall>x \<in> set xs. plain x"
  shows "json_array (jsonify_container xs n) = Some xs"
proof (cases xs)
  case Nil
  then show ?thesis
    by (simp add: jsonify_container_def jsonify_with_def json_array_def skip_ws_def)
next
  case (Cons y ys)
  let ?ind = "replicate n (CHR '' '')"
  let ?items = "jsonify_items (\<lambda>x. x) ?ind (length xs) 0 xs"
  have ws: "set (NL # ?ind) \<subseteq> {CHR '' '', NL}"
    by auto
  have "length xs \<le> length ((NL # ?ind) @ ?items @ '']'')"
    using length_jsonify_items [of xs "\<lambda>x. x" ?ind "length xs" 0] by simp
  then have elems: "json_elems (length ((NL # ?ind) @ ?items @ '']'')) ((NL # ?ind) @ ?items @ '']'') = Some xs"
    using assms Cons ws by (intro json_elems_items) auto
  obtain r where "?items @ '']'' = ''  '' @ DQ # r"
    using Cons by simp
  then have "(NL # ?ind) @ ?items @ '']'' = ((NL # ?ind) @ ''  '') @ DQ # r"
    by simp
  moreover have "set ((NL # ?ind) @ ''  '') \<subseteq> {CHR '' '', NL}"
    by auto
  ultimately have skip: "skip_ws ((NL # ?ind) @ ?items @ '']'') = DQ # r"
    by (metis skip_ws_quote)
  have "json_array (CHR ''['' # R) = Some xs" if "skip_ws R = DQ # r" "json_elems (length R) R = Some xs" for R
    using that by (simp add: json_array_def)
  note this [OF skip elems]
  moreover have "jsonify_container xs n = CHR ''['' # (NL # ?ind) @ ?items @ '']''"
    using Cons by (simp add: jsonify_container_def jsonify_with_def Let_def)
  ultimately show ?thesis
    by (simp only:)
qed

theorem jsonify_container_reads_back_witness:
  "json_array (jsonify_container [''mod-a'', ''mod'' @ [DQ] @ ''b''] 6) = Some [''mod-a'', ''mod'' @ [DQ] @ ''b'']"
  by (rule jsonify_container_reads_back) (simp add: control_def)

lemma json_lit_backslash: "plain s \<Longrightarrow> json_lit (concat (map json_char s) @ [BSL, DQ]) = None"
  by (induction s) auto

text \<open>A backslash is not escaped: a string that ends in one is printed as a string literal
  that no JSON reader can close, because its closing quote reads as an escaped quote.\<close>

theorem jsonify_backslash_unreadable:
  assumes "plain s"
  shows "\<exists>t. jsonify (s @ [BSL]) = DQ # t \<and> json_lit t = None"
  using json_lit_backslash [OF assms] plain_no_NL [OF assms]
  by (simp add: jsonify_def json_char.simps)

theorem jsonify_backslash_unreadable_witness:
  "\<exists>t. jsonify (''C:'' @ [BSL]) = DQ # t \<and> json_lit t = None"
  by (rule jsonify_backslash_unreadable) (simp add: control_def)

end
