(* ===== verification/Frand.thy ===== *)
theory Frand
  imports Util
begin

text \<open>
  The random numbers of \<^verbatim>\<open>src/random.cpp\<close>: one step of a multiplicative generator modulo
  \<open>2 ^ 31 - 1\<close> with multiplier 48271, on a 32-bit state per thread. The clock that seeds a zero
  state is the argument \<open>clock\<close>. The double returned is the fraction \<open>x / 2 ^ 31\<close>, exact since
  \<open>x\<close> has 32 bits, and at most 1.
\<close>

unbundle bit_operations_syntax

section \<open>The generator\<close>

definition frand_next :: "u32 \<Rightarrow> u32" where
  "frand_next state =
    (let product = (ucast state :: u64) * 48271
     in ucast ((product AND 0x7fffffff) + drop_bit 31 product))"

definition frand :: "u32 \<Rightarrow> u32 \<Rightarrow> frac \<times> u32" where
  "frand clock state =
    (let state = (if state = 0 then clock else state);
         x = frand_next state;
         retval = (unat x, 2 ^ 31 :: nat)
     in (if fst retval > snd retval then (1, 1) else retval, x))"

section \<open>Correctness\<close>

lemma frand_next_nat:
  "unat (frand_next s) = unat s * 48271 mod 2 ^ 31 + unat s * 48271 div 2 ^ 31"
proof -
  have s: "unat s < 2 ^ 32"
    using unsigned_less [of s] by simp
  have p: "unat ((ucast s :: u64) * 48271) = unat s * 48271"
    using s by (simp add: unat_word_ariths unsigned_ucast_eq take_bit_nat_eq_self)
  have lo: "unat (((ucast s :: u64) * 48271) AND 0x7fffffff) = unat s * 48271 mod 2 ^ 31"
  proof -
    have "(0x7fffffff :: u64) = mask 31"
      by (simp add: mask_eq_exp_minus_1)
    then have "((ucast s :: u64) * 48271) AND 0x7fffffff = take_bit 31 ((ucast s :: u64) * 48271)"
      by (simp add: take_bit_eq_mask)
    then have "unat (((ucast s :: u64) * 48271) AND 0x7fffffff) = unat (take_bit 31 ((ucast s :: u64) * 48271))"
      by (rule arg_cong)
    also have "\<dots> = take_bit 31 (unat ((ucast s :: u64) * 48271))"
      by (rule unsigned_take_bit_eq)
    finally show ?thesis
      by (simp only: p take_bit_eq_mod)
  qed
  have hi: "unat (drop_bit 31 ((ucast s :: u64) * 48271)) = unat s * 48271 div 2 ^ 31"
    unfolding unat_drop_bit_eq p by (rule drop_bit_eq_div)
  have "unat s * 48271 div 2 ^ 31 < 2 ^ 31"
    using s by (intro div_less_iff_less_mult [THEN iffD2]) simp_all
  moreover have "unat s * 48271 mod 2 ^ 31 < 2 ^ 31"
    by simp
  moreover have "(2 :: nat) ^ 32 = 2 ^ 31 + 2 ^ 31"
    by simp
  ultimately have sum: "unat s * 48271 mod 2 ^ 31 + unat s * 48271 div 2 ^ 31 < 2 ^ 32"
    by linarith
  then have "unat ((((ucast s :: u64) * 48271) AND 0x7fffffff) + drop_bit 31 ((ucast s :: u64) * 48271))
      = unat s * 48271 mod 2 ^ 31 + unat s * 48271 div 2 ^ 31"
    by (subst unat_add_nowrap) (simp_all add: lo hi)
  then show ?thesis
    using sum by (simp add: frand_next_def Let_def unsigned_ucast_eq take_bit_nat_eq_self)
qed


lemma mersenne_fold: "(n mod 2 ^ 31 + n div 2 ^ 31) mod (2 ^ 31 - 1) = n mod (2 ^ 31 - 1 :: nat)"
proof -
  have "n = n mod 2 ^ 31 + n div 2 ^ 31 + (2 ^ 31 - 1) * (n div 2 ^ 31)"
    using mod_mult_div_eq [of n "2 ^ 31"] by simp
  then show ?thesis
    by (metis mod_mult_self2)
qed

lemma frand_next_bounds:
  assumes "s \<noteq> 0"
  shows "0 < unat (frand_next s)" and "unat (frand_next s) < 2 ^ 31 + 96542"
proof -
  have s: "0 < unat s" "unat s < 2 ^ 32"
    using assms unsigned_less [of s] by (simp_all add: unat_gt_0)
  have "0 < unat s * 48271 mod 2 ^ 31 \<or> 0 < unat s * 48271 div 2 ^ 31"
    using s(1) div_mult_mod_eq [of "unat s * 48271" "2 ^ 31"] by (metis add_0 gr0I mult_0 nat_0_less_mult_iff zero_less_numeral)
  then show "0 < unat (frand_next s)"
    by (auto simp: frand_next_nat)
  have "unat s * 48271 div 2 ^ 31 < 96542"
    using s(2) by (intro div_less_iff_less_mult [THEN iffD2]) simp_all
  moreover have "unat s * 48271 mod 2 ^ 31 < 2 ^ 31"
    by simp
  ultimately show "unat (frand_next s) < 2 ^ 31 + 96542"
    unfolding frand_next_nat by linarith
qed

text \<open>The folding step is the multiplicative generator modulo the prime \<open>2 ^ 31 - 1\<close>: it
  multiplies the state by 48271, does not overflow the 32-bit state, and never reaches the state
  0 that would ask for a new seed.\<close>

theorem frand_next_is_generator:
  "unat (frand_next s) mod (2 ^ 31 - 1) = unat s * 48271 mod (2 ^ 31 - 1)
   \<and> (s \<noteq> 0 \<longrightarrow> frand_next s \<noteq> 0 \<and> unat (frand_next s) < 2 ^ 31 + 96542)"
proof -
  have "unat (frand_next s) mod (2 ^ 31 - 1) = unat s * 48271 mod (2 ^ 31 - 1)"
    unfolding frand_next_nat by (rule mersenne_fold)
  moreover have "frand_next s \<noteq> 0" if "s \<noteq> 0"
    using frand_next_bounds(1) [OF that] by (metis unat_gt_0)
  ultimately show ?thesis
    using frand_next_bounds(2) by blast
qed

theorem frand_next_is_generator_witness:
  "unat (frand_next 1) mod (2 ^ 31 - 1) = unat (1 :: u32) * 48271 mod (2 ^ 31 - 1)
   \<and> frand_next 1 \<noteq> 0 \<and> unat (frand_next 1) < 2 ^ 31 + 96542"
  using frand_next_is_generator [of 1] by simp

text \<open>The number returned lies in the half-open interval from 0 (excluded) to 1 (included),
  and the state it leaves is the generator's next state.\<close>

theorem frand_range:
  assumes "state \<noteq> 0 \<or> clock \<noteq> 0"
  shows "\<exists>n d. frand clock state = ((n, d), frand_next (if state = 0 then clock else state)) \<and> 0 < n \<and> n \<le> d"
  using assms frand_next_bounds [of "if state = 0 then clock else state"]
  by (auto simp: frand_def Let_def)

theorem frand_range_witness:
  "\<exists>n d. frand 7 0 = ((n, d), frand_next (if (0 :: u32) = 0 then 7 else 0)) \<and> 0 < n \<and> n \<le> d"
  by (rule frand_range) simp

text \<open>The two seeds that are multiples of the modulus are stuck: from them every later call
  returns the same number, \<open>1 - 2 ^ -31\<close>.\<close>

theorem frand_stuck:
  assumes "s = 2 ^ 31 - 1 \<or> s = 2 ^ 32 - 2"
  shows "(frand_next ^^ Suc k) s = 2 ^ 31 - 1 \<and> fst (frand clock ((frand_next ^^ k) s)) = (2 ^ 31 - 1, 2 ^ 31)"
proof -
  have step: "frand_next t = 2 ^ 31 - 1" if "t = 2 ^ 31 - 1 \<or> t = 2 ^ 32 - 2" for t
  proof -
    have "unat (frand_next t) = unat (2 ^ 31 - 1 :: u32)"
      using that by (auto simp: frand_next_nat)
    then show ?thesis
      by (simp add: word_unat_eq_iff)
  qed
  have state: "(frand_next ^^ j) s = 2 ^ 31 - 1 \<or> (frand_next ^^ j) s = 2 ^ 32 - 2" for j
    using assms step by (induction j) auto
  have "(frand_next ^^ Suc k) s = 2 ^ 31 - 1"
    using step [OF state [of k]] by simp
  moreover have "(frand_next ^^ k) s \<noteq> 0"
    using state [of k] by auto
  ultimately show ?thesis
    by (simp add: frand_def Let_def)
qed

theorem frand_stuck_witness:
  "(frand_next ^^ Suc 3) (2 ^ 31 - 1) = 2 ^ 31 - 1
   \<and> fst (frand 1 ((frand_next ^^ 3) (2 ^ 31 - 1))) = (2 ^ 31 - 1, 2 ^ 31)"
  by (rule frand_stuck) simp

end
