(* ===== verification/Network.thy ===== *)
theory Network
  imports Frand
begin

text \<open>
  The network tracker of \<^verbatim>\<open>include/dtest_core/network.h\<close> and \<^verbatim>\<open>src/network.cpp\<close>, with the
  hooks on the C library's send and receive functions of \<^verbatim>\<open>src/network_hooks.cpp\<close>. The state
  is one thread's view; the mutex only serialises the operations. What the operating system
  answers (socket types, clock readings, results of the real calls) is passed as arguments.
\<close>

section \<open>State and guards\<close>

record network =
  n_track :: bool
  n_send_size :: u64
  n_send_count :: u64
  n_recv_size :: u64
  n_recv_count :: u64
  n_probabilistic :: bool
  n_chance :: frac
  n_hole_duration :: u64
  n_locked :: u64
  n_hole_end :: "int option"
  n_rand :: u32

text \<open>\<^verbatim>\<open>_holeEndTime\<close> is a thread-local of \<^verbatim>\<open>canSend\<close>, unset before its first call.\<close>

definition network_init :: network where
  "network_init =
    \<lparr>n_track = False, n_send_size = 0, n_send_count = 0, n_recv_size = 0, n_recv_count = 0,
     n_probabilistic = False, n_chance = (1, 1), n_hole_duration = 0, n_locked = 0,
     n_hole_end = None, n_rand = 0\<rparr>"

definition net_enter :: "network \<Rightarrow> bool" where
  "net_enter n \<longleftrightarrow> \<not> (\<not> n_track n \<or> n_locked n \<noteq> 0)"

definition net_lock :: "network \<Rightarrow> network" where
  "net_lock n = n\<lparr>n_locked := n_locked n + 1\<rparr>"

definition net_unlock :: "network \<Rightarrow> network" where
  "net_unlock n = n\<lparr>n_locked := n_locked n - 1\<rparr>"

definition net_track_activity :: "bool \<Rightarrow> network \<Rightarrow> network" where
  "net_track_activity val n = n\<lparr>n_track := val\<rparr>"

definition drop_send_requests :: "frac \<Rightarrow> u64 \<Rightarrow> network \<Rightarrow> network" where
  "drop_send_requests chance duration n =
    n\<lparr>n_chance := chance, n_hole_duration := duration, n_probabilistic := True\<rparr>"

definition dont_drop_send_requests :: "network \<Rightarrow> network" where
  "dont_drop_send_requests n = n\<lparr>n_probabilistic := False\<rparr>"

section \<open>Tracking\<close>

definition track_send :: "u64 \<Rightarrow> network \<Rightarrow> network" where
  "track_send sz n =
    (if \<not> net_enter n then n
     else n\<lparr>n_send_size := n_send_size n + sz, n_send_count := n_send_count n + 1\<rparr>)"

definition track_recv :: "u64 \<Rightarrow> network \<Rightarrow> network" where
  "track_recv sz n =
    (if \<not> net_enter n then n
     else n\<lparr>n_recv_size := n_recv_size n + sz, n_recv_count := n_recv_count n + 1\<rparr>)"

section \<open>The faulty network\<close>

datatype sock_type = SOCK_STREAM | SOCK_DGRAM | SOCK_SEQPACKET | SOCK_RDM | SOCK_OTHER

fun frac_less :: "frac \<Rightarrow> frac \<Rightarrow> bool" where
  "frac_less (a, b) (c, d) = (a * d < c * b)"

text \<open>\<^verbatim>\<open>(uint64_t) (_holeDuration * frand())\<close>: a product of doubles, truncated.\<close>

fun dbl_mul_trunc :: "u64 \<Rightarrow> frac \<Rightarrow> nat" where
  "dbl_mul_trunc w (a, b) =
    (case dbl_of_u64 w of (n, d) \<Rightarrow> (case dbl (n * a, d * b) of (m, e) \<Rightarrow> m div e))"

text \<open>
  \<^verbatim>\<open>canSend\<close>: \<open>sock\<close> is what \<^verbatim>\<open>getsockopt\<close> reports (\<open>None\<close> for an error), \<open>t0\<close> and \<open>now\<close> the two
  clock readings, \<open>seed\<close> the clock value a zero random state takes.
\<close>

definition can_send :: "sock_type option \<Rightarrow> int \<Rightarrow> int \<Rightarrow> u32 \<Rightarrow> network \<Rightarrow> bool \<times> network" where
  "can_send sock t0 now seed n0 =
    (let hole_end = (case n_hole_end n0 of None \<Rightarrow> t0 | Some t \<Rightarrow> t);
         n = n0\<lparr>n_hole_end := Some hole_end\<rparr>
     in if sock = None \<or> sock = Some SOCK_STREAM \<or> sock = Some SOCK_SEQPACKET \<or> sock = Some SOCK_RDM
        then (True, n)
        else if \<not> n_probabilistic n \<or> \<not> net_enter n then (True, n)
        else if now > hole_end then
          (case frand seed (n_rand n) of
             (r, st) \<Rightarrow>
               if frac_less r (n_chance n) then (True, n\<lparr>n_rand := st\<rparr>)
               else
                 (case frand seed st of
                    (r2, st2) \<Rightarrow>
                      (False, n\<lparr>n_rand := st2,
                        n_hole_end := Some (now + int (dbl_mul_trunc (n_hole_duration n) r2))\<rparr>)))
        else (False, n))"

section \<open>Hooks\<close>

text \<open>
  \<^verbatim>\<open>send\<close> and \<^verbatim>\<open>sendto\<close> call the real function only when \<^verbatim>\<open>canSend\<close> allows it and otherwise
  pretend to have sent everything; \<open>real\<close> is the result the real call would give (-1 for an
  error). \<^verbatim>\<open>recv\<close> and \<^verbatim>\<open>recvfrom\<close> always call it. The first component says whether the real
  function was called.
\<close>

definition send_hook ::
  "u64 \<Rightarrow> sock_type option \<Rightarrow> int \<Rightarrow> int \<Rightarrow> u32 \<Rightarrow> u64 \<Rightarrow> network \<Rightarrow> bool \<times> u64 \<times> network" where
  "send_hook real sock t0 now seed len n =
    (case can_send sock t0 now seed n of
       (ok, n) \<Rightarrow>
         let res = (if ok then real else len)
         in (ok, res, track_send (if res = - 1 then 0 else res) n))"

definition sendto_hook ::
  "u64 \<Rightarrow> sock_type option \<Rightarrow> int \<Rightarrow> int \<Rightarrow> u32 \<Rightarrow> u64 \<Rightarrow> network \<Rightarrow> bool \<times> u64 \<times> network" where
  "sendto_hook real sock t0 now seed len n =
    (case can_send sock t0 now seed n of
       (ok, n) \<Rightarrow>
         let res = (if ok then real else len)
         in (ok, res, track_send (if res = - 1 then 0 else res) n))"

definition recv_hook :: "u64 \<Rightarrow> network \<Rightarrow> u64 \<times> network" where
  "recv_hook real n = (real, track_recv (if real = - 1 then 0 else real) n)"

definition recvfrom_hook :: "u64 \<Rightarrow> network \<Rightarrow> u64 \<times> network" where
  "recvfrom_hook real n = (real, track_recv (if real = - 1 then 0 else real) n)"

section \<open>Facts on the hooks\<close>

lemma net_enter_can_send [simp]:
  "net_enter (snd (can_send sock t0 now seed n)) = net_enter n"
  by (auto simp: can_send_def net_enter_def Let_def split: prod.splits)

lemma can_send_counters [state_simps]:
  "n_send_size (snd (can_send sock t0 now seed n)) = n_send_size n"
  "n_send_count (snd (can_send sock t0 now seed n)) = n_send_count n"
  "n_recv_size (snd (can_send sock t0 now seed n)) = n_recv_size n"
  "n_recv_count (snd (can_send sock t0 now seed n)) = n_recv_count n"
  by (auto simp: can_send_def Let_def split: prod.splits)

text \<open>A call of one of the hooks, and what the caller is told was transferred.\<close>

datatype net_call =
  Call_send u64 "sock_type option" int int u32 u64
| Call_sendto u64 "sock_type option" int int u32 u64
| Call_recv u64
| Call_recvfrom u64

fun net_apply :: "net_call \<Rightarrow> network \<Rightarrow> u64 \<times> network" where
  "net_apply (Call_send real sock t0 now seed len) n = snd (send_hook real sock t0 now seed len n)"
| "net_apply (Call_sendto real sock t0 now seed len) n = snd (sendto_hook real sock t0 now seed len n)"
| "net_apply (Call_recv real) n = recv_hook real n"
| "net_apply (Call_recvfrom real) n = recvfrom_hook real n"

fun is_send :: "net_call \<Rightarrow> bool" where
  "is_send (Call_send _ _ _ _ _ _) = True"
| "is_send (Call_sendto _ _ _ _ _ _) = True"
| "is_send _ = False"

text \<open>The results of a sequence of calls, each with its call, and the state after it.\<close>

fun net_run :: "net_call list \<Rightarrow> network \<Rightarrow> (net_call \<times> u64) list \<times> network" where
  "net_run [] n = ([], n)"
| "net_run (c # cs) n =
    (case net_apply c n of (res, n) \<Rightarrow> (case net_run cs n of (rs, n) \<Rightarrow> ((c, res) # rs, n)))"

definition transferred :: "(net_call \<times> u64) list \<Rightarrow> u64" where
  "transferred rs = sum_list (map (\<lambda>(c, res). if res = - 1 then 0 else res) rs)"

lemma net_apply_accounts:
  "case net_apply c n of (res, n') \<Rightarrow>
     let got = (if res = - 1 then 0 else res) in
     net_enter n' = net_enter n
     \<and> n_send_size n' = n_send_size n + (if net_enter n \<and> is_send c then got else 0)
     \<and> n_send_count n' = n_send_count n + (if net_enter n \<and> is_send c then 1 else 0)
     \<and> n_recv_size n' = n_recv_size n + (if net_enter n \<and> \<not> is_send c then got else 0)
     \<and> n_recv_count n' = n_recv_count n + (if net_enter n \<and> \<not> is_send c then 1 else 0)"
proof -
  have sent: "case (snd (case can_send sock t0 now seed n of (ok, n) \<Rightarrow>
         let res = (if ok then real else len)
         in (ok, res, track_send (if res = - 1 then 0 else res) n))) of (res, n') \<Rightarrow>
     let got = (if res = - 1 then 0 else res) in
     net_enter n' = net_enter n
     \<and> n_send_size n' = n_send_size n + (if net_enter n then got else 0)
     \<and> n_send_count n' = n_send_count n + (if net_enter n then 1 else 0)
     \<and> n_recv_size n' = n_recv_size n \<and> n_recv_count n' = n_recv_count n"
    for sock t0 now seed real len
  proof (cases "can_send sock t0 now seed n")
    case (Pair ok n1)
    then have "net_enter n1 = net_enter n" "n_send_size n1 = n_send_size n" "n_send_count n1 = n_send_count n"
        "n_recv_size n1 = n_recv_size n" "n_recv_count n1 = n_recv_count n"
      using net_enter_can_send [of sock t0 now seed n] can_send_counters [of sock t0 now seed n] by simp_all
    moreover have "net_enter (n1\<lparr>n_send_size := a, n_send_count := b\<rparr>) = net_enter n1" for a b
      by (simp add: net_enter_def)
    ultimately show ?thesis
      by (simp add: Pair track_send_def Let_def)
  qed
  have recv: "net_enter (n\<lparr>n_recv_size := a, n_recv_count := b\<rparr>) = net_enter n" for a b
    by (simp add: net_enter_def)
  show ?thesis
  proof (cases c)
    case (Call_send real sock t0 now seed len)
    then show ?thesis
      using sent [where sock = sock and real = real and len = len and now = now and ?t0.0 = t0 and seed = seed] by (simp add: send_hook_def)
  next
    case (Call_sendto real sock t0 now seed len)
    then show ?thesis
      using sent [where sock = sock and real = real and len = len and now = now and ?t0.0 = t0 and seed = seed] by (simp add: sendto_hook_def)
  next
    case (Call_recv real)
    then show ?thesis by (simp add: recv_hook_def track_recv_def recv)
  next
    case (Call_recvfrom real)
    then show ?thesis by (simp add: recvfrom_hook_def track_recv_def recv)
  qed
qed

section \<open>Properties\<close>

text \<open>The counters are exact: after any sequence of hooked calls in a tracked, unlocked thread the
  number of sends and receipts, and the bytes the callers were told were sent and received, have been
  added to them; in an untracked or locked thread nothing has.\<close>

theorem network_accounts:
  "case net_run cs n of (rs, n') \<Rightarrow>
     let sent = filter (\<lambda>(c, res). is_send c) rs; got = filter (\<lambda>(c, res). \<not> is_send c) rs in
     map fst rs = cs \<and> net_enter n' = net_enter n
     \<and> n_send_size n' = n_send_size n + (if net_enter n then transferred sent else 0)
     \<and> n_send_count n' = n_send_count n + (if net_enter n then of_nat (length sent) else 0)
     \<and> n_recv_size n' = n_recv_size n + (if net_enter n then transferred got else 0)
     \<and> n_recv_count n' = n_recv_count n + (if net_enter n then of_nat (length got) else 0)"
proof (induction cs arbitrary: n)
  case Nil
  then show ?case by (simp add: transferred_def)
next
  case (Cons c cs)
  obtain res n1 where a: "net_apply c n = (res, n1)" by (cases "net_apply c n")
  obtain rs n2 where b: "net_run cs n1 = (rs, n2)" by (cases "net_run cs n1")
  show ?case
    using net_apply_accounts [where c = c and n = n] Cons.IH [of n1]
    by (simp add: a b transferred_def Let_def add.assoc)
qed

text \<open>Reliable sockets never lose data: for a stream, sequenced-packet or reliably delivered
  message socket (or one whose type is unknown), and for every socket when no faults are configured
  or tracking is off, the hook makes the real call and returns its result.\<close>

theorem reliable_sends_pass:
  assumes "sock = None \<or> sock \<in> {Some SOCK_STREAM, Some SOCK_SEQPACKET, Some SOCK_RDM}
    \<or> \<not> n_probabilistic n \<or> \<not> net_enter n"
  shows "\<exists>n1 n2. send_hook real sock t0 now seed len n = (True, real, n1)
    \<and> sendto_hook real sock t0 now seed len n = (True, real, n2)"
proof -
  have "\<exists>n1. can_send sock t0 now seed n = (True, n1)"
    using assms by (auto simp: can_send_def net_enter_def Let_def)
  then show ?thesis
    by (auto simp: send_hook_def sendto_hook_def Let_def)
qed

theorem reliable_sends_pass_witness:
  "\<exists>n1 n2. send_hook 5 (Some SOCK_STREAM) 0 1 7 9 network_init = (True, 5, n1)
    \<and> sendto_hook 5 (Some SOCK_STREAM) 0 1 7 9 network_init = (True, 5, n2)"
  by (rule reliable_sends_pass) simp

text \<open>Within a hole every datagram is lost: up to the hole's end the real call is not made, the
  caller is told that everything was sent, it is counted as sent, and the hole is left as it is.\<close>

theorem hole_drops:
  assumes "sock \<in> {Some SOCK_DGRAM, Some SOCK_OTHER}" and "n_probabilistic n" and "net_enter n"
    and "n_hole_end n = Some t" and "now \<le> t" and "len \<noteq> - 1"
  shows "sendto_hook real sock t0 now seed len n =
    (False, len, n\<lparr>n_send_size := n_send_size n + len, n_send_count := n_send_count n + 1\<rparr>)"
proof -
  have same: "n\<lparr>n_hole_end := Some t\<rparr> = n"
    using assms(4) by simp
  have "can_send sock t0 now seed n = (False, n)"
    using assms same by (auto simp: can_send_def Let_def net_enter_def)
  then show ?thesis
    using assms(3,6) by (simp add: sendto_hook_def track_send_def Let_def)
qed

definition faulty_network :: network where
  "faulty_network = drop_send_requests (1, 2) 1000 (net_track_activity True network_init)\<lparr>n_hole_end := Some 50\<rparr>"

theorem hole_drops_witness:
  "sendto_hook 3 (Some SOCK_DGRAM) 0 20 7 9 faulty_network =
    (False, 9, faulty_network\<lparr>n_send_size := n_send_size faulty_network + 9,
                              n_send_count := n_send_count faulty_network + 1\<rparr>)"
  by (rule hole_drops [of _ _ 50])
     (simp_all add: faulty_network_def drop_send_requests_def net_track_activity_def network_init_def net_enter_def)

end
