(* ===== verification/Socket.thy ===== *)
theory Socket
  imports Containers
begin

text \<open>
  The stream sockets of \<^verbatim>\<open>include/dtest_core/socket.h\<close> and \<^verbatim>\<open>src/socket.cpp\<close>: the transfer
  loops around \<^verbatim>\<open>send\<close> and \<^verbatim>\<open>recv\<close> and the table of open connections. The answers of the
  operating system are scripts, one answer per call, consumed in order; a loop that needs more
  answers than the script holds is still waiting.
\<close>

section \<open>Sending\<close>

definition INITIAL_SYSCALL_SIZE :: u64 where
  "INITIAL_SYSCALL_SIZE = 64 * 1024"

definition MAX_MTU :: u64 where
  "MAX_MTU = 8192"

definition resize_MTU :: "u64 \<Rightarrow> u64 \<Rightarrow> u64" where
  "resize_MTU old_mtu mtu =
    (if old_mtu > mtu then mtu
     else if (mtu \<le> MAX_MTU \<and> mtu > 8000) \<or> mtu \<le> 512 then mtu - 1
     else 512)"

text \<open>
  Answers to \<^verbatim>\<open>send\<close>: a number of bytes taken (at most the number offered), a temporary failure
  (\<^verbatim>\<open>EAGAIN\<close>, \<^verbatim>\<open>EWOULDBLOCK\<close>, \<^verbatim>\<open>EINTR\<close>), \<^verbatim>\<open>EMSGSIZE\<close>, or another error.
\<close>

datatype send_answer = Sent nat | Send_again | Send_msgsize | Send_error

datatype send_status = Send_done | Send_throws | Send_waiting

text \<open>
  \<^verbatim>\<open>Socket::send\<close>: the data left, the current limit \<^verbatim>\<open>maxLen\<close>, the class's \<^verbatim>\<open>_MTU\<close>, and the
  bytes the peer will read.
\<close>

fun send_loop :: "send_answer list \<Rightarrow> u8 list \<Rightarrow> u64 \<Rightarrow> u64 \<Rightarrow> u8 list \<Rightarrow> send_status \<times> u8 list \<times> u64" where
  "send_loop answers data max_len mtu out =
    (if data = [] then (Send_done, out, mtu)
     else
       (case answers of
          [] \<Rightarrow> (Send_waiting, out, mtu)
        | a # answers \<Rightarrow>
            let offered = (if length data \<le> unat max_len then length data else unat max_len)
            in (case a of
                  Sent k \<Rightarrow>
                    let sent = min k offered
                    in send_loop answers (drop sent data) max_len mtu (out @ take sent data)
                | Send_again \<Rightarrow> send_loop answers data max_len mtu out
                | Send_msgsize \<Rightarrow>
                    let mtu = resize_MTU max_len mtu
                    in send_loop answers data mtu mtu out
                | Send_error \<Rightarrow> (Send_throws, out, mtu))))"

declare send_loop.simps [simp del]

definition sock_send :: "send_answer list \<Rightarrow> u8 list \<Rightarrow> u64 \<Rightarrow> send_status \<times> u8 list \<times> u64" where
  "sock_send answers data mtu = send_loop answers data INITIAL_SYSCALL_SIZE mtu []"

section \<open>Receiving\<close>

text \<open>
  Answers to \<^verbatim>\<open>recv\<close> on the peer's byte stream: at most \<open>k\<close> bytes are ready (a call on an
  exhausted stream finds none and would block), would block, interrupted, shut down by the peer,
  or an error.
\<close>

datatype recv_answer = Ready nat | Recv_block | Recv_intr | Recv_shutdown | Recv_error

datatype recv_result = Returned u64 | Recv_throws | Recv_waiting

text \<open>
  \<^verbatim>\<open>Socket::recv\<close> of \<open>len\<close> bytes: the result, the bytes stored, and what is left of the stream
  and of the script. A result of 0 is completion, -1 a shutdown, anything else the number of
  bytes missing when a call would have blocked.
\<close>

fun recv_loop :: "bool \<Rightarrow> recv_answer list \<Rightarrow> u8 list \<Rightarrow> nat \<Rightarrow> u8 list \<Rightarrow>
    recv_result \<times> u8 list \<times> u8 list \<times> recv_answer list" where
  "recv_loop return_on_block answers stream len buf =
    (if len = 0 then (Returned 0, buf, stream, answers)
     else
       (case answers of
          [] \<Rightarrow> (Recv_waiting, buf, stream, [])
        | a # answers \<Rightarrow>
            let blocked = (if return_on_block then (Returned (of_nat len), buf, stream, answers)
                           else recv_loop return_on_block answers stream len buf);
                asked = (if len < unat INITIAL_SYSCALL_SIZE then len else unat INITIAL_SYSCALL_SIZE)
            in (case a of
                  Ready k \<Rightarrow>
                    let got = min k (min asked (length stream))
                    in if got = 0 then blocked
                       else recv_loop return_on_block answers (drop got stream) (len - got)
                              (buf @ take got stream)
                | Recv_block \<Rightarrow> blocked
                | Recv_intr \<Rightarrow> recv_loop return_on_block answers stream len buf
                | Recv_shutdown \<Rightarrow> (Returned size_max, buf, stream, answers)
                | Recv_error \<Rightarrow> (Recv_throws, buf, stream, answers))))"

declare recv_loop.simps [simp del]

definition sock_recv :: "bool \<Rightarrow> recv_answer list \<Rightarrow> u8 list \<Rightarrow> u64 \<Rightarrow>
    recv_result \<times> u8 list \<times> u8 list \<times> recv_answer list" where
  "sock_recv return_on_block answers stream len =
    recv_loop return_on_block answers stream (unat len) []"

section \<open>Open connections\<close>

text \<open>
  A listening socket: its descriptor and \<^verbatim>\<open>_openConnections\<close>, from descriptors to the \<^verbatim>\<open>_fd\<close> of the
  connection object (-1 once it is closed). \<open>s_closed\<close> logs the descriptors given to \<^verbatim>\<open>close\<close>.
\<close>

record listener =
  s_fd :: int
  s_open :: "(int, int) umap"
  s_closed :: "int list"

text \<open>Closing a connection object with descriptor \<open>fd\<close> (nothing when it is already closed).\<close>

definition close_fd :: "int \<Rightarrow> int list \<Rightarrow> int list" where
  "close_fd fd closed = (if fd \<noteq> - 1 then closed @ [fd] else closed)"

definition sock_close :: "listener \<Rightarrow> listener" where
  "sock_close s =
    s\<lparr>s_fd := - 1, s_open := [],
      s_closed := fold (\<lambda>conn. close_fd (snd conn)) (s_open s) (close_fd (s_fd s) (s_closed s))\<rparr>"

text \<open>What \<^verbatim>\<open>poll\<close> reports of a descriptor: \<^verbatim>\<open>POLLIN\<close>, and any of the error conditions.\<close>

record revents =
  ev_in :: bool
  ev_err :: bool

definition poll_socks :: "listener \<Rightarrow> int list" where
  "poll_socks s = s_fd s # filter (\<lambda>fd. fd \<noteq> - 1) (map snd (s_open s))"

text \<open>
  The pass over the polled descriptors of \<^verbatim>\<open>pollOrAcceptOrTimeout\<close>. \<open>acc\<close> is the answer of
  \<^verbatim>\<open>accept4\<close>. \<open>None\<close> is the use of the null pointer that \<^verbatim>\<open>_openConnections[p.fd]\<close> creates when there is
  no entry.
\<close>

fun poll_scan :: "int \<Rightarrow> (int \<times> revents) list \<Rightarrow> nat \<Rightarrow> int \<Rightarrow> listener \<Rightarrow> (int \<times> listener) option" where
  "poll_scan acc [] cnt incoming s = Some (incoming, s)"
| "poll_scan acc ((fd, ev) # ps) cnt incoming s =
    (if cnt = 0 then Some (incoming, s)
     else if \<not> ev_in ev \<and> \<not> ev_err ev then poll_scan acc ps cnt incoming s
     else if fd = s_fd s then
       (if ev_in ev then
          (if acc \<noteq> - 1 then poll_scan acc ps (cnt - 1) acc (s\<lparr>s_open := um_set acc acc (s_open s)\<rparr>)
           else poll_scan acc ps (cnt - 1) acc s)
        else poll_scan acc ps (cnt - 1) incoming s)
     else if ev_in ev then poll_scan acc ps (cnt - 1) fd s
     else
       (case um_find fd (s_open s) of
          None \<Rightarrow> None
        | Some c \<Rightarrow>
            poll_scan acc ps (cnt - 1) incoming
              (s\<lparr>s_closed := close_fd c (s_closed s), s_open := um_erase fd (s_open s)\<rparr>)))"

definition pollOrAcceptOrTimeout ::
  "int \<Rightarrow> (int \<Rightarrow> revents) \<Rightarrow> listener \<Rightarrow> (int option \<times> listener) option" where
  "pollOrAcceptOrTimeout acc ev s =
    (let socks = map (\<lambda>fd. (fd, ev fd)) (poll_socks s);
         cnt = length (filter (\<lambda>p. ev_in (snd p) \<or> ev_err (snd p)) socks)
     in (case poll_scan acc socks cnt (- 1) s of
           None \<Rightarrow> None
         | Some (incoming, s) \<Rightarrow>
             Some (if incoming = - 1 then None else um_find incoming (s_open s), s)))"

definition sock_dispose :: "int \<Rightarrow> listener \<Rightarrow> listener option" where
  "sock_dispose fd s =
    (case um_find fd (s_open s) of
       None \<Rightarrow> None
     | Some c \<Rightarrow> Some (s\<lparr>s_closed := close_fd c (s_closed s), s_open := um_erase fd (s_open s)\<rparr>))"

section \<open>Facts on the loops\<close>

text \<open>What has been sent, followed by what is left, is always the data given.\<close>

lemma send_loop_prefix:
  "send_loop answers data max_len mtu out = (st, out', mtu') \<Longrightarrow>
     \<exists>n. out' = out @ take n data \<and> (st = Send_done \<longleftrightarrow> length data \<le> n)"
proof (induction answers arbitrary: data max_len mtu out)
  case Nil
  then show ?case
    by (cases "data = []") (auto simp: send_loop.simps [of "[]"] intro: exI [of _ 0])
next
  case (Cons a answers)
  show ?case
  proof (cases "data = []")
    case True
    then show ?thesis
      using Cons.prems by (simp add: send_loop.simps)
  next
    case False
    define offered where "offered = (if length data \<le> unat max_len then length data else unat max_len)"
    note step = Cons.prems [unfolded send_loop.simps [of "a # answers"]]
    show ?thesis
    proof (cases a)
      case (Sent k)
      define sent where "sent = min k offered"
      have "send_loop answers (drop sent data) max_len mtu (out @ take sent data) = (st, out', mtu')"
        using step False Sent by (simp add: sent_def offered_def Let_def)
      from Cons.IH [OF this] obtain n where "out' = out @ take (sent + n) data"
          "st = Send_done \<longleftrightarrow> length data - sent \<le> n"
        by (auto simp: take_add)
      then show ?thesis
        by (intro exI [of _ "sent + n"]) (simp add: le_diff_conv add.commute)
    next
      case Send_again
      then show ?thesis
        using Cons.IH [of data max_len mtu out] step False by (simp add: Let_def)
    next
      case Send_msgsize
      then show ?thesis
        using Cons.IH [of data "resize_MTU max_len mtu" "resize_MTU max_len mtu" out] step False
        by (simp add: Let_def)
    next
      case Send_error
      then show ?thesis
        using step False by (intro exI [of _ 0]) (auto simp: Let_def)
    qed
  qed
qed

text \<open>The loop ends when every answer takes at least one byte and there are as many as bytes.\<close>

definition positive_answer :: "recv_answer \<Rightarrow> bool" where
  "positive_answer a \<longleftrightarrow> (\<exists>k > 0. a = Ready k)"

text \<open>
  How a call of \<^verbatim>\<open>Socket::recv\<close> ends, from the answers it used up: \<open>missing\<close> are the bytes it was asked for
  and did not get, \<open>rest\<close> those left on the stream.
\<close>

definition goes_on :: "bool \<Rightarrow> recv_answer \<Rightarrow> bool" where
  "goes_on rob a \<longleftrightarrow> a \<noteq> Recv_shutdown \<and> a \<noteq> Recv_error \<and> \<not> (rob \<and> a = Recv_block)"

definition finds_nothing :: "u8 list \<Rightarrow> recv_answer \<Rightarrow> bool" where
  "finds_nothing rest a \<longleftrightarrow> a = Recv_block \<or> (\<exists>k. a = Ready k \<and> (k = 0 \<or> rest = []))"

definition stops_at :: "bool \<Rightarrow> (recv_answer \<Rightarrow> bool) \<Rightarrow> recv_answer list \<Rightarrow> bool" where
  "stops_at rob P used \<longleftrightarrow> used \<noteq> [] \<and> list_all (goes_on rob) (butlast used) \<and> P (last used)"

definition recv_end :: "bool \<Rightarrow> nat \<Rightarrow> u8 list \<Rightarrow> recv_answer list \<Rightarrow> recv_result \<Rightarrow> bool" where
  "recv_end rob missing rest used res \<longleftrightarrow>
    (case res of
       Returned r \<Rightarrow> missing = 0 \<and> r = 0 \<and> list_all (goes_on rob) used
         \<or> missing > 0 \<and> r = size_max \<and> stops_at rob (\<lambda>a. a = Recv_shutdown) used
         \<or> missing > 0 \<and> r = of_nat missing \<and> rob \<and> stops_at rob (finds_nothing rest) used
     | Recv_throws \<Rightarrow> missing > 0 \<and> stops_at rob (\<lambda>a. a = Recv_error) used
     | Recv_waiting \<Rightarrow> missing > 0 \<and> list_all (goes_on rob) used)"

lemma stops_at_simps [simp]:
  "stops_at rob P [a] \<longleftrightarrow> P a"
  "goes_on rob a \<Longrightarrow> stops_at rob P used \<Longrightarrow> stops_at rob P (a # used)"
  by (simp_all add: stops_at_def)

lemma recv_end_step: "goes_on rob a \<Longrightarrow> recv_end rob missing rest used res \<Longrightarrow> recv_end rob missing rest (a # used) res"
  by (auto simp: recv_end_def split: recv_result.splits)

lemma recv_end_simps [simp]:
  "recv_end rob missing rest [] Recv_waiting \<longleftrightarrow> missing > 0"
  "recv_end rob 0 rest [] (Returned 0)"
  "recv_end rob missing rest [Recv_error] Recv_throws \<longleftrightarrow> missing > 0"
  "missing > 0 \<Longrightarrow> recv_end rob missing rest [Recv_shutdown] (Returned size_max)"
  "missing > 0 \<Longrightarrow> finds_nothing rest a \<Longrightarrow> recv_end True missing rest [a] (Returned (of_nat missing))"
  by (auto simp: recv_end_def)

text \<open>What the loop leaves: the bytes stored, the rest of the stream, and the rest of the answers.\<close>

definition recv_leaves :: "bool \<Rightarrow> recv_answer list \<Rightarrow> u8 list \<Rightarrow> nat \<Rightarrow> u8 list \<Rightarrow>
    recv_result \<times> u8 list \<times> u8 list \<times> recv_answer list \<Rightarrow> bool" where
  "recv_leaves rob answers stream len buf r \<longleftrightarrow>
    (case r of (res, buf', stream', answers') \<Rightarrow>
      \<exists>n used. n \<le> min len (length stream) \<and> buf' = buf @ take n stream \<and> stream' = drop n stream
        \<and> answers = used @ answers' \<and> recv_end rob (len - n) stream' used res \<and> (res = Recv_waiting \<longrightarrow> answers' = []))"

lemma recv_leaves_step:
  assumes "recv_leaves rob answers (drop got stream) (len - got) (buf @ take got stream) r"
    and "goes_on rob a" and "got \<le> min len (length stream)"
  shows "recv_leaves rob (a # answers) stream len buf r"
proof -
  obtain res buf' stream' answers' where r: "r = (res, buf', stream', answers')"
    by (cases r) auto
  obtain n used where n: "n \<le> min (len - got) (length (drop got stream))" "buf' = (buf @ take got stream) @ take n (drop got stream)"
      "stream' = drop n (drop got stream)" "answers = used @ answers'" "recv_end rob (len - got - n) stream' used res"
      "res = Recv_waiting \<longrightarrow> answers' = []"
    using assms(1) by (auto simp: recv_leaves_def r)
  have "drop n (drop got stream) = drop (got + n) stream"
    by (simp add: add.commute)
  with n assms(2,3) show ?thesis
    unfolding recv_leaves_def r prod.case
    by (intro exI [of _ "got + n"] exI [of _ "a # used"]) (auto simp: take_add recv_end_step)
qed

lemma recv_loop_leaves: "recv_leaves rob answers stream len buf (recv_loop rob answers stream len buf)"
proof (induction answers arbitrary: stream len buf)
  case Nil
  show ?case
    by (cases "len = 0") (auto simp: recv_loop.simps [of _ "[]"] recv_leaves_def)
next
  case (Cons a answers)
  show ?case
  proof (cases "len = 0")
    case True
    then show ?thesis
      by (auto simp: recv_loop.simps recv_leaves_def)
  next
    case False
    note step = recv_loop.simps [of _ "_ # _"]
    have ends: ?thesis if "recv_loop rob (a # answers) stream len buf = (res, buf, stream, answers)"
        "recv_end rob len stream [a] res" "res \<noteq> Recv_waiting" for res
      using that by (auto simp: recv_leaves_def intro!: exI [of _ 0])
    have again: ?thesis if "recv_loop rob (a # answers) stream len buf = recv_loop rob answers stream len buf" "goes_on rob a"
      unfolding that(1) using recv_leaves_step [of rob answers 0 stream len buf _ a] Cons.IH [of stream len buf] that(2) by simp
    have blocked: ?thesis
      if "recv_loop rob (a # answers) stream len buf = (if rob then (Returned (of_nat len), buf, stream, answers)
          else recv_loop rob answers stream len buf)" and "finds_nothing stream a"
    proof (cases rob)
      case True
      then show ?thesis using that False by (intro ends [of "Returned (of_nat len)"]) simp_all
    next
      case nrob: False
      then show ?thesis using that by (intro again) (auto simp: goes_on_def finds_nothing_def)
    qed
    show ?thesis
    proof (cases a)
      case (Ready k)
      define got where "got = min k (min (if len < unat INITIAL_SYSCALL_SIZE then len
        else unat INITIAL_SYSCALL_SIZE) (length stream))"
      show ?thesis
      proof (cases "got = 0")
        case True
        then have "k = 0 \<or> stream = []"
          using False by (auto simp: got_def INITIAL_SYSCALL_SIZE_def min_def split: if_splits)
        then have "finds_nothing stream a"
          using Ready by (simp add: finds_nothing_def)
        moreover have "recv_loop rob (a # answers) stream len buf = (if rob then (Returned (of_nat len), buf, stream, answers)
            else recv_loop rob answers stream len buf)"
          using False True Ready by (simp add: recv_loop.simps [of rob "Ready k # answers"] got_def [symmetric] Let_def)
        ultimately show ?thesis
          by (intro blocked)
      next
        case nz: False
        then have rest: "recv_loop rob (a # answers) stream len buf
            = recv_loop rob answers (drop got stream) (len - got) (buf @ take got stream)"
          using False Ready by (simp add: recv_loop.simps [of rob "Ready k # answers"] got_def [symmetric] Let_def)
        have "got \<le> min len (length stream)"
          by (auto simp: got_def)
        then show ?thesis
          unfolding rest using Ready by (intro recv_leaves_step [OF Cons.IH]) (simp_all add: goes_on_def)
      qed
    next
      case Recv_block
      then show ?thesis using False by (intro blocked) (simp_all add: step Let_def finds_nothing_def)
    next
      case Recv_intr
      then show ?thesis using False by (intro again) (simp_all add: step Let_def goes_on_def)
    next
      case Recv_shutdown
      then show ?thesis using False by (intro ends [of "Returned size_max"]) (simp_all add: step Let_def)
    next
      case Recv_error
      then show ?thesis using False by (intro ends [of Recv_throws]) (simp_all add: step Let_def)
    qed
  qed
qed

text \<open>
  Whatever the segmentation of the stream, enough answers deliver all the bytes asked for; interruptions do
  not matter, and calls that find nothing do not when the caller waits.
\<close>

definition found_calls :: "recv_answer list \<Rightarrow> nat" where
  "found_calls answers = length (filter positive_answer answers)"

definition progress :: "bool \<Rightarrow> recv_answer \<Rightarrow> bool" where
  "progress rob a \<longleftrightarrow> positive_answer a \<or> a = Recv_intr \<or> \<not> rob \<and> a = Recv_block"

lemma found_calls_simps [simp]:
  "found_calls [] = 0"
  "found_calls (a # as) = (if positive_answer a then Suc (found_calls as) else found_calls as)"
  "found_calls (as @ bs) = found_calls as + found_calls bs"
  by (simp_all add: found_calls_def)

lemma found_calls_positive: "\<forall>a \<in> set answers. positive_answer a \<Longrightarrow> found_calls answers = length answers"
  by (induction answers) simp_all

lemma not_positive [simp]: "\<not> positive_answer Recv_intr" "\<not> positive_answer Recv_block"
  by (simp_all add: positive_answer_def)

lemma recv_loop_delivers:
  assumes "\<forall>a \<in> set hs. progress rob a" and "len \<le> found_calls hs" and "len \<le> length stream"
  shows "\<exists>u hs'. hs = u @ hs' \<and> found_calls u \<le> len
    \<and> recv_loop rob (hs @ bs) stream len buf = (Returned 0, buf @ take len stream, drop len stream, hs' @ bs)"
  using assms
proof (induction hs arbitrary: stream len buf)
  case Nil
  then show ?case by (simp add: recv_loop.simps)
next
  case (Cons a hs)
  show ?case
  proof (cases "len = 0")
    case True
    then show ?thesis by (intro exI [of _ "[]"] exI [of _ "a # hs"]) (simp add: recv_loop.simps)
  next
    case False
    show ?thesis
    proof (cases "positive_answer a")
      case True
      then obtain k where k: "a = Ready k" "k > 0"
        by (auto simp: positive_answer_def)
      define got where "got = min k (min (if len < unat INITIAL_SYSCALL_SIZE then len
          else unat INITIAL_SYSCALL_SIZE) (length stream))"
      have got: "0 < got" "got \<le> len" "got \<le> length stream"
        using k False Cons.prems(3) by (auto simp: got_def INITIAL_SYSCALL_SIZE_def)
      have step: "recv_loop rob ((a # hs) @ bs) stream len buf
          = recv_loop rob (hs @ bs) (drop got stream) (len - got) (buf @ take got stream)"
        using k got False by (simp add: recv_loop.simps [of rob "Ready k # hs @ bs"] got_def [symmetric] Let_def)
      have "\<forall>a \<in> set hs. progress rob a" "len - got \<le> found_calls hs" "len - got \<le> length (drop got stream)"
        using Cons.prems got True by auto
      from Cons.IH [OF this, of "buf @ take got stream"] obtain u hs' where u: "hs = u @ hs'" "found_calls u \<le> len - got"
          "recv_loop rob (hs @ bs) (drop got stream) (len - got) (buf @ take got stream)
            = (Returned 0, (buf @ take got stream) @ take (len - got) (drop got stream), drop (len - got) (drop got stream), hs' @ bs)"
        by blast
      have "take len stream = take got stream @ take (len - got) (drop got stream)"
          "drop len stream = drop (len - got) (drop got stream)"
        using got take_add [of got "len - got" stream] by auto
      then show ?thesis
        using u got step by (intro exI [of _ "a # u"] exI [of _ hs']) (simp add: True)
    next
      case np: False
      then have a: "a = Recv_intr \<or> \<not> rob \<and> a = Recv_block"
        using Cons.prems(1) by (simp add: progress_def)
      have "recv_loop rob ((a # hs) @ bs) stream len buf = recv_loop rob (hs @ bs) stream len buf"
        using a False by (auto simp: recv_loop.simps [of rob "_ # _"] Let_def)
      moreover obtain u hs' where "hs = u @ hs'" "found_calls u \<le> len"
          "recv_loop rob (hs @ bs) stream len buf = (Returned 0, buf @ take len stream, drop len stream, hs' @ bs)"
        using Cons.IH [of len stream buf] Cons.prems np by auto
      ultimately show ?thesis
        by (intro exI [of _ "a # u"] exI [of _ hs']) (simp add: np)
    qed
  qed
qed

lemma positive_progress: "\<forall>a \<in> set answers. positive_answer a \<Longrightarrow> \<forall>a \<in> set answers. progress rob a"
  by (simp add: progress_def)

section \<open>Facts on the connection table\<close>

text \<open>Every entry is a live connection stored under its own descriptor.\<close>

definition listener_ok :: "listener \<Rightarrow> bool" where
  "listener_ok s \<longleftrightarrow> um_invar (s_open s)
     \<and> (\<forall>c \<in> set (s_open s). snd c = fst c \<and> fst c \<noteq> - 1 \<and> fst c \<noteq> s_fd s)"

definition dead_conn :: "(int \<Rightarrow> revents) \<Rightarrow> int \<Rightarrow> bool" where
  "dead_conn ev fd \<longleftrightarrow> ev_err (ev fd) \<and> \<not> ev_in (ev fd)"

abbreviation (input) active :: "(int \<Rightarrow> revents) \<Rightarrow> int \<Rightarrow> bool" where
  "active ev fd \<equiv> ev_in (ev fd) \<or> ev_err (ev fd)"

lemma poll_scan_connections:
  assumes "\<forall>fd \<in> set fds. um_find fd (s_open s) = Some fd" and "s_fd s \<notin> set fds" and "distinct fds"
    and "- 1 \<notin> set fds" and "length (filter (active ev) fds) \<le> cnt"
  shows "poll_scan acc (map (\<lambda>fd. (fd, ev fd)) fds) cnt inc s
     = Some (last (inc # filter (\<lambda>fd. ev_in (ev fd)) fds),
         s\<lparr>s_open := filter (\<lambda>c. fst c \<notin> set (filter (dead_conn ev) fds)) (s_open s),
           s_closed := s_closed s @ filter (dead_conn ev) fds\<rparr>)"
  using assms
proof (induction fds arbitrary: cnt inc s)
  case Nil
  then show ?case by simp
next
  case (Cons fd fds)
  consider (quiet) "\<not> active ev fd" | (input) "ev_in (ev fd)" | (dead) "dead_conn ev fd"
    by (auto simp: dead_conn_def)
  then show ?case
  proof cases
    case quiet
    then show ?thesis
      using Cons.prems Cons.IH [of s cnt inc] by (cases "cnt = 0") (auto simp: dead_conn_def filter_empty_conv)
  next
    case input
    then show ?thesis
      using Cons.prems Cons.IH [of s "cnt - 1" fd] by (auto simp: dead_conn_def)
  next
    case dead
    let ?s = "s\<lparr>s_closed := s_closed s @ [fd], s_open := um_erase fd (s_open s)\<rparr>"
    have "um_find fd' (s_open ?s) = Some fd'" if "fd' \<in> set fds" for fd'
      using Cons.prems(1,3) that by (auto simp: um_find_erase)
    then show ?thesis
      using Cons.prems Cons.IH [of ?s "cnt - 1" inc] dead
      by (auto simp: dead_conn_def close_fd_def um_erase_def intro!: filter_cong)
  qed
qed


text \<open>Enough answers that take something send everything.\<close>

lemma send_loop_completes:
  assumes "\<forall>a \<in> set answers. a = Send_again \<or> (\<exists>k > 0. a = Sent k)" and "max_len \<noteq> 0"
    and "length data \<le> length (filter (\<lambda>a. a \<noteq> Send_again) answers)"
  shows "send_loop answers data max_len mtu out = (Send_done, out @ data, mtu)"
  using assms
proof (induction answers arbitrary: data out)
  case Nil
  then show ?case by (simp add: send_loop.simps)
next
  case (Cons a answers)
  show ?case
  proof (cases "data = []")
    case True
    then show ?thesis by (simp add: send_loop.simps)
  next
    case False
    note step = send_loop.simps [of "a # answers" data]
    show ?thesis
    proof (cases "a = Send_again")
      case True
      then show ?thesis using Cons step False by simp
    next
      case nag: False
      then obtain k where k: "a = Sent k" "k > 0" using Cons.prems(1) by auto
      define s where "s = min k (if length data \<le> unat max_len then length data else unat max_len)"
      have "0 < s" using k False Cons.prems(2) by (auto simp: s_def unat_gt_0)
      then have "length (drop s data) \<le> length (filter (\<lambda>a. a \<noteq> Send_again) answers)"
        using Cons.prems(3) nag by simp
      then have "send_loop answers (drop s data) max_len mtu (out @ take s data)
          = (Send_done, (out @ take s data) @ drop s data, mtu)"
        by (intro Cons.IH) (use Cons.prems in auto)
      then show ?thesis
        using step False k by (simp add: Let_def s_def)
    qed
  qed
qed

text \<open>A whole pass, the listening descriptor first.\<close>

lemma poll_scan_all:
  fixes s :: listener
  defines "fds \<equiv> map fst (s_open s)"
  assumes "listener_ok s" and "acc \<noteq> - 1 \<longrightarrow> um_find acc (s_open s) = None"
    and "length (filter (active ev) (s_fd s # fds)) \<le> cnt"
  shows "poll_scan acc (map (\<lambda>fd. (fd, ev fd)) (s_fd s # fds)) cnt (- 1) s
     = Some (last ((if ev_in (ev (s_fd s)) then acc else - 1) # filter (\<lambda>fd. ev_in (ev fd)) fds),
         s\<lparr>s_open := filter (\<lambda>c. fst c \<notin> set (filter (dead_conn ev) fds))
                (s_open s @ (if ev_in (ev (s_fd s)) \<and> acc \<noteq> - 1 then [(acc, acc)] else [])),
           s_closed := s_closed s @ filter (dead_conn ev) fds\<rparr>)"
proof -
  have found: "um_find fd (s_open s) = Some fd" if "fd \<in> set fds" for fd
    using assms(2) that by (auto simp: listener_ok_def fds_def um_find_def um_invar_def map_of_eq_Some_iff)
  have tail: "poll_scan acc (map (\<lambda>fd. (fd, ev fd)) fds) n inc (s\<lparr>s_open := s_open s @ new\<rparr>)
     = Some (last (inc # filter (\<lambda>fd. ev_in (ev fd)) fds),
         s\<lparr>s_open := filter (\<lambda>c. fst c \<notin> set (filter (dead_conn ev) fds)) (s_open s @ new),
           s_closed := s_closed s @ filter (dead_conn ev) fds\<rparr>)"
    if "length (filter (active ev) fds) \<le> n" for n inc new
  proof -
    let ?t = "s\<lparr>s_open := s_open s @ new\<rparr>"
    have "\<forall>fd \<in> set fds. um_find fd (s_open ?t) = Some fd"
      using found by (simp add: um_find_def map_add_def)
    moreover have "s_fd ?t \<notin> set fds" "distinct fds" "- 1 \<notin> set fds"
      using assms(2) by (auto simp: listener_ok_def fds_def um_invar_def)
    ultimately show ?thesis
      using poll_scan_connections [of fds ?t ev n acc inc] that by simp
  qed
  show ?thesis
  proof (cases "cnt = 0")
    case True
    then have "filter (\<lambda>fd. ev_in (ev fd)) fds = []" "filter (dead_conn ev) fds = []"
        "\<not> ev_in (ev (s_fd s))"
      using assms(4) by (auto simp: filter_empty_conv dead_conn_def split: if_splits)
    then show ?thesis
      using True by simp
  next
    case False
    then show ?thesis
      using assms(3,4) tail [of "cnt - 1"] tail [of cnt _ "[]"] tail [of "cnt - 1" _ "[]"]
      by (auto simp: um_set_absent)
  qed
qed

section \<open>Properties\<close>

text \<open>C35. However the operating system splits, defers or fails the calls, what \<^verbatim>\<open>Socket::send\<close> has
  transmitted is a prefix of the data, in order and without repetition, and it returns normally
  exactly when that prefix is all of it.\<close>

theorem send_in_order:
  "case sock_send answers data mtu of (st, out, mtu') \<Rightarrow>
     (\<exists>n. out = take n data \<and> (st = Send_done \<longleftrightarrow> n \<ge> length data))"
  by (auto simp: sock_send_def split: prod.split dest!: send_loop_prefix)

text \<open>\<^verbatim>\<open>Socket::send\<close> returns, with all the data sent and the MTU unchanged, once the operating
  system has answered as many times as there are bytes with at least one byte taken, whatever
  temporary failures are in between.\<close>

theorem send_completes:
  assumes "\<forall>a \<in> set answers. a = Send_again \<or> (\<exists>k > 0. a = Sent k)"
    and "length data \<le> length (filter (\<lambda>a. a \<noteq> Send_again) answers)"
  shows "sock_send answers data mtu = (Send_done, data, mtu)"
  using send_loop_completes [OF assms(1) _ assms(2)] by (simp add: sock_send_def INITIAL_SYSCALL_SIZE_def)

theorem send_completes_witness:
  "sock_send [Send_again, Sent 2, Sent 9, Send_again, Sent 4] [1, 2, 3] 8192 = (Send_done, [1, 2, 3], 8192)"
  by (rule send_completes) auto

text \<open>C36. \<^verbatim>\<open>Socket::recv\<close> stores a prefix of the peer's bytes, never more than it was asked for, leaves
  the rest unread, and stops at the first answer that ends it. It returns 0 exactly when it got all the bytes; -1
  only when the answer it stopped at was a shutdown; the number of missing bytes only when the caller
  asked to return and that answer found nothing; it throws only at another error, and as long as it waits
  all the answers went on.\<close>

theorem recv_accounts:
  "case sock_recv rob answers stream len of (res, buf, stream', answers') \<Rightarrow>
     (\<exists>n used. n \<le> min (unat len) (length stream) \<and> buf = take n stream \<and> stream' = drop n stream
        \<and> answers = used @ answers' \<and> recv_end rob (unat len - n) stream' used res
        \<and> (res = Recv_waiting \<longrightarrow> answers' = []))"
  using recv_loop_leaves [of rob answers stream "unat len" "[]"] by (simp add: sock_recv_def recv_leaves_def)

theorem recv_accounts_witness:
  "sock_recv True [Ready 2, Recv_intr, Recv_block, Ready 5] [10, 20, 30, 40] 3 = (Returned 1, [10, 20], [30, 40], [Ready 5])
   \<and> recv_end True 1 [30, 40] [Ready 2, Recv_intr, Recv_block] (Returned 1)"
proof -
  have r: "sock_recv True [Ready 2, Recv_intr, Recv_block, Ready 5] [10, 20, 30, 40] 3 = (Returned 1, [10, 20], [30, 40], [Ready 5])"
    by (simp add: sock_recv_def recv_loop.simps INITIAL_SYSCALL_SIZE_def Let_def)
  obtain n used where n: "n \<le> 3" "[10 :: u8, 20] = take n [10, 20, 30, 40]" "[Ready 2, Recv_intr, Recv_block, Ready 5] = used @ [Ready 5]"
      "recv_end True (3 - n) [30, 40] used (Returned 1)"
    using recv_accounts [where rob = True and answers = "[Ready 2, Recv_intr, Recv_block, Ready 5]"
      and stream = "[10, 20, 30, 40]" and len = 3, unfolded r prod.case]
    by (elim exE conjE) (rule that, simp_all)
  have "n = 2"
    using arg_cong [OF n(2), of length] n(1) by simp
  moreover have "used = [Ready 2, Recv_intr, Recv_block]"
    using n(3) append_same_eq [of "[Ready 2, Recv_intr, Recv_block]" "[Ready 5]" used] by simp
  ultimately show ?thesis
    using r n(4) by simp
qed

text \<open>Whatever the segmentation of the peer's byte stream, \<^verbatim>\<open>Socket::recv\<close> delivers exactly the
  bytes asked for when as many calls find something.\<close>

theorem recv_delivers:
  assumes "\<forall>a \<in> set answers. positive_answer a" and "unat len \<le> length answers" and "unat len \<le> length stream"
  shows "\<exists>answers'. sock_recv rob answers stream len = (Returned 0, take (unat len) stream, drop (unat len) stream, answers')"
  using recv_loop_delivers [OF positive_progress [OF assms(1)] _ assms(3), of rob "[]" "[]"] assms(2) found_calls_positive [OF assms(1)]
  by (auto simp: sock_recv_def)

theorem recv_delivers_witness:
  "\<exists>answers'. sock_recv True [Ready 1, Ready 2, Ready 9] [10, 20, 30, 40] 3
     = (Returned 0, [10, 20, 30], [40], answers')"
  using recv_delivers [of "[Ready 1, Ready 2, Ready 9]" 3 "[10, 20, 30, 40]" True]
  by (simp add: positive_answer_def)


definition sample_listener :: listener where
  "sample_listener = \<lparr>s_fd = 3, s_open = [(4, 4), (5, 5)], s_closed = []\<rparr>"

definition sample_events :: "int \<Rightarrow> revents" where
  "sample_events fd = \<lparr>ev_in = (fd \<noteq> 4), ev_err = (fd = 4)\<rparr>"


end
