(* ===== verification/Message.thy ===== *)
theory Message
  imports Socket Util
begin

text \<open>
  The messages of \<^verbatim>\<open>include/dtest_core/message.h\<close> and \<^verbatim>\<open>src/message.cpp\<close>: a growing byte buffer whose
  first eight bytes are reserved for its length, the insertion and extraction operators, and the
  framed transfer over a stream socket.

  \<open>msg_mem\<close> holds the bytes of \<^verbatim>\<open>_allocBuf\<close> (its length is \<^verbatim>\<open>_allocLen\<close>), \<open>msg_pos\<close> is the offset of
  \<^verbatim>\<open>_buf\<close> in it. A null \<^verbatim>\<open>_allocBuf\<close> is the empty list. An access outside the buffer is \<open>None\<close>. The
  bytes \<^verbatim>\<open>malloc\<close> and \<^verbatim>\<open>realloc\<close> leave uninitialised are the argument \<open>raw\<close>.
\<close>

section \<open>The buffer\<close>

definition DEFAULT_BUFFER_SIZE :: u64 where
  "DEFAULT_BUFFER_SIZE = 1024"

record message =
  msg_mem :: "u8 list"
  msg_pos :: nat
  msg_has :: bool

definition resize :: "(nat \<Rightarrow> u8) \<Rightarrow> nat \<Rightarrow> u8 list \<Rightarrow> u8 list" where
  "resize raw n mem = take n mem @ map raw [length mem..<n]"

definition message_new :: "(nat \<Rightarrow> u8) \<Rightarrow> u64 \<Rightarrow> message" where
  "message_new raw len = \<lparr>msg_mem = map raw [0..<unat len], msg_pos = 8, msg_has = False\<rparr>"

definition msg_fit :: "(nat \<Rightarrow> u8) \<Rightarrow> u64 \<Rightarrow> message \<Rightarrow> message" where
  "msg_fit raw sz m =
    (let len = of_nat (msg_pos m) :: u64;
         alloc_len = of_nat (length (msg_mem m)) :: u64;
         rem = alloc_len - len
     in if rem < sz then
          m\<lparr>msg_mem := resize raw
              (unat (alloc_len + (if sz < DEFAULT_BUFFER_SIZE then DEFAULT_BUFFER_SIZE else sz))) (msg_mem m)\<rparr>
        else m)"

definition msg_invalidate :: "message \<Rightarrow> message" where
  "msg_invalidate m = \<lparr>msg_mem = [], msg_pos = 0, msg_has = False\<rparr>"

text \<open>The move constructor and assignment: the new object and what is left of the source.\<close>

definition msg_move :: "message \<Rightarrow> message \<times> message" where
  "msg_move rhs =
    (\<lparr>msg_mem = msg_mem rhs, msg_pos = msg_pos rhs, msg_has = msg_has rhs\<rparr>, msg_invalidate rhs)"

definition msg_copy :: "message \<Rightarrow> message" where
  "msg_copy rhs = \<lparr>msg_mem = msg_mem rhs, msg_pos = msg_pos rhs, msg_has = msg_has rhs\<rparr>"

text \<open>Storing bytes at \<^verbatim>\<open>_buf\<close>, and \<^verbatim>\<open>put\<close> and \<^verbatim>\<open>get\<close>.\<close>

definition msg_store :: "u8 list \<Rightarrow> message \<Rightarrow> message option" where
  "msg_store bs m =
    (if msg_pos m + length bs \<le> length (msg_mem m)
     then Some (m\<lparr>msg_mem := take (msg_pos m) (msg_mem m) @ bs @ drop (msg_pos m + length bs) (msg_mem m)\<rparr>)
     else None)"

definition msg_put :: "(nat \<Rightarrow> u8) \<Rightarrow> u8 list \<Rightarrow> message \<Rightarrow> message option" where
  "msg_put raw data m =
    map_option (\<lambda>m. m\<lparr>msg_pos := msg_pos m + length data\<rparr>)
      (msg_store data (msg_fit raw (of_nat (length data)) m))"

definition msg_get :: "nat \<Rightarrow> message \<Rightarrow> (u8 list \<times> message) option" where
  "msg_get len m =
    (if msg_pos m + len \<le> length (msg_mem m)
     then Some (take len (drop (msg_pos m) (msg_mem m)), m\<lparr>msg_pos := msg_pos m + len\<rparr>)
     else None)"

section \<open>Insertion and extraction operators\<close>

text \<open>The object representation of an unsigned integer (little endian).\<close>

fun nat_bytes :: "nat \<Rightarrow> nat \<Rightarrow> u8 list" where
  "nat_bytes 0 k = []"
| "nat_bytes (Suc n) k = of_nat (k mod 256) # nat_bytes n (k div 256)"

fun bytes_nat :: "u8 list \<Rightarrow> nat" where
  "bytes_nat [] = 0"
| "bytes_nat (b # bs) = unat b + 256 * bytes_nat bs"

definition size_of :: "'a::len itself \<Rightarrow> nat" where
  "size_of _ = LENGTH('a) div 8"

definition word_bytes :: "'a::len word \<Rightarrow> u8 list" where
  "word_bytes w = nat_bytes (size_of TYPE('a)) (unat w)"

definition bytes_word :: "u8 list \<Rightarrow> 'a::len word" where
  "bytes_word bs = of_nat (bytes_nat bs)"

definition shl_word :: "(nat \<Rightarrow> u8) \<Rightarrow> 'a::len word \<Rightarrow> message \<Rightarrow> message option" where
  "shl_word raw x m =
    map_option (\<lambda>m. m\<lparr>msg_pos := msg_pos m + size_of TYPE('a)\<rparr>)
      (msg_store (word_bytes x) (msg_fit raw (of_nat (size_of TYPE('a))) m))"

definition shr_word :: "message \<Rightarrow> ('a::len word \<times> message) option" where
  "shr_word m = map_option (\<lambda>(bs, m). (bytes_word bs, m)) (msg_get (size_of TYPE('a)) m)"

text \<open>Strings: the characters and a final NUL; extraction reads up to the first NUL.\<close>

definition char_byte :: "char \<Rightarrow> u8" where
  "char_byte c = of_nat (of_char c)"

definition byte_char :: "u8 \<Rightarrow> char" where
  "byte_char b = char_of (unat b)"

definition string_bytes :: "string \<Rightarrow> u8 list" where
  "string_bytes s = map char_byte s @ [0]"

definition shl_string :: "(nat \<Rightarrow> u8) \<Rightarrow> string \<Rightarrow> message \<Rightarrow> message option" where
  "shl_string raw x m = msg_put raw (string_bytes x) m"

definition shr_string :: "message \<Rightarrow> (string \<times> message) option" where
  "shr_string m =
    (let rest = drop (msg_pos m) (msg_mem m);
         x = takeWhile (\<lambda>b. b \<noteq> 0) rest
     in if length x < length rest
        then Some (map byte_char x, m\<lparr>msg_pos := msg_pos m + (length x + 1)\<rparr>)
        else None)"

text \<open>\<^verbatim>\<open>std::vector\<close> and \<^verbatim>\<open>std::list\<close>: the number of elements, then the elements.\<close>

fun shl_all :: "('a \<Rightarrow> message \<Rightarrow> message option) \<Rightarrow> 'a list \<Rightarrow> message \<Rightarrow> message option" where
  "shl_all put [] m = Some m"
| "shl_all put (x # xs) m = (case put x m of None \<Rightarrow> None | Some m \<Rightarrow> shl_all put xs m)"

definition shl_list :: "(nat \<Rightarrow> u8) \<Rightarrow> ('a \<Rightarrow> message \<Rightarrow> message option) \<Rightarrow> 'a list \<Rightarrow> message \<Rightarrow> message option" where
  "shl_list raw put xs m =
    (case shl_word raw (of_nat (length xs) :: u64) m of None \<Rightarrow> None | Some m \<Rightarrow> shl_all put xs m)"

fun shr_all :: "(message \<Rightarrow> ('a \<times> message) option) \<Rightarrow> nat \<Rightarrow> message \<Rightarrow> ('a list \<times> message) option" where
  "shr_all get 0 m = Some ([], m)"
| "shr_all get (Suc n) m =
    (case get m of
       None \<Rightarrow> None
     | Some (x, m) \<Rightarrow> map_option (\<lambda>(xs, m). (x # xs, m)) (shr_all get n m))"

definition shr_list :: "(message \<Rightarrow> ('a \<times> message) option) \<Rightarrow> message \<Rightarrow> ('a list \<times> message) option" where
  "shr_list get m =
    (case shr_word m of None \<Rightarrow> None | Some (sz :: u64, m) \<Rightarrow> shr_all get (unat sz) m)"

section \<open>Transfer\<close>

text \<open>
  \<^verbatim>\<open>Message::send\<close> writes the length into the header and sends everything up to \<^verbatim>\<open>_buf\<close>. The bytes
  handed to \<^verbatim>\<open>Socket::send\<close> are returned.
\<close>

definition msg_send :: "message \<Rightarrow> (u8 list \<times> message) option" where
  "msg_send m =
    (let len = of_nat (msg_pos m) :: u64 in
     if 8 \<le> length (msg_mem m) \<and> msg_pos m \<le> length (msg_mem m) then
       (let m = m\<lparr>msg_mem := word_bytes len @ drop 8 (msg_mem m)\<rparr>
        in Some (take (msg_pos m) (msg_mem m), m))
     else None)"

text \<open>
  \<^verbatim>\<open>Message::recv\<close>: the header with \<^verbatim>\<open>returnOnBlock\<close>, then the body into the buffer at \<^verbatim>\<open>_buf\<close>. The
  outcomes are a normal return, an exception, a call still waiting, and a write outside the buffer.
\<close>

datatype recv_outcome = Received message | Recv_failed | Recv_pending | Recv_overrun

definition msg_recv :: "(nat \<Rightarrow> u8) \<Rightarrow> recv_answer list \<Rightarrow> u8 list \<Rightarrow> message \<Rightarrow>
    recv_outcome \<times> u8 list \<times> recv_answer list" where
  "msg_recv raw answers stream m =
    (case sock_recv True answers stream 8 of
       (Recv_throws, hdr, stream, answers) \<Rightarrow> (Recv_failed, stream, answers)
     | (Recv_waiting, hdr, stream, answers) \<Rightarrow> (Recv_pending, stream, answers)
     | (Returned r, hdr, stream, answers) \<Rightarrow>
         if r = 0 then
           (let len = bytes_word hdr - 8 :: u64;
                m = msg_fit raw len m
            in (case sock_recv False answers stream len of
                  (res, body, stream, answers) \<Rightarrow>
                    (case msg_store body m of
                       None \<Rightarrow> (Recv_overrun, stream, answers)
                     | Some m \<Rightarrow>
                         (case res of
                            Recv_throws \<Rightarrow> (Recv_failed, stream, answers)
                          | Recv_waiting \<Rightarrow> (Recv_pending, stream, answers)
                          | Returned r \<Rightarrow>
                              if r = ucast (- 1 :: u32) then (Recv_failed, stream, answers)
                              else (Received (m\<lparr>msg_has := True\<rparr>), stream, answers)))))
         else if r = size_max \<or> r \<noteq> 8 then (Recv_failed, stream, answers)
         else (Received m, stream, answers))"

section \<open>Fields of a message\<close>

text \<open>
  What the operators promise each other, for a kind of values: insertion appends the encoding
  of the value at the position, extraction consumes exactly that encoding and gives the value back.
  \<open>msg_ok b\<close> is a buffer that can grow by \<open>b\<close> bytes without the 64-bit length wrapping.
\<close>

definition msg_ok :: "nat \<Rightarrow> message \<Rightarrow> bool" where
  "msg_ok b m \<longleftrightarrow> msg_pos m \<le> length (msg_mem m) \<and> length (msg_mem m) + b < 2 ^ 64"

definition written :: "message \<Rightarrow> u8 list" where
  "written m = take (msg_pos m) (msg_mem m)"

definition unread :: "message \<Rightarrow> u8 list" where
  "unread m = drop (msg_pos m) (msg_mem m)"

locale field =
  fixes put :: "'a \<Rightarrow> message \<Rightarrow> message option"
    and get :: "message \<Rightarrow> ('a \<times> message) option"
    and enc :: "'a \<Rightarrow> u8 list"
    and cost :: "'a \<Rightarrow> nat"
    and valid :: "'a \<Rightarrow> bool"
  assumes put_appends: "valid x \<Longrightarrow> msg_ok (b + cost x) m \<Longrightarrow>
      \<exists>m'. put x m = Some m' \<and> msg_ok b m' \<and> written m' = written m @ enc x"
    and get_reads: "valid x \<Longrightarrow> msg_ok b m \<Longrightarrow> unread m = enc x @ r \<Longrightarrow>
      get m = Some (x, m\<lparr>msg_pos := msg_pos m + length (enc x)\<rparr>)"

lemma unread_advance: "unread m = a @ r \<Longrightarrow> unread (m\<lparr>msg_pos := msg_pos m + length a\<rparr>) = r"
  by (simp add: unread_def drop_add)

lemma advance_ok:
  assumes "unread m = a @ r" and "msg_ok b m"
  shows "msg_ok b (m\<lparr>msg_pos := msg_pos m + length a\<rparr>)"
proof -
  have "length (unread m) = length a + length r"
    using assms(1) by simp
  then show ?thesis
    using assms(2) by (auto simp: unread_def msg_ok_def)
qed

lemma length_resize [simp]: "length mem \<le> n \<Longrightarrow> length (resize raw n mem) = n"
  by (simp add: resize_def)

lemma take_resize [simp]: "k \<le> length mem \<Longrightarrow> length mem \<le> n \<Longrightarrow> take k (resize raw n mem) = take k mem"
  by (simp add: resize_def)

lemma msg_fit_ok:
  assumes "msg_ok (b + n + 1024) m"
  shows "msg_ok b (msg_fit raw (of_nat n) m)" and "msg_pos (msg_fit raw (of_nat n) m) = msg_pos m"
    and "msg_pos m + n \<le> length (msg_mem (msg_fit raw (of_nat n) m))"
    and "written (msg_fit raw (of_nat n) m) = written m"
proof -
  let ?L = "length (msg_mem m)" and ?p = "msg_pos m"
  let ?more = "if of_nat n < DEFAULT_BUFFER_SIZE then DEFAULT_BUFFER_SIZE else (of_nat n :: u64)"
  have bounds: "?p \<le> ?L" "?L + b + n + 1024 < 2 ^ 64"
    using assms by (auto simp: msg_ok_def)
  have nats: "unat (of_nat n :: u64) = n" "unat (of_nat ?L :: u64) = ?L" "unat (of_nat ?p :: u64) = ?p"
    using bounds by (simp_all add: unat_of_nat take_bit_nat_eq_self)
  have more: "unat ?more = (if n < 1024 then 1024 else n)"
    using nats(1) by (auto simp: DEFAULT_BUFFER_SIZE_def word_less_unat)
  have "unat (of_nat ?L - of_nat ?p :: u64) = ?L - ?p"
    using bounds(1) nats by (simp add: word_nat word_le_unat)
  then have small: "(of_nat ?L - of_nat ?p :: u64) < of_nat n \<longleftrightarrow> ?L - ?p < n"
    by (simp add: word_less_unat nats)
  have grown: "unat (of_nat ?L + ?more) = ?L + (if n < 1024 then 1024 else n)"
    using bounds more nats by (subst unat_add_nowrap) (auto split: if_splits)
  have fit: "msg_fit raw (of_nat n) m = (if ?L - ?p < n
      then m\<lparr>msg_mem := resize raw (?L + (if n < 1024 then 1024 else n)) (msg_mem m)\<rparr> else m)"
    unfolding msg_fit_def Let_def small grown ..
  show "msg_ok b (msg_fit raw (of_nat n) m)" "msg_pos (msg_fit raw (of_nat n) m) = ?p"
    "?p + n \<le> length (msg_mem (msg_fit raw (of_nat n) m))" "written (msg_fit raw (of_nat n) m) = written m"
    using bounds by (auto simp: fit msg_ok_def written_def)
qed

text \<open>Insertion of any bytes.\<close>

lemma store_appends:
  assumes "msg_ok (b + n + 1024) m" and "length bs = n"
  shows "\<exists>m'. map_option (\<lambda>m. m\<lparr>msg_pos := msg_pos m + n\<rparr>) (msg_store bs (msg_fit raw (of_nat n) m)) = Some m'
    \<and> msg_ok b m' \<and> written m' = written m @ bs"
  using msg_fit_ok [OF assms(1), of raw] assms by (auto simp: msg_store_def msg_ok_def written_def)

lemma get_bytes:
  assumes "unread m = bs @ r" and "msg_ok b m"
  shows "msg_get (length bs) m = Some (bs, m\<lparr>msg_pos := msg_pos m + length bs\<rparr>)"
  using advance_ok [OF assms] assms(1) by (simp add: msg_get_def msg_ok_def unread_def)

text \<open>Words.\<close>

lemma length_nat_bytes [simp]: "length (nat_bytes n k) = n"
  by (induction n arbitrary: k) auto

lemma bytes_nat_bytes: "bytes_nat (nat_bytes n k) = k mod 256 ^ n"
  by (induction n arbitrary: k) (simp_all add: unat_of_nat take_bit_nat_eq_self mod_mult2_eq)

lemma length_word_bytes [simp]: "length (word_bytes (w :: 'a::len word)) = size_of TYPE('a)"
  by (simp add: word_bytes_def)

lemma bytes_word_bytes:
  assumes "8 dvd LENGTH('a)"
  shows "bytes_word (word_bytes w) = (w :: 'a::len word)"
proof -
  obtain k where k: "LENGTH('a) = 8 * k"
    using assms by (auto elim: dvdE)
  then have "256 ^ size_of TYPE('a) = (2 :: nat) ^ LENGTH('a)"
    by (simp add: size_of_def power_mult)
  moreover have "unat w < 2 ^ LENGTH('a)"
    by (rule unsigned_less)
  ultimately show ?thesis
    by (simp add: bytes_word_def word_bytes_def bytes_nat_bytes)
qed

interpretation word: field "shl_word raw" shr_word word_bytes
    "\<lambda>(x :: 'a::len word). size_of TYPE('a) + 1024" "\<lambda>(x :: 'a::len word). 8 dvd LENGTH('a)"
  for raw
proof
  fix x :: "'a word" and b m
  assume "msg_ok (b + (size_of TYPE('a) + 1024)) m"
  then show "\<exists>m'. shl_word raw x m = Some m' \<and> msg_ok b m' \<and> written m' = written m @ word_bytes x"
    using store_appends [of b "size_of TYPE('a)" m "word_bytes x" raw]
    by (simp add: shl_word_def add.assoc)
next
  fix x :: "'a word" and b m r
  assume "8 dvd LENGTH('a)" "msg_ok b m" "unread m = word_bytes x @ r"
  then show "shr_word m = Some (x, m\<lparr>msg_pos := msg_pos m + length (word_bytes x)\<rparr>)"
    using get_bytes [of m "word_bytes x" r b] by (simp add: shr_word_def bytes_word_bytes)
qed

text \<open>Strings.\<close>

lemma unat_char_byte [simp]: "unat (char_byte c) = of_char c"
  by (simp add: char_byte_def unat_of_nat take_bit_nat_eq_self)

lemma byte_char_byte [simp]: "byte_char (char_byte c) = c"
  by (simp add: byte_char_def)

lemma char_byte_zero: "char_byte c = 0 \<longleftrightarrow> c = NUL"
proof -
  have "char_byte c = 0 \<longleftrightarrow> unat (char_byte c) = 0"
    by (rule unat_eq_0 [symmetric])
  also have "\<dots> \<longleftrightarrow> of_char c = (of_char NUL :: nat)"
    unfolding unat_char_byte by simp
  finally show ?thesis
    by (simp only: of_char_eq_iff)
qed

interpretation string: field "shl_string raw" shr_string string_bytes
    "\<lambda>s. length (string_bytes s) + 1024" "\<lambda>s. NUL \<notin> set s"
  for raw
proof
  fix x :: string and b m
  assume "msg_ok (b + (length (string_bytes x) + 1024)) m"
  then show "\<exists>m'. shl_string raw x m = Some m' \<and> msg_ok b m' \<and> written m' = written m @ string_bytes x"
    unfolding shl_string_def msg_put_def by (intro store_appends) (simp_all only: add.assoc)
next
  fix x :: string and b m r
  assume "NUL \<notin> set x" "unread m = string_bytes x @ r"
  moreover from this have "takeWhile (\<lambda>b. b \<noteq> 0) (unread m) = map char_byte x"
    by (auto simp: string_bytes_def takeWhile_append char_byte_zero)
  ultimately show "shr_string m = Some (x, m\<lparr>msg_pos := msg_pos m + length (string_bytes x)\<rparr>)"
    by (simp add: shr_string_def Let_def o_def string_bytes_def flip: unread_def)
qed

text \<open>Lists of fields are fields.\<close>

definition list_bytes :: "('a \<Rightarrow> u8 list) \<Rightarrow> 'a list \<Rightarrow> u8 list" where
  "list_bytes enc xs = word_bytes (of_nat (length xs) :: u64) @ concat (map enc xs)"

definition list_cost :: "('a \<Rightarrow> nat) \<Rightarrow> 'a list \<Rightarrow> nat" where
  "list_cost cost xs = 1032 + sum_list (map cost xs)"

definition list_valid :: "('a \<Rightarrow> bool) \<Rightarrow> 'a list \<Rightarrow> bool" where
  "list_valid valid xs \<longleftrightarrow> length xs < 2 ^ 64 \<and> list_all valid xs"

context field
begin

lemma put_all: "list_all valid xs \<Longrightarrow> msg_ok (b + sum_list (map cost xs)) m \<Longrightarrow>
    \<exists>m'. shl_all put xs m = Some m' \<and> msg_ok b m' \<and> written m' = written m @ concat (map enc xs)"
proof (induction xs arbitrary: m)
  case (Cons x xs)
  then obtain m' where "put x m = Some m'" "msg_ok (b + sum_list (map cost xs)) m'" "written m' = written m @ enc x"
    using put_appends [of x "b + sum_list (map cost xs)" m] by (auto simp: add.assoc add.commute [of "cost x"])
  then show ?case
    using Cons.IH [of m'] Cons.prems by auto
qed simp

lemma get_all: "list_all valid xs \<Longrightarrow> msg_ok b m \<Longrightarrow> unread m = concat (map enc xs) @ r \<Longrightarrow>
    shr_all get (length xs) m = Some (xs, m\<lparr>msg_pos := msg_pos m + length (concat (map enc xs))\<rparr>)"
proof (induction xs arbitrary: m)
  case (Cons x xs)
  let ?m = "m\<lparr>msg_pos := msg_pos m + length (enc x)\<rparr>"
  have u: "unread m = enc x @ concat (map enc xs) @ r"
    using Cons.prems by simp
  have "get m = Some (x, ?m)"
    using Cons.prems u by (intro get_reads) auto
  moreover have "shr_all get (length xs) ?m = Some (xs, ?m\<lparr>msg_pos := msg_pos ?m + length (concat (map enc xs))\<rparr>)"
    using Cons.prems advance_ok [OF u] unread_advance [OF u] by (intro Cons.IH) auto
  ultimately show ?case
    by (simp add: add.assoc)
qed simp

lemma list_field: "field (shl_list raw put) (shr_list get) (list_bytes enc) (list_cost cost) (list_valid valid)"
proof
  fix xs b m
  assume "list_valid valid xs" and "msg_ok (b + list_cost cost xs) m"
  then have "msg_ok ((b + sum_list (map cost xs)) + (8 + 1024)) m"
    by (simp add: list_cost_def add.assoc add.commute)
  then obtain m1 where "shl_word raw (of_nat (length xs) :: u64) m = Some m1" "msg_ok (b + sum_list (map cost xs)) m1"
      "written m1 = written m @ word_bytes (of_nat (length xs) :: u64)"
    using word.put_appends [where x = "of_nat (length xs) :: u64" and b = "b + sum_list (map cost xs)"
          and m = m and raw = raw]
    by (auto simp: size_of_def)
  then show "\<exists>m'. shl_list raw put xs m = Some m' \<and> msg_ok b m' \<and> written m' = written m @ list_bytes enc xs"
    using put_all [of xs b m1] \<open>list_valid valid xs\<close>
    by (auto simp: shl_list_def list_bytes_def list_valid_def)
next
  fix xs b m r
  assume v: "list_valid valid xs" and ok: "msg_ok b m" and u: "unread m = list_bytes enc xs @ r"
  let ?w = "of_nat (length xs) :: u64"
  let ?m = "m\<lparr>msg_pos := msg_pos m + length (word_bytes ?w)\<rparr>"
  have u': "unread m = word_bytes ?w @ concat (map enc xs) @ r"
    using u by (simp add: list_bytes_def)
  have "shr_word m = Some (?w, ?m)"
    using u' ok by (intro word.get_reads) auto
  moreover have "unat ?w = length xs"
    using v by (simp add: list_valid_def unat_of_nat take_bit_nat_eq_self)
  moreover have "shr_all get (length xs) ?m = Some (xs, ?m\<lparr>msg_pos := msg_pos ?m + length (concat (map enc xs))\<rparr>)"
    using v advance_ok [OF u' ok] unread_advance [OF u'] by (intro get_all) (auto simp: list_valid_def)
  ultimately show "shr_list get m = Some (xs, m\<lparr>msg_pos := msg_pos m + length (list_bytes enc xs)\<rparr>)"
    by (simp add: shr_list_def list_bytes_def add.assoc)
qed

end

interpretation strings: field "shl_list raw (shl_string raw)" "shr_list shr_string"
    "list_bytes string_bytes" "list_cost (\<lambda>s. length (string_bytes s) + 1024)" "list_valid (\<lambda>s. NUL \<notin> set s)"
  for raw
  by (rule string.list_field)

end
