(* ===== verification/Message_Props.thy ===== *)
theory Message_Props
  imports Message
begin

text \<open>
  Messages end to end: a sequence of values inserted into a fresh message, framed, carried over a
  byte stream in any segmentation, received and extracted again is the same sequence. The three
  ways the framing goes wrong are stated as well: a header that arrives in two pieces, a peer that
  closes within the body, and a string that holds a NUL.
\<close>

section \<open>Sequences of values\<close>

datatype val = V8 u8 | V32 u32 | V64 u64 | VString string | VStrings "string list"

fun put_val :: "(nat \<Rightarrow> u8) \<Rightarrow> val \<Rightarrow> message \<Rightarrow> message option" where
  "put_val raw (V8 x) m = shl_word raw x m"
| "put_val raw (V32 x) m = shl_word raw x m"
| "put_val raw (V64 x) m = shl_word raw x m"
| "put_val raw (VString x) m = shl_string raw x m"
| "put_val raw (VStrings x) m = shl_list raw (shl_string raw) x m"

text \<open>Extraction of a value of the same type as the one given.\<close>

fun get_val :: "val \<Rightarrow> message \<Rightarrow> (val \<times> message) option" where
  "get_val (V8 _) m = map_option (\<lambda>(x, m). (V8 x, m)) (shr_word m)"
| "get_val (V32 _) m = map_option (\<lambda>(x, m). (V32 x, m)) (shr_word m)"
| "get_val (V64 _) m = map_option (\<lambda>(x, m). (V64 x, m)) (shr_word m)"
| "get_val (VString _) m = map_option (\<lambda>(x, m). (VString x, m)) (shr_string m)"
| "get_val (VStrings _) m = map_option (\<lambda>(x, m). (VStrings x, m)) (shr_list shr_string m)"

fun get_vals :: "val list \<Rightarrow> message \<Rightarrow> (val list \<times> message) option" where
  "get_vals [] m = Some ([], m)"
| "get_vals (v # vs) m =
    (case get_val v m of
       None \<Rightarrow> None
     | Some (x, m) \<Rightarrow> map_option (\<lambda>(xs, m). (x # xs, m)) (get_vals vs m))"

fun val_bytes :: "val \<Rightarrow> u8 list" where
  "val_bytes (V8 x) = word_bytes x"
| "val_bytes (V32 x) = word_bytes x"
| "val_bytes (V64 x) = word_bytes x"
| "val_bytes (VString x) = string_bytes x"
| "val_bytes (VStrings x) = list_bytes string_bytes x"

fun val_cost :: "val \<Rightarrow> nat" where
  "val_cost (V8 x) = size_of TYPE(8) + 1024"
| "val_cost (V32 x) = size_of TYPE(32) + 1024"
| "val_cost (V64 x) = size_of TYPE(64) + 1024"
| "val_cost (VString x) = length (string_bytes x) + 1024"
| "val_cost (VStrings x) = list_cost (\<lambda>s. length (string_bytes s) + 1024) x"

fun val_ok :: "val \<Rightarrow> bool" where
  "val_ok (V8 x) \<longleftrightarrow> True"
| "val_ok (V32 x) \<longleftrightarrow> True"
| "val_ok (V64 x) \<longleftrightarrow> True"
| "val_ok (VString x) \<longleftrightarrow> NUL \<notin> set x"
| "val_ok (VStrings x) \<longleftrightarrow> list_valid (\<lambda>s. NUL \<notin> set s) x"

lemma put_val_appends: "val_ok v \<Longrightarrow> msg_ok (b + val_cost v) m \<Longrightarrow>
    \<exists>m'. put_val raw v m = Some m' \<and> msg_ok b m' \<and> written m' = written m @ val_bytes v"
proof (cases v)
  case (V8 x)
  then show "msg_ok (b + val_cost v) m \<Longrightarrow> ?thesis"
    using word.put_appends [where x = x and raw = raw] by simp
next
  case (V32 x)
  then show "msg_ok (b + val_cost v) m \<Longrightarrow> ?thesis"
    using word.put_appends [where x = x and raw = raw] by simp
next
  case (V64 x)
  then show "msg_ok (b + val_cost v) m \<Longrightarrow> ?thesis"
    using word.put_appends [where x = x and raw = raw] by simp
qed (simp_all add: string.put_appends strings.put_appends)

lemma get_val_reads: "val_ok v \<Longrightarrow> msg_ok b m \<Longrightarrow> unread m = val_bytes v @ r \<Longrightarrow>
    get_val v m = Some (v, m\<lparr>msg_pos := msg_pos m + length (val_bytes v)\<rparr>)"
  by (cases v) (simp_all add: word.get_reads string.get_reads strings.get_reads)

lemma put_vals_append: "list_all val_ok vs \<Longrightarrow> msg_ok (b + sum_list (map val_cost vs)) m \<Longrightarrow>
    \<exists>m'. shl_all (put_val raw) vs m = Some m' \<and> msg_ok b m'
      \<and> written m' = written m @ concat (map val_bytes vs)"
proof (induction vs arbitrary: m)
  case (Cons v vs)
  then obtain m' where "put_val raw v m = Some m'" "msg_ok (b + sum_list (map val_cost vs)) m'"
      "written m' = written m @ val_bytes v"
    using put_val_appends [of v "b + sum_list (map val_cost vs)" m raw]
    by (auto simp: add.assoc add.commute [of "val_cost v"])
  then show ?case
    using Cons.IH [of m'] Cons.prems by auto
qed simp

lemma get_vals_read: "list_all val_ok vs \<Longrightarrow> msg_ok b m \<Longrightarrow> unread m = concat (map val_bytes vs) @ r \<Longrightarrow>
    \<exists>m'. get_vals vs m = Some (vs, m')"
proof (induction vs arbitrary: m)
  case (Cons v vs)
  have u: "unread m = val_bytes v @ concat (map val_bytes vs) @ r"
    using Cons.prems by simp
  then show ?case
    using Cons.IH [OF _ advance_ok [OF u] unread_advance [OF u]] get_val_reads [OF _ _ u] Cons.prems
    by auto
qed simp

section \<open>Framing\<close>

lemma message_new_ok: "8 \<le> unat len \<Longrightarrow> unat len + b < 2 ^ 64 \<Longrightarrow> msg_ok b (message_new raw len)"
  by (simp add: msg_ok_def message_new_def)

lemma written_new: "8 \<le> unat len \<Longrightarrow> written (message_new raw len) = map raw [0..<8]"
  by (simp add: written_def message_new_def take_map)

lemma msg_send_frames:
  assumes "msg_ok b m" and "written m = hdr @ body" and "length hdr = 8"
  shows "\<exists>m'. msg_send m = Some (word_bytes (of_nat (8 + length body) :: u64) @ body, m')"
proof -
  have len: "msg_pos m = 8 + length body"
    using assms by (metis written_def length_append length_take min.absorb2 msg_ok_def)
  have "take (length body) (drop 8 (msg_mem m)) = drop 8 (written m)"
    by (simp add: written_def len take_drop add.commute)
  also have "\<dots> = body"
    using assms(2,3) by simp
  finally show ?thesis
    using assms(1) len by (simp add: msg_send_def msg_ok_def Let_def size_of_def)
qed

lemma sock_recv_delivers:
  assumes "\<forall>a \<in> set hs. progress rob a" and "unat len \<le> found_calls hs" and "length bs = unat len"
  shows "\<exists>u hs'. hs = u @ hs' \<and> found_calls u \<le> unat len \<and> sock_recv rob (hs @ as) (bs @ r) len = (Returned 0, bs, r, hs' @ as)"
  using recv_loop_delivers [OF assms(1,2), of "bs @ r" as "[]"] assms(3) by (simp add: sock_recv_def)

text \<open>
  The answers that let a message with \<open>n\<close> bytes after its header arrive. The header is read with one call that
  returns when it would block: until it is there, a call may be interrupted but not find nothing. For the rest the receipt
  waits, so calls may find nothing, too.
\<close>

definition frame_arrives :: "recv_answer list \<Rightarrow> nat \<Rightarrow> bool" where
  "frame_arrives answers n \<longleftrightarrow> (\<exists>hs bs. answers = hs @ bs \<and> (\<forall>a \<in> set hs. progress True a) \<and> (\<forall>a \<in> set bs. progress False a)
     \<and> 8 \<le> found_calls hs \<and> 8 + n \<le> found_calls answers)"

lemma frame_arrives_positive:
  "\<forall>a \<in> set answers. positive_answer a \<Longrightarrow> 8 + n \<le> length answers \<Longrightarrow> frame_arrives answers n"
  unfolding frame_arrives_def
  by (rule exI [of _ answers], rule exI [of _ "[]"]) (simp add: progress_def found_calls_positive)

lemma frame_arrives_less: "frame_arrives answers n \<Longrightarrow> n' \<le> n \<Longrightarrow> frame_arrives answers n'"
  by (fastforce simp: frame_arrives_def)

lemma minus_one_unsigned: "ucast (- 1 :: u32) = (0xFFFFFFFF :: u64)"
  by (simp add: word_unat_eq_iff unsigned_ucast_eq unsigned_minus_1_eq_mask mask_eq_exp_minus_1 take_bit_nat_eq_self)

lemma msg_recv_arrives:
  assumes "frame_arrives answers (length body)"
    and "msg_ok (length body + 1024) m"
  shows "\<exists>m' answers'. msg_recv raw answers (word_bytes (of_nat (8 + length body) :: u64) @ body @ r) m
      = (Received m', r, answers') \<and> msg_has m' \<and> msg_ok 0 m' \<and> written m' = written m
      \<and> (\<exists>x. unread m' = body @ x)"
proof -
  let ?h = "word_bytes (of_nat (8 + length body) :: u64)"
  have small: "length body < 2 ^ 64"
    using assms(2) by (simp add: msg_ok_def)
  then have n: "unat (of_nat (length body) :: u64) = length body"
    by (simp add: unat_of_nat take_bit_nat_eq_self)
  obtain hs bs where split: "answers = hs @ bs" "\<forall>a \<in> set hs. progress True a" "\<forall>a \<in> set bs. progress False a"
      "8 \<le> found_calls hs" "8 + length body \<le> found_calls answers"
    using assms(1) by (auto simp: frame_arrives_def)
  obtain u hs' where u: "hs = u @ hs'" "found_calls u \<le> 8"
      "sock_recv True (hs @ bs) (?h @ body @ r) 8 = (Returned 0, ?h, body @ r, hs' @ bs)"
    using sock_recv_delivers [OF split(2), of 8 ?h bs "body @ r"] split(4) by (auto simp: size_of_def)
  have room: "\<forall>a \<in> set (hs' @ bs). progress False a" "length body \<le> found_calls (hs' @ bs)"
    using split u(1,2) by (auto simp: progress_def)
  obtain answers2 where a2: "sock_recv False (hs' @ bs) (body @ r) (of_nat (length body)) = (Returned 0, body, r, answers2)"
    using sock_recv_delivers [OF room(1), of "of_nat (length body)" body "[]" r] room(2)
    unfolding n by auto
  note a1 = u(3) [folded split(1)]
  have len: "bytes_word ?h - 8 = (of_nat (length body) :: u64)"
    by (simp add: bytes_word_bytes)
  note fit = msg_fit_ok [of 0 "length body" m raw]
  let ?m = "msg_fit raw (of_nat (length body)) m"
  obtain m' where m': "msg_store body ?m = Some m'"
      "m' = ?m\<lparr>msg_mem := take (msg_pos m) (msg_mem ?m) @ body @ drop (msg_pos m + length body) (msg_mem ?m)\<rparr>"
    using fit assms(2) by (auto simp: msg_store_def)
  have "msg_recv raw answers (?h @ body @ r) m = (Received (m'\<lparr>msg_has := True\<rparr>), r, answers2)"
    unfolding msg_recv_def a1 prod.case recv_result.case len Let_def a2 m'(1) minus_one_unsigned by simp
  moreover have "msg_ok 0 (m'\<lparr>msg_has := True\<rparr>)" "written (m'\<lparr>msg_has := True\<rparr>) = written m"
      "unread (m'\<lparr>msg_has := True\<rparr>) = body @ drop (msg_pos m + length body) (msg_mem ?m)"
    using fit assms(2) by (auto simp: m'(2) msg_ok_def written_def unread_def)
  ultimately show ?thesis
    by (intro exI [of _ "m'\<lparr>msg_has := True\<rparr>"] exI [of _ answers2]) auto
qed

lemma msg_recv_framed:
  assumes "\<forall>a \<in> set answers. positive_answer a" and "8 + length body \<le> length answers"
    and "msg_ok (length body + 1024) m"
  shows "\<exists>m' answers'. msg_recv raw answers (word_bytes (of_nat (8 + length body) :: u64) @ body @ r) m
      = (Received m', r, answers') \<and> msg_has m' \<and> msg_ok 0 m' \<and> written m' = written m
      \<and> (\<exists>x. unread m' = body @ x)"
  by (rule msg_recv_arrives [OF frame_arrives_positive [OF assms(1,2)] assms(3)])

section \<open>Properties\<close>

lemma val_bytes_cost: "length (val_bytes v) \<le> val_cost v"
proof (cases v)
  case (VStrings xs)
  have "length (concat (map string_bytes xs)) \<le> sum_list (map (\<lambda>s. length (string_bytes s) + 1024) xs)"
    unfolding length_concat map_map o_def by (rule sum_list_mono) simp
  then show ?thesis
    by (simp add: VStrings list_bytes_def list_cost_def size_of_def)
qed simp_all

lemma vals_bytes_cost: "length (concat (map val_bytes vs)) \<le> sum_list (map val_cost vs)"
  unfolding length_concat map_map o_def by (intro sum_list_mono val_bytes_cost)

text \<open>C12. Any sequence of values, their strings without a NUL, inserted into a new message and sent is received, from any
  segmentation of the byte stream with at least one byte per call, as a message from which
  extraction gives the same sequence, and nothing of what follows on the stream is consumed.\<close>

theorem message_round_trip:
  assumes "list_all val_ok vs" and "sum_list (map val_cost vs) < 2 ^ 63"
    and "\<forall>a \<in> set answers. positive_answer a"
    and "8 + length (concat (map val_bytes vs)) \<le> length answers"
  shows "\<exists>m1 wire m2 m3 m4 answers'.
    shl_all (put_val raw) vs (message_new raw DEFAULT_BUFFER_SIZE) = Some m1
    \<and> msg_send m1 = Some (wire, m2)
    \<and> msg_recv raw' answers (wire @ r) (message_new raw' DEFAULT_BUFFER_SIZE) = (Received m3, r, answers')
    \<and> msg_has m3 \<and> get_vals vs m3 = Some (vs, m4)"
proof -
  have new: "msg_ok b (message_new raw DEFAULT_BUFFER_SIZE)" "written (message_new raw DEFAULT_BUFFER_SIZE) = map raw [0..<8]"
    if "b < 2 ^ 63 + 2 ^ 62" for b and raw :: "nat \<Rightarrow> u8"
    using message_new_ok [of DEFAULT_BUFFER_SIZE b raw] written_new [of DEFAULT_BUFFER_SIZE raw] that
    by (simp_all add: DEFAULT_BUFFER_SIZE_def)
  obtain m1 where m1: "shl_all (put_val raw) vs (message_new raw DEFAULT_BUFFER_SIZE) = Some m1" "msg_ok 0 m1"
      "written m1 = map raw [0..<8] @ concat (map val_bytes vs)"
    using put_vals_append [OF assms(1), of 0 "message_new raw DEFAULT_BUFFER_SIZE" raw]
      new(1) [of "sum_list (map val_cost vs)" raw] new(2) [of 0 raw] assms(2) by auto
  let ?body = "concat (map val_bytes vs)"
  obtain m2 where m2: "msg_send m1 = Some (word_bytes (of_nat (8 + length ?body) :: u64) @ ?body, m2)"
    using msg_send_frames [OF m1(2,3)] by auto
  have room: "msg_ok (length ?body + 1024) (message_new raw' DEFAULT_BUFFER_SIZE)"
    using vals_bytes_cost [of vs] assms(2) by (intro new(1)) simp
  obtain m3 answers' x where "msg_recv raw' answers (word_bytes (of_nat (8 + length ?body) :: u64) @ ?body @ r)
      (message_new raw' DEFAULT_BUFFER_SIZE) = (Received m3, r, answers')" "msg_has m3" "msg_ok 0 m3"
      "unread m3 = ?body @ x"
    using msg_recv_framed [OF assms(3,4) room, of raw' r] by blast
  moreover from this obtain m4 where "get_vals vs m3 = Some (vs, m4)"
    using get_vals_read [OF assms(1)] by blast
  ultimately show ?thesis
    using m1(1) m2 by fastforce
qed

theorem message_round_trip_witness:
  "\<exists>m1 wire m2 m3 m4 answers'.
    shl_all (put_val (\<lambda>_. 0)) [V32 7, VString ''ok'', VStrings [''a'', []], V64 5] (message_new (\<lambda>_. 0) DEFAULT_BUFFER_SIZE) = Some m1
    \<and> msg_send m1 = Some (wire, m2)
    \<and> msg_recv (\<lambda>_. 9) (replicate 40 (Ready 3)) (wire @ [1, 2]) (message_new (\<lambda>_. 9) DEFAULT_BUFFER_SIZE) = (Received m3, [1, 2], answers')
    \<and> msg_has m3 \<and> get_vals [V32 7, VString ''ok'', VStrings [''a'', []], V64 5] m3 = Some ([V32 7, VString ''ok'', VStrings [''a'', []], V64 5], m4)"
  by (rule message_round_trip)
     (simp_all add: list_valid_def list_cost_def list_bytes_def string_bytes_def size_of_def positive_answer_def)

lemma unat_numeral_8: "unat (8 :: u64) = 8"
  by simp

text \<open>A header that arrives in two pieces is not waited for: when the non-blocking socket has fewer
  than eight bytes, but some, the receipt fails, and the bytes that did arrive are consumed.\<close>

theorem message_split_header_fails:
  assumes "0 < length part" and "length part < 8"
  shows "msg_recv raw [Ready (length part), Recv_block] part m = (Recv_failed, [], [])"
proof -
  have "unat (of_nat (8 - length part) :: u64) = 8 - length part"
    by (simp add: unat_of_nat take_bit_nat_eq_self)
  moreover have "8 - length part \<noteq> 0" "8 - length part \<noteq> 8"
    using assms by linarith+
  ultimately have "of_nat (8 - length part) \<noteq> (0 :: u64)" "of_nat (8 - length part) \<noteq> (8 :: u64)"
    by (metis unat_0, metis unat_numeral_8)
  then show ?thesis
    using assms by (simp del: of_nat_diff add: msg_recv_def sock_recv_def recv_loop.simps INITIAL_SYSCALL_SIZE_def Let_def)
qed

theorem message_split_header_fails_witness:
  "msg_recv (\<lambda>_. 0) [Ready (length [1 :: u8, 2]), Recv_block] [1, 2] (message_new (\<lambda>_. 0) 1024) = (Recv_failed, [], [])"
  by (rule message_split_header_fails) simp_all

text \<open>A peer that closes the connection within the body is not noticed: the shutdown value of
  \<^verbatim>\<open>Socket::recv\<close> is compared with the 32-bit -1, so the truncated message is returned as complete.\<close>

theorem message_truncated_accepted:
  assumes "0 < length part" and "length part < n" and "n < 2 ^ 16" and "msg_ok (n + 1024) m"
  shows "\<exists>m'. msg_recv raw [Ready 8, Ready (length part), Recv_shutdown]
        (word_bytes (of_nat (8 + n) :: u64) @ part) m = (Received m', [], []) \<and> msg_has m'"
proof -
  let ?h = "word_bytes (of_nat (8 + n) :: u64)"
  have "unat (of_nat n :: u64) = n"
    using assms(3) by (simp add: unat_of_nat take_bit_nat_eq_self)
  moreover have "length ?h = 8"
    by (simp add: size_of_def)
  ultimately have rec: "sock_recv True [Ready 8, Ready (length part), Recv_shutdown] (?h @ part) 8
        = (Returned 0, ?h, part, [Ready (length part), Recv_shutdown])"
      "sock_recv False [Ready (length part), Recv_shutdown] part (of_nat n) = (Returned size_max, part, [], [])"
    using assms(1-3) by (simp_all add: sock_recv_def recv_loop.simps INITIAL_SYSCALL_SIZE_def Let_def)
  have len: "bytes_word ?h - 8 = (of_nat n :: u64)"
    by (simp add: bytes_word_bytes)
  have "\<exists>m'. msg_store part (msg_fit raw (of_nat n) m) = Some m'"
    using msg_fit_ok [of 0 n m raw] assms(2,4) by (auto simp: msg_store_def)
  then obtain m' where m': "msg_store part (msg_fit raw (of_nat n) m) = Some m'" ..
  have "msg_recv raw [Ready 8, Ready (length part), Recv_shutdown] (?h @ part) m = (Received (m'\<lparr>msg_has := True\<rparr>), [], [])"
    unfolding msg_recv_def rec(1) prod.case recv_result.case len Let_def rec(2) m' minus_one_unsigned by simp
  then show ?thesis
    by simp
qed

theorem message_truncated_accepted_witness:
  "\<exists>m'. msg_recv (\<lambda>_. 0) [Ready 8, Ready (length [1 :: u8, 2]), Recv_shutdown]
        (word_bytes (of_nat (8 + 5) :: u64) @ [1, 2]) (message_new (\<lambda>_. 0) 1024) = (Received m', [], []) \<and> msg_has m'"
  by (rule message_truncated_accepted) (simp_all add: message_new_ok)

text \<open>A string that holds a NUL is not read back as it was inserted, and the next value is
  read from within it.\<close>

theorem message_nul_desynchronises:
  assumes "NUL \<notin> set a" and "NUL \<notin> set b" and "msg_ok 0 m"
    and "unread m = val_bytes (VString (a @ NUL # b)) @ val_bytes (VString t) @ r"
  shows "\<exists>m'. get_vals [VString (a @ NUL # b), VString t] m = Some ([VString a, VString b], m')"
proof -
  have u: "unread m = concat (map val_bytes [VString a, VString b]) @ val_bytes (VString t) @ r"
    using assms(4) by (simp add: string_bytes_def char_byte_zero)
  obtain m' where "get_vals [VString a, VString b] m = Some ([VString a, VString b], m')"
    using get_vals_read [OF _ assms(3) u] assms(1,2) by auto
  then show ?thesis
    by (auto split: option.splits)
qed

theorem message_nul_desynchronises_witness:
  "\<exists>m'. get_vals [VString (''a'' @ NUL # ''b''), VString ''c'']
      \<lparr>msg_mem = [97, 0, 98, 0, 99, 0], msg_pos = 0, msg_has = True\<rparr>
    = Some ([VString ''a'', VString ''b''], m')"
  by (rule message_nul_desynchronises [where r = "[]"])
     (simp_all add: msg_ok_def unread_def string_bytes_def char_byte_def)

end
