(* ===== verification/Sandbox.thy ===== *)
theory Sandbox
  imports Memory_Accounts Network
begin

text \<open>
  The sandbox of \<^verbatim>\<open>include/dtest_core/sandbox.h\<close> and \<^verbatim>\<open>src/sandbox.cpp\<close> around the two trackers: nesting
  of tracked sections, resource snapshots, and the hooks of \<^verbatim>\<open>src/memory_hooks.cpp\<close> on the C library's
  memory functions. The state is one thread's view after the trackers have been constructed
  (\<^verbatim>\<open>_mmgr_instance\<close> is set); the results of the real C library calls are arguments.
\<close>

section \<open>Tracked sections\<close>

record sandbox =
  sb_enabled :: bool
  sb_counter :: u64
  sb_memory :: memory
  sb_network :: network

definition sandbox_init :: "memory \<Rightarrow> network \<Rightarrow> sandbox" where
  "sandbox_init m n = \<lparr>sb_enabled = True, sb_counter = 1, sb_memory = m, sb_network = n\<rparr>"

definition sb_enable :: "sandbox \<Rightarrow> sandbox" where
  "sb_enable s = s\<lparr>sb_enabled := True\<rparr>"

definition sb_disable :: "sandbox \<Rightarrow> sandbox" where
  "sb_disable s = s\<lparr>sb_enabled := False\<rparr>"

text \<open>The two \<^verbatim>\<open>trackActivity\<close> calls that \<^verbatim>\<open>enter\<close>, \<^verbatim>\<open>exit\<close> and \<^verbatim>\<open>exitAll\<close> make together.\<close>

definition sb_track :: "bool \<Rightarrow> sandbox \<Rightarrow> sandbox" where
  "sb_track val s =
    s\<lparr>sb_memory := mem_track_activity val (sb_memory s),
      sb_network := net_track_activity val (sb_network s)\<rparr>"

definition sb_enter :: "sandbox \<Rightarrow> sandbox" where
  "sb_enter s =
    (let s = s\<lparr>sb_counter := sb_counter s - 1\<rparr>
     in if sb_counter s = 0 then sb_track (sb_enabled s) s else s)"

definition sb_exit :: "sandbox \<Rightarrow> sandbox" where
  "sb_exit s =
    (let s = (if sb_counter s = 0 then sb_track False s else s)
     in s\<lparr>sb_counter := sb_counter s + 1\<rparr>)"

definition sb_exitAll :: "sandbox \<Rightarrow> sandbox" where
  "sb_exitAll s = (sb_track False s)\<lparr>sb_counter := 1\<rparr>"

definition sb_lock :: "sandbox \<Rightarrow> sandbox" where
  "sb_lock s = s\<lparr>sb_memory := mem_lock (sb_memory s), sb_network := net_lock (sb_network s)\<rparr>"

definition sb_unlock :: "sandbox \<Rightarrow> sandbox" where
  "sb_unlock s = s\<lparr>sb_memory := mem_unlock (sb_memory s), sb_network := net_unlock (sb_network s)\<rparr>"

definition enableFaultyNetwork :: "frac \<Rightarrow> u64 \<Rightarrow> sandbox \<Rightarrow> sandbox" where
  "enableFaultyNetwork chance duration s =
    s\<lparr>sb_network := drop_send_requests chance duration (sb_network s)\<rparr>"

definition disableFaultyNetwork :: "sandbox \<Rightarrow> sandbox" where
  "disableFaultyNetwork s = s\<lparr>sb_network := dont_drop_send_requests (sb_network s)\<rparr>"

definition memoryReport :: "(addr \<Rightarrow> string) \<Rightarrow> (call_stack \<Rightarrow> string) \<Rightarrow> sandbox \<Rightarrow> string \<times> sandbox" where
  "memoryReport show_ptr show_stack s =
    (case mem_report show_ptr show_stack (sb_memory s) of (r, m) \<Rightarrow> (r, s\<lparr>sb_memory := m\<rparr>))"

definition clearMemoryBlocks :: "sandbox \<Rightarrow> libc_release list \<times> sandbox" where
  "clearMemoryBlocks s = (case mem_clear (sb_memory s) of (calls, m) \<Rightarrow> (calls, s\<lparr>sb_memory := m\<rparr>))"

section \<open>Resource snapshots\<close>

record quantity =
  q_size :: u64
  q_count :: u64

record resource_snapshot =
  rs_initialized :: bool
  rs_allocate :: quantity
  rs_deallocate :: quantity
  rs_max :: quantity
  rs_send :: quantity
  rs_receive :: quantity

definition quantity_zero :: quantity where
  "quantity_zero = \<lparr>q_size = 0, q_count = 0\<rparr>"

definition snapshot_init :: resource_snapshot where
  "snapshot_init =
    \<lparr>rs_initialized = False, rs_allocate = quantity_zero, rs_deallocate = quantity_zero,
     rs_max = quantity_zero, rs_send = quantity_zero, rs_receive = quantity_zero\<rparr>"

definition resourceSnapshot :: "resource_snapshot \<Rightarrow> sandbox \<Rightarrow> resource_snapshot \<times> sandbox" where
  "resourceSnapshot sn s =
    (let s = (if \<not> rs_initialized sn
              then s\<lparr>sb_memory := reset_max_allocation (sb_memory s)\<rparr> else s);
         m = sb_memory s; n = sb_network s
     in (\<lparr>rs_initialized = True,
          rs_allocate = \<lparr>q_size = m_alloc_size m - q_size (rs_allocate sn),
                         q_count = m_alloc_count m - q_count (rs_allocate sn)\<rparr>,
          rs_deallocate = \<lparr>q_size = m_free_size m - q_size (rs_deallocate sn),
                           q_count = m_free_count m - q_count (rs_deallocate sn)\<rparr>,
          rs_max = \<lparr>q_size = m_max_alloc m, q_count = m_max_count m\<rparr>,
          rs_send = \<lparr>q_size = n_send_size n - q_size (rs_send sn),
                     q_count = n_send_count n - q_count (rs_send sn)\<rparr>,
          rs_receive = \<lparr>q_size = n_recv_size n - q_size (rs_receive sn),
                        q_count = n_recv_count n - q_count (rs_receive sn)\<rparr>\<rparr>, s))"

section \<open>Fatal errors\<close>

text \<open>
  The tracker's \<^verbatim>\<open>exitAll\<close> and \<^verbatim>\<open>throw\<close> for an address without a block. \<open>show_ptr\<close> prints an address as
  \<^verbatim>\<open>%p\<close> does (so the 64 bytes of the buffer suffice), \<open>trace\<close> is the printed call stack.
\<close>

datatype hook_end = Hook_returns | Hook_throws string

definition fatal_message :: "(addr \<Rightarrow> string) \<Rightarrow> string \<Rightarrow> addr \<Rightarrow> string" where
  "fatal_message show_ptr trace p =
    ''Detected fatal error: '' @ ''no valid memory block at '' @ show_ptr p
    @ ''. Caused by:\<newline>'' @ trace"

definition with_tracker :: "(addr \<Rightarrow> string) \<Rightarrow> string \<Rightarrow> (memory \<Rightarrow> mem_outcome \<times> memory) \<Rightarrow>
    sandbox \<Rightarrow> hook_end \<times> sandbox" where
  "with_tracker show_ptr trace f s =
    (case f (sb_memory s) of
       (Mem_done, m) \<Rightarrow> (Hook_returns, s\<lparr>sb_memory := m\<rparr>)
     | (No_valid_block p, m) \<Rightarrow>
         (Hook_throws (fatal_message show_ptr trace p), sb_exitAll (s\<lparr>sb_memory := m\<rparr>)))"

section \<open>Memory hooks\<close>

text \<open>
  Allocation functions that report the new block when the real call gave one: \<^verbatim>\<open>malloc\<close>,
  \<^verbatim>\<open>memalign\<close>, \<^verbatim>\<open>valloc\<close>, \<^verbatim>\<open>pvalloc\<close> and \<^verbatim>\<open>aligned_alloc\<close> have the same body around different calls.
\<close>

definition alloc_hook :: "call_stack \<Rightarrow> addr \<Rightarrow> u64 \<Rightarrow> sandbox \<Rightarrow> addr \<times> sandbox" where
  "alloc_hook cs ptr sz s =
    (ptr, if ptr \<noteq> null_ptr then s\<lparr>sb_memory := mem_track cs ptr sz (sb_memory s)\<rparr> else s)"

definition malloc_hook :: "call_stack \<Rightarrow> (u64 \<Rightarrow> addr) \<Rightarrow> u64 \<Rightarrow> sandbox \<Rightarrow> addr \<times> sandbox" where
  "malloc_hook cs libc_malloc sz s = alloc_hook cs (libc_malloc sz) sz s"

definition memalign_hook :: "call_stack \<Rightarrow> (u64 \<Rightarrow> u64 \<Rightarrow> addr) \<Rightarrow> u64 \<Rightarrow> u64 \<Rightarrow> sandbox \<Rightarrow> addr \<times> sandbox" where
  "memalign_hook cs libc_memalign al sz s = alloc_hook cs (libc_memalign al sz) sz s"

definition valloc_hook :: "call_stack \<Rightarrow> (u64 \<Rightarrow> addr) \<Rightarrow> u64 \<Rightarrow> sandbox \<Rightarrow> addr \<times> sandbox" where
  "valloc_hook cs libc_valloc sz s = alloc_hook cs (libc_valloc sz) sz s"

definition pvalloc_hook :: "call_stack \<Rightarrow> (u64 \<Rightarrow> addr) \<Rightarrow> u64 \<Rightarrow> sandbox \<Rightarrow> addr \<times> sandbox" where
  "pvalloc_hook cs libc_pvalloc sz s = alloc_hook cs (libc_pvalloc sz) sz s"

definition aligned_alloc_hook :: "call_stack \<Rightarrow> (u64 \<Rightarrow> u64 \<Rightarrow> addr) \<Rightarrow> u64 \<Rightarrow> u64 \<Rightarrow> sandbox \<Rightarrow> addr \<times> sandbox" where
  "aligned_alloc_hook cs libc_aligned_alloc al sz s = alloc_hook cs (libc_aligned_alloc al sz) sz s"

text \<open>\<^verbatim>\<open>calloc\<close> hands out the static array \<open>tmp\<close> while the real function is being looked up.\<close>

definition calloc_hook ::
  "call_stack \<Rightarrow> addr \<Rightarrow> (u64 \<Rightarrow> u64 \<Rightarrow> addr) option \<Rightarrow> u64 \<Rightarrow> u64 \<Rightarrow> sandbox \<Rightarrow> addr \<times> sandbox" where
  "calloc_hook cs tmp libc_calloc nmemb sz s =
    (case libc_calloc of
       None \<Rightarrow> (tmp, s)
     | Some f \<Rightarrow> alloc_hook cs (f nmemb sz) (nmemb * sz) s)"

text \<open>\<open>libc\<close> answers with the return value and what \<^verbatim>\<open>*__memptr\<close> holds after the call.\<close>

definition posix_memalign_hook ::
  "call_stack \<Rightarrow> (addr \<Rightarrow> u64 \<Rightarrow> u64 \<Rightarrow> int \<times> addr) \<Rightarrow> addr \<Rightarrow> u64 \<Rightarrow> u64 \<Rightarrow> sandbox \<Rightarrow> (int \<times> addr) \<times> sandbox" where
  "posix_memalign_hook cs libc_posix_memalign old al sz s =
    (case libc_posix_memalign old al sz of
       (retval, memptr) \<Rightarrow> ((retval, memptr), snd (alloc_hook cs memptr sz s)))"

definition realloc_with ::
  "(addr \<Rightarrow> string) \<Rightarrow> string \<Rightarrow> call_stack \<Rightarrow> addr \<Rightarrow> addr \<Rightarrow> u64 \<Rightarrow> sandbox \<Rightarrow> hook_end \<times> sandbox" where
  "realloc_with show_ptr trace cs old ptr sz s =
    (if old \<noteq> null_ptr then
       (if ptr \<noteq> null_ptr then with_tracker show_ptr trace (mem_retrack cs old ptr sz) s
        else (Hook_returns, s))
     else (Hook_returns, snd (alloc_hook cs ptr sz s)))"

definition realloc_hook ::
  "(addr \<Rightarrow> string) \<Rightarrow> string \<Rightarrow> call_stack \<Rightarrow> (addr \<Rightarrow> u64 \<Rightarrow> addr) \<Rightarrow> addr \<Rightarrow> u64 \<Rightarrow> sandbox \<Rightarrow>
    addr \<times> hook_end \<times> sandbox" where
  "realloc_hook show_ptr trace cs libc_realloc old sz s =
    (let ptr = libc_realloc old sz in (ptr, realloc_with show_ptr trace cs old ptr sz s))"

definition reallocarray_hook ::
  "(addr \<Rightarrow> string) \<Rightarrow> string \<Rightarrow> call_stack \<Rightarrow> (addr \<Rightarrow> u64 \<Rightarrow> u64 \<Rightarrow> addr) \<Rightarrow> addr \<Rightarrow> u64 \<Rightarrow> u64 \<Rightarrow> sandbox \<Rightarrow>
    addr \<times> hook_end \<times> sandbox" where
  "reallocarray_hook show_ptr trace cs libc_reallocarray old nmemb sz s =
    (let ptr = libc_reallocarray old nmemb sz
     in (ptr, realloc_with show_ptr trace cs old ptr (nmemb * sz) s))"

text \<open>\<^verbatim>\<open>free\<close>: the calls of the real function it makes are returned; an exception comes before them.\<close>

definition free_hook ::
  "(addr \<Rightarrow> string) \<Rightarrow> string \<Rightarrow> call_stack \<Rightarrow> addr \<Rightarrow> addr \<Rightarrow> sandbox \<Rightarrow>
    libc_release list \<times> hook_end \<times> sandbox" where
  "free_hook show_ptr trace cs tmp ptr s =
    (if ptr = tmp then ([], Hook_returns, s)
     else if ptr \<noteq> null_ptr then
       (case with_tracker show_ptr trace (mem_remove cs ptr) s of
          (Hook_returns, s) \<Rightarrow> ([Libc_free ptr], Hook_returns, s)
        | (Hook_throws e, s) \<Rightarrow> ([], Hook_throws e, s))
     else ([Libc_free ptr], Hook_returns, s))"

text \<open>\<^verbatim>\<open>MAP_FAILED\<close> is \<^verbatim>\<open>(void *) -1\<close>.\<close>

definition mmap_hook :: "call_stack \<Rightarrow> addr \<Rightarrow> u64 \<Rightarrow> sandbox \<Rightarrow> addr \<times> sandbox" where
  "mmap_hook cs ptr len s =
    (ptr, if ptr \<noteq> size_max then s\<lparr>sb_memory := mem_track_mapped cs ptr len (sb_memory s)\<rparr> else s)"

definition mremap_hook ::
  "(addr \<Rightarrow> string) \<Rightarrow> string \<Rightarrow> call_stack \<Rightarrow> addr \<Rightarrow> addr \<Rightarrow> u64 \<Rightarrow> u64 \<Rightarrow> sandbox \<Rightarrow> addr \<times> hook_end \<times> sandbox" where
  "mremap_hook show_ptr trace cs ptr addr old_len new_len s =
    (ptr, if ptr \<noteq> size_max
          then with_tracker show_ptr trace (mem_retrack_mapped cs addr old_len ptr new_len) s
          else (Hook_returns, s))"

definition munmap_hook ::
  "(addr \<Rightarrow> string) \<Rightarrow> string \<Rightarrow> call_stack \<Rightarrow> addr \<Rightarrow> u64 \<Rightarrow> sandbox \<Rightarrow>
    libc_release list \<times> hook_end \<times> sandbox" where
  "munmap_hook show_ptr trace cs addr len s =
    (if addr \<noteq> null_ptr then
       (case with_tracker show_ptr trace (mem_remove_mapped cs addr len) s of
          (Hook_returns, s) \<Rightarrow> ([Libc_munmap addr len], Hook_returns, s)
        | (Hook_throws e, s) \<Rightarrow> ([], Hook_throws e, s))
     else ([Libc_munmap addr len], Hook_returns, s))"

text \<open>The C++ operators are the C functions.\<close>

definition operator_new :: "call_stack \<Rightarrow> (u64 \<Rightarrow> addr) \<Rightarrow> u64 \<Rightarrow> sandbox \<Rightarrow> addr \<times> sandbox" where
  "operator_new cs libc_malloc n s = malloc_hook cs libc_malloc n s"

definition operator_new_aligned :: "call_stack \<Rightarrow> (u64 \<Rightarrow> u64 \<Rightarrow> addr) \<Rightarrow> u64 \<Rightarrow> u64 \<Rightarrow> sandbox \<Rightarrow> addr \<times> sandbox" where
  "operator_new_aligned cs libc_memalign n al s = memalign_hook cs libc_memalign al n s"

text \<open>The forms that must not throw.\<close>

definition operator_new_nothrow :: "call_stack \<Rightarrow> (u64 \<Rightarrow> addr) \<Rightarrow> u64 \<Rightarrow> sandbox \<Rightarrow> addr \<times> sandbox" where
  "operator_new_nothrow cs libc_malloc n s = operator_new cs libc_malloc n s"

definition operator_new_aligned_nothrow ::
  "call_stack \<Rightarrow> (u64 \<Rightarrow> u64 \<Rightarrow> addr) \<Rightarrow> u64 \<Rightarrow> u64 \<Rightarrow> sandbox \<Rightarrow> addr \<times> sandbox" where
  "operator_new_aligned_nothrow cs libc_memalign n al s = operator_new_aligned cs libc_memalign n al s"

definition operator_delete ::
  "(addr \<Rightarrow> string) \<Rightarrow> string \<Rightarrow> call_stack \<Rightarrow> addr \<Rightarrow> addr \<Rightarrow> sandbox \<Rightarrow> libc_release list \<times> hook_end \<times> sandbox" where
  "operator_delete show_ptr trace cs tmp ptr s = free_hook show_ptr trace cs tmp ptr s"

end
