(* ===== verification/Sandbox_Props.thy ===== *)
theory Sandbox_Props
  imports Sandbox
begin

text \<open>
  What the sandbox promises the tests that run in it: when it tracks, what a locked section and a
  snapshot see, and what the hooks do at the borders of the C library's contracts.
\<close>

section \<open>Nesting\<close>

datatype section_event = Enter | Exit | Exit_all

fun section_apply :: "section_event \<Rightarrow> sandbox \<Rightarrow> sandbox" where
  "section_apply Enter s = sb_enter s"
| "section_apply Exit s = sb_exit s"
| "section_apply Exit_all s = sb_exitAll s"

text \<open>The number of tracked sections that are open, as a reader of the calls counts them.\<close>

fun depth_after :: "section_event \<Rightarrow> int \<Rightarrow> int" where
  "depth_after Enter d = d + 1"
| "depth_after Exit d = d - 1"
| "depth_after Exit_all d = 0"

definition depth :: "section_event list \<Rightarrow> int" where
  "depth es = fold depth_after es 0"

definition both_track :: "bool \<Rightarrow> sandbox \<Rightarrow> bool" where
  "both_track b s \<longleftrightarrow> m_track (sb_memory s) = b \<and> n_track (sb_network s) = b"

lemma both_track_simps [simp]:
  "both_track b (s\<lparr>sb_counter := c\<rparr>) = both_track b s"
  "both_track b (sb_track v s) = (b = v)"
  "sb_counter (sb_track v s) = sb_counter s" "sb_enabled (sb_track v s) = sb_enabled s"
  by (auto simp: both_track_def sb_track_def mem_track_activity_def net_track_activity_def)

lemma section_apply_enabled [simp]: "sb_enabled (section_apply e s) = sb_enabled s"
  by (cases e) (simp_all add: sb_enter_def sb_exit_def sb_exitAll_def Let_def)

lemma word_of_int_zero: "\<bar>k\<bar> < 2 ^ 63 \<Longrightarrow> (word_of_int k :: u64) = 0 \<longleftrightarrow> k = 0"
proof
  assume k: "\<bar>k\<bar> < 2 ^ 63" and z: "(word_of_int k :: u64) = 0"
  then have "2 ^ 64 dvd k"
    by (simp add: word_of_int_eq_0_iff)
  with k show "k = 0"
    using dvd_imp_le_int [of k "2 ^ 64"] by fastforce
qed simp

lemma section_apply_depth:
  assumes "sb_counter s = word_of_int (1 - d)" and "both_track (0 < d) s" and "sb_enabled s" and "\<bar>d\<bar> < 2 ^ 62"
  shows "sb_counter (section_apply e s) = word_of_int (1 - depth_after e d)
    \<and> both_track (0 < depth_after e d) (section_apply e s)"
proof (cases e)
  case Enter
  have c: "sb_counter s - 1 = word_of_int (- d)"
    by (simp add: assms(1))
  have "(word_of_int (- d) :: u64) = 0 \<longleftrightarrow> d = 0"
    using word_of_int_zero [of "- d"] assms(4) by simp
  then show ?thesis
    using Enter assms by (auto simp: sb_enter_def Let_def c both_track_def sb_track_def
        mem_track_activity_def net_track_activity_def)
next
  case Exit
  have "(word_of_int (1 - d) :: u64) = 0 \<longleftrightarrow> d = 1"
    using word_of_int_zero [of "1 - d"] assms(4) by simp
  moreover have "(word_of_int (1 - d) :: u64) + 1 = word_of_int (1 - (d - 1))"
    by (simp add: wi_hom_add)
  ultimately show ?thesis
    using Exit assms by (auto simp: sb_exit_def Let_def both_track_def sb_track_def
        mem_track_activity_def net_track_activity_def)
next
  case Exit_all
  then show ?thesis by (simp add: sb_exitAll_def)
qed

lemma fold_sections:
  assumes "sb_counter s = word_of_int (1 - d)" and "both_track (0 < d) s" and "sb_enabled s"
    and "\<bar>d\<bar> + int (length es) < 2 ^ 62"
  shows "both_track (0 < fold depth_after es d) (fold section_apply es s)"
  using assms
proof (induction es arbitrary: s d)
  case (Cons e es)
  have "\<bar>depth_after e d\<bar> \<le> \<bar>d\<bar> + 1"
    by (cases e) auto
  then show ?case
    using section_apply_depth [of s d e] Cons by simp
qed simp

text \<open>C17. Both trackers record exactly while more sections have been entered than left: after any
  sequence of \<^verbatim>\<open>enter\<close>, \<^verbatim>\<open>exit\<close> and \<^verbatim>\<open>exitAll\<close> calls from the initial state the trackers are on if and
  only if the nesting depth is positive (the unsigned counter wraps below 0 for it).\<close>

theorem sandbox_tracks_nested:
  assumes "length es < 2 ^ 61"
  shows "both_track (depth es > 0)
    (fold section_apply es (sandbox_init (memory_init dlsym sym_size) network_init))"
  unfolding depth_def
  by (rule fold_sections)
     (use assms in \<open>simp_all add: sandbox_init_def both_track_def memory_init_def reinitialize_def
        memory_fields_def network_init_def\<close>)

theorem sandbox_tracks_nested_witness:
  "both_track (depth [Enter, Enter, Exit] > 0)
    (fold section_apply [Enter, Enter, Exit] (sandbox_init (memory_init (\<lambda>_. 0) (\<lambda>_. 0)) network_init))
   \<and> depth [Enter, Enter, Exit] = 1"
  using sandbox_tracks_nested [of "[Enter, Enter, Exit]" "\<lambda>_. 0" "\<lambda>_. 0"] by (simp add: depth_def)

section \<open>Locked sections\<close>

lemma fold_not_tracking: "\<not> tracking m \<Longrightarrow> fold mem_apply es m = m"
proof (induction es)
  case (Cons e es)
  have "mem_apply e m = m"
    using Cons.prems by (cases e) (simp_all add: not_tracking_unchanged)
  then show ?case using Cons by simp
qed simp

text \<open>What the framework allocates, maps and frees between \<^verbatim>\<open>lock\<close> and \<^verbatim>\<open>unlock\<close> leaves no trace in
  the memory tracker, and no fatal error is raised in it.\<close>

theorem locked_section_invisible:
  assumes "m_locked (sb_memory s) \<noteq> size_max"
  shows "sb_unlock ((sb_lock s)\<lparr>sb_memory := fold mem_apply es (sb_memory (sb_lock s))\<rparr>) = s
    \<and> fst (mem_remove cs p (sb_memory (sb_lock s))) = Mem_done
    \<and> fst (mem_remove_mapped cs p sz (sb_memory (sb_lock s))) = Mem_done"
proof -
  have "m_locked (sb_memory s) + 1 \<noteq> 0"
    using assms by (metis add_eq_0_iff2)
  then have "\<not> tracking (sb_memory (sb_lock s))"
    by (simp add: tracking_def sb_lock_def mem_lock_def)
  then show ?thesis
    by (simp add: fold_not_tracking not_tracking_unchanged)
       (simp add: sb_lock_def sb_unlock_def mem_lock_def mem_unlock_def net_lock_def net_unlock_def)
qed

definition sample_sandbox :: sandbox where
  "sample_sandbox = \<lparr>sb_enabled = True, sb_counter = 0, sb_memory = sample_memory, sb_network = network_init\<rparr>"

theorem locked_section_invisible_witness:
  "sb_unlock ((sb_lock sample_sandbox)\<lparr>sb_memory := fold mem_apply [Track sample_stack 16 8, Remove sample_stack 24]
       (sb_memory (sb_lock sample_sandbox))\<rparr>) = sample_sandbox
    \<and> fst (mem_remove sample_stack 24 (sb_memory (sb_lock sample_sandbox))) = Mem_done
    \<and> fst (mem_remove_mapped sample_stack 24 8 (sb_memory (sb_lock sample_sandbox))) = Mem_done"
  by (rule locked_section_invisible) (simp add: sample_sandbox_def sample_memory_def memory_fields_def)

section \<open>Snapshots\<close>

fun events_ok :: "mem_event list \<Rightarrow> memory \<Rightarrow> bool" where
  "events_ok [] m \<longleftrightarrow> True"
| "events_ok (e # es) m \<longleftrightarrow> event_ok e m \<and> events_ok es (mem_apply e m)"

lemma events_inv: "mem_inv m \<Longrightarrow> events_ok es m \<Longrightarrow> mem_inv (fold mem_apply es m)"
  by (induction es arbitrary: m) (auto intro: mem_apply_inv)

lemma reset_max_inv [simp]:
  "mem_inv (reset_max_allocation m) = mem_inv m" "in_use (reset_max_allocation m) = in_use m"
  by (simp_all add: mem_inv_def in_use_def reset_max_allocation_def)

text \<open>The memory operations of a test between the two snapshots that a unit test takes.\<close>

definition measured :: "mem_event list \<Rightarrow> sandbox \<Rightarrow> resource_snapshot \<times> sandbox" where
  "measured es s =
    (case resourceSnapshot snapshot_init s of
       (sn, s) \<Rightarrow> resourceSnapshot sn (s\<lparr>sb_memory := fold mem_apply es (sb_memory s)\<rparr>))"

lemma measured_eq:
  fixes s :: sandbox and es :: "mem_event list"
  defines "m \<equiv> reset_max_allocation (sb_memory s)"
  defines "m' \<equiv> fold mem_apply es m"
  shows "measured es s = (\<lparr>rs_initialized = True,
      rs_allocate = \<lparr>q_size = m_alloc_size m' - m_alloc_size m, q_count = m_alloc_count m' - m_alloc_count m\<rparr>,
      rs_deallocate = \<lparr>q_size = m_free_size m' - m_free_size m, q_count = m_free_count m' - m_free_count m\<rparr>,
      rs_max = \<lparr>q_size = m_max_alloc m', q_count = m_max_count m'\<rparr>,
      rs_send = quantity_zero, rs_receive = quantity_zero\<rparr>, s\<lparr>sb_memory := m'\<rparr>)"
  by (simp add: measured_def resourceSnapshot_def snapshot_init_def quantity_zero_def m_def m'_def Let_def)

text \<open>C18. Between two snapshots the bytes and blocks reported allocated and deallocated differ by
  exactly what the test left behind: their differences are the growth of what is held, so equal
  quantities mean that there is no net leak.\<close>

theorem snapshot_balance:
  assumes "mem_inv (sb_memory s)" and "events_ok es (reset_max_allocation (sb_memory s))"
  shows "case measured es s of (sn, s') \<Rightarrow>
      q_size (rs_allocate sn) - q_size (rs_deallocate sn)
        = of_nat (in_use (sb_memory s')) - of_nat (in_use (sb_memory s))
    \<and> q_count (rs_allocate sn) - q_count (rs_deallocate sn)
        = of_nat (length (m_blocks (sb_memory s'))) - of_nat (length (m_blocks (sb_memory s)))"
proof -
  have "mem_inv (fold mem_apply es (reset_max_allocation (sb_memory s)))"
    using assms by (intro events_inv) simp_all
  then show ?thesis
    using assms(1) by (simp add: measured_eq mem_inv_def reset_max_allocation_def flip: diff_diff_eq)
      (simp add: algebra_simps)
qed

lemma sample_inv: "mem_inv sample_memory"
  using mem_start_inv [OF sample_start] ..

theorem snapshot_balance_witness:
  "case measured [Track sample_stack 16 8] sample_sandbox of (sn, s') \<Rightarrow>
      q_size (rs_allocate sn) - q_size (rs_deallocate sn)
        = of_nat (in_use (sb_memory s')) - of_nat (in_use (sb_memory sample_sandbox))
    \<and> q_count (rs_allocate sn) - q_count (rs_deallocate sn)
        = of_nat (length (m_blocks (sb_memory s'))) - of_nat (length (m_blocks (sb_memory sample_sandbox)))"
  by (rule snapshot_balance)
     (simp_all add: sample_sandbox_def sample_inv,
      simp add: sample_memory_def memory_fields_def reset_max_allocation_def um_find_def)

text \<open>The peaks never fall.\<close>

lemma mem_apply_count_peak:
  assumes "mem_inv m" and "event_ok e m"
  shows "m_max_count m \<le> m_max_count (mem_apply e m)"
  using assms
proof (cases rule: mem_apply_growth)
  case (grown m1)
  then show ?thesis by (simp add: update_peaks_def)
qed simp

lemma events_count_peak: "mem_inv m \<Longrightarrow> events_ok es m \<Longrightarrow> m_max_count m \<le> m_max_count (fold mem_apply es m)"
proof (induction es arbitrary: m)
  case (Cons e es)
  then show ?case
    using mem_apply_count_peak [of m e] mem_apply_inv [of m e] by (auto intro: order_trans)
qed simp

text \<open>Only the peak of the bytes is reset by a first snapshot: the peak of the number of blocks
  reported after it is never below the peak the thread had before, whatever the test did.\<close>

theorem snapshot_block_peak_kept:
  assumes "mem_inv (sb_memory s)" and "events_ok es (reset_max_allocation (sb_memory s))"
  shows "m_max_count (sb_memory s) \<le> q_count (rs_max (fst (measured es s)))
    \<and> q_count (rs_max (fst (measured [] s))) = m_max_count (sb_memory s)
    \<and> q_size (rs_max (fst (measured [] s))) = 0"
  using events_count_peak [OF _ assms(2)] assms(1)
  by (simp add: measured_eq) (simp add: reset_max_allocation_def)

theorem snapshot_block_peak_kept_witness:
  "m_max_count (sb_memory sample_sandbox) \<le> q_count (rs_max (fst (measured [Track sample_stack 16 8] sample_sandbox)))
    \<and> q_count (rs_max (fst (measured [] sample_sandbox))) = m_max_count (sb_memory sample_sandbox)
    \<and> q_size (rs_max (fst (measured [] sample_sandbox))) = 0"
  by (rule snapshot_block_peak_kept)
     (simp_all add: sample_sandbox_def sample_inv,
      simp add: sample_memory_def memory_fields_def reset_max_allocation_def um_find_def)

section \<open>Hooks\<close>

lemma mem_remove_locked: "m_locked (snd (mem_remove cs p m)) = m_locked m"
  by (cases "tracking m")
     (auto simp: mem_remove_eq not_tracking_unchanged tracking_def split: option.splits)

lemma mem_remove_mapped_locked: "m_locked (snd (mem_remove_mapped cs p sz m)) = m_locked m"
proof (cases "tracking m")
  case True
  obtain ptr sz' ob fs where "release_loop (p, sz, m_ordered m, m_free_size m) = (ptr, sz', ob, fs)"
    by (cases "release_loop (p, sz, m_ordered m, m_free_size m)") auto
  then show ?thesis
    using True by (simp add: mem_remove_mapped_eq)
qed (simp add: not_tracking_unchanged)

lemma with_tracker_end:
  assumes "\<And>m. m_locked (snd (f m)) = m_locked m"
  shows "case with_tracker sp tr f s of
      (Hook_returns, s') \<Rightarrow> s' = s\<lparr>sb_memory := snd (f (sb_memory s))\<rparr>
    | (Hook_throws e, s') \<Rightarrow> (\<exists>a. e = fatal_message sp tr a) \<and> both_track False s' \<and> sb_counter s' = 1
        \<and> m_locked (sb_memory s') = m_locked (sb_memory s)"
  using assms [of "sb_memory s"]
  by (auto simp: with_tracker_def sb_exitAll_def sb_track_def mem_track_activity_def both_track_def
      net_track_activity_def split: mem_outcome.splits prod.splits)

definition release_end :: "libc_release \<Rightarrow> sandbox \<Rightarrow> libc_release list \<times> hook_end \<times> sandbox \<Rightarrow> bool" where
  "release_end call s r \<longleftrightarrow>
    (case r of (calls, res, s') \<Rightarrow>
      m_locked (sb_memory s') = m_locked (sb_memory s)
      \<and> (if res = Hook_returns then calls = [call] \<and> sb_counter s' = sb_counter s
         else calls = [] \<and> both_track False s' \<and> sb_counter s' = 1))"

text \<open>When the tracker objects: it is on, the caller is no exception, and there is no block, or a byte that is not mapped.\<close>

lemma mem_remove_objects:
  "fst (mem_remove cs p m) = (if tracking m \<and> can_track_dealloc cs m \<and> um_find p (m_blocks m) = None then No_valid_block p else Mem_done)"
  by (cases "tracking m") (auto simp: mem_remove_eq not_tracking_unchanged fatal_outcome_def split: option.splits)

definition first_unmapped :: "addr \<Rightarrow> u64 \<Rightarrow> memory \<Rightarrow> addr \<Rightarrow> bool" where
  "first_unmapped p sz m b \<longleftrightarrow> unat b \<in> range_bytes p sz \<and> unat b \<notin> mapped_bytes (m_ordered m)
     \<and> {unat p ..< unat b} \<subseteq> mapped_bytes (m_ordered m)"

lemma mem_remove_mapped_objects:
  assumes "mem_inv m" and "range_ok p sz"
  shows "case fst (mem_remove_mapped cs p sz m) of
      Mem_done \<Rightarrow> \<not> tracking m \<or> \<not> can_track_dealloc cs m \<or> range_bytes p sz \<subseteq> mapped_bytes (m_ordered m)
    | No_valid_block b \<Rightarrow> tracking m \<and> can_track_dealloc cs m \<and> first_unmapped p sz m b"
proof (cases "tracking m")
  case True
  obtain p' sz' ob fs where loop: "release_loop (p, sz, m_ordered m, m_free_size m) = (p', sz', ob, fs)"
    by (cases "release_loop (p, sz, m_ordered m, m_free_size m)") auto
  from mem_inv_released [OF assms loop] obtain n where n: "n \<le> unat sz" "unat sz' = unat sz - n"
      "{unat p ..< unat p + n} \<subseteq> mapped_bytes (m_ordered m)" "sz' \<noteq> 0 \<Longrightarrow> unat p' = unat p + n"
      "sz' \<noteq> 0 \<Longrightarrow> unat p' \<notin> mapped_bytes (m_ordered m)"
    by metis
  note eq = mem_remove_mapped_eq [OF True loop, of cs]
  show ?thesis
  proof (cases "sz' = 0")
    case zero: True
    then have "n = unat sz"
      using n(1,2) by simp
    then show ?thesis
      using n(3) by (simp add: eq zero range_bytes_def)
  next
    case False
    then have "n < unat sz"
      using n(1,2) unat_pos_iff [of sz'] by simp
    then have "first_unmapped p sz m p'"
      using n(3) n(4,5) [OF False] by (simp add: first_unmapped_def range_bytes_def)
    then show ?thesis
      using False True by (simp add: eq fatal_outcome_def word_gt_0)
  qed
qed (simp add: not_tracking_unchanged)

text \<open>C19. A bad \<^verbatim>\<open>free\<close> or \<^verbatim>\<open>munmap\<close> is stopped before it happens. While the tracker is on and the caller is no
  exception, \<^verbatim>\<open>free\<close> of an address without a block throws, naming that address, and \<^verbatim>\<open>munmap\<close> of a range with a
  byte that is not mapped throws, naming the first such byte; nothing else throws. When the hook throws, the C
  library has not been called, both trackers are off, the nesting counter is back at its initial value and the
  thread is not left locked; otherwise the C library is called exactly once, with the arguments given.\<close>

theorem fatal_before_release:
  assumes "ptr \<noteq> tmp" and "mem_inv (sb_memory s)" and "range_ok a len"
  shows "release_end (Libc_free ptr) s (free_hook sp tr cs tmp ptr s)
    \<and> release_end (Libc_munmap a len) s (munmap_hook sp tr cs a len s)
    \<and> fst (snd (free_hook sp tr cs tmp ptr s))
      = (if ptr \<noteq> null_ptr \<and> tracking (sb_memory s) \<and> can_track_dealloc cs (sb_memory s) \<and> um_find ptr (m_blocks (sb_memory s)) = None
         then Hook_throws (fatal_message sp tr ptr) else Hook_returns)
    \<and> (if a \<noteq> null_ptr \<and> tracking (sb_memory s) \<and> can_track_dealloc cs (sb_memory s)
          \<and> \<not> range_bytes a len \<subseteq> mapped_bytes (m_ordered (sb_memory s))
       then \<exists>b. first_unmapped a len (sb_memory s) b \<and> fst (snd (munmap_hook sp tr cs a len s)) = Hook_throws (fatal_message sp tr b)
       else fst (snd (munmap_hook sp tr cs a len s)) = Hook_returns)"
proof -
  have free: "release_end c s (case with_tracker sp tr f s of
          (Hook_returns, s) \<Rightarrow> ([c], Hook_returns, s)
        | (Hook_throws e, s) \<Rightarrow> ([], Hook_throws e, s))"
    if "\<And>m. m_locked (snd (f m)) = m_locked m" for f c
    using with_tracker_end [where f = f and sp = sp and tr = tr and s = s, OF that] that [of "sb_memory s"]
    by (auto simp: release_end_def split: prod.splits hook_end.splits)
  have none: "release_end c s ([c], Hook_returns, s)" for c
    by (simp add: release_end_def)
  have throws: "fst (snd (case with_tracker sp tr f s of
          (Hook_returns, s) \<Rightarrow> ([c], Hook_returns, s)
        | (Hook_throws e, s) \<Rightarrow> ([], Hook_throws e, s)))
      = (case fst (f (sb_memory s)) of Mem_done \<Rightarrow> Hook_returns | No_valid_block b \<Rightarrow> Hook_throws (fatal_message sp tr b))"
    for f and c :: libc_release
    by (auto simp: with_tracker_def split: mem_outcome.splits prod.splits)
  have "fst (snd (free_hook sp tr cs tmp ptr s))
      = (if ptr \<noteq> null_ptr \<and> tracking (sb_memory s) \<and> can_track_dealloc cs (sb_memory s) \<and> um_find ptr (m_blocks (sb_memory s)) = None
         then Hook_throws (fatal_message sp tr ptr) else Hook_returns)"
    using assms(1) by (simp add: free_hook_def throws mem_remove_objects)
  moreover have "if a \<noteq> null_ptr \<and> tracking (sb_memory s) \<and> can_track_dealloc cs (sb_memory s)
          \<and> \<not> range_bytes a len \<subseteq> mapped_bytes (m_ordered (sb_memory s))
       then \<exists>b. first_unmapped a len (sb_memory s) b \<and> fst (snd (munmap_hook sp tr cs a len s)) = Hook_throws (fatal_message sp tr b)
       else fst (snd (munmap_hook sp tr cs a len s)) = Hook_returns"
    using mem_remove_mapped_objects [OF assms(2,3), of cs]
    by (auto simp: munmap_hook_def throws first_unmapped_def split: mem_outcome.splits)
  moreover have "release_end (Libc_free ptr) s (free_hook sp tr cs tmp ptr s)" "release_end (Libc_munmap a len) s (munmap_hook sp tr cs a len s)"
    using assms(1) free [OF mem_remove_locked] free [OF mem_remove_mapped_locked] none
    by (auto simp: free_hook_def munmap_hook_def)
  ultimately show ?thesis
    by (intro conjI)
qed

theorem fatal_before_release_witness:
  "fst (snd (free_hook (\<lambda>_. ''24'') [] sample_stack 8 24 sample_sandbox)) = Hook_throws (fatal_message (\<lambda>_. ''24'') [] 24)
    \<and> release_end (Libc_free 24) sample_sandbox (free_hook (\<lambda>_. ''24'') [] sample_stack 8 24 sample_sandbox)
    \<and> (\<exists>e. fst (snd (munmap_hook (\<lambda>_. []) [] sample_stack 24 9 sample_sandbox)) = Hook_throws e)"
proof -
  have s: "tracking (sb_memory sample_sandbox)" "can_track_dealloc sample_stack (sb_memory sample_sandbox)" "mem_inv (sb_memory sample_sandbox)"
      "um_find 24 (m_blocks (sb_memory sample_sandbox)) = None" "m_ordered (sb_memory sample_sandbox) = []"
    by (simp_all add: sample_sandbox_def sample_tracking sample_can_track sample_inv)
       (simp_all add: sample_memory_def memory_fields_def um_find_def)
  have r: "24 \<noteq> (8 :: addr)" "range_ok 24 9" "\<not> range_bytes 24 9 \<subseteq> mapped_bytes []"
    by (simp_all add: range_ok_def range_bytes_def mapped_bytes_def)
  note f = fatal_before_release [OF r(1) s(3) r(2), of "\<lambda>_. ''24''" "[]" sample_stack]
  note m = fatal_before_release [OF r(1) s(3) r(2), of "\<lambda>_. []" "[]" sample_stack]
  show ?thesis
    using f m s r(3) by (auto simp: s simp del: not_None_eq)
qed

text \<open>\<^verbatim>\<open>realloc(p, 0)\<close>, which frees the block and returns null, is not reported to the tracker: the
  block stays in its table, and when the C library hands the address out again the bytes are added to
  the counter although the table keeps the old size, so the accounts no longer hold.\<close>

theorem realloc_zero_untracked:
  assumes "tracking (sb_memory s)" and "can_track_alloc cs (sb_memory s)"
    and "mem_inv (sb_memory s)" and "um_find p (m_blocks (sb_memory s)) = Some al" and "p \<noteq> null_ptr"
    and "sz \<noteq> 0"
  shows "realloc_hook sp tr cs (\<lambda>_ _. null_ptr) p 0 s = (null_ptr, Hook_returns, s)
    \<and> (case malloc_hook cs (\<lambda>_. p) sz s of (q, s') \<Rightarrow>
         m_blocks (sb_memory s') = m_blocks (sb_memory s) \<and> \<not> mem_inv (sb_memory s'))"
proof -
  let ?m = "sb_memory s"
  have m': "mem_track cs p sz ?m = update_peaks (?m\<lparr>m_alloc_size := m_alloc_size ?m + sz,
      m_alloc_count := m_alloc_count ?m + 1\<rparr>)"
    using assms(2,4) by (simp add: mem_track_eq [OF assms(1)] um_insert_def)
  have "\<not> mem_inv (mem_track cs p sz ?m)"
  proof
    assume "mem_inv (mem_track cs p sz ?m)"
    then have "m_alloc_size ?m + sz - m_free_size ?m = of_nat (in_use ?m)"
      unfolding m' mem_inv_update_peaks by (simp add: mem_inv_def in_use_def)
    moreover have "m_alloc_size ?m - m_free_size ?m = of_nat (in_use ?m)"
      using assms(3) by (simp add: mem_inv_def)
    ultimately show False
      using assms(6) by (simp add: algebra_simps)
  qed
  then show ?thesis
    using assms(5) by (simp add: realloc_hook_def realloc_with_def malloc_hook_def alloc_hook_def m')
qed

definition sample_heap :: sandbox where
  "sample_heap = snd (malloc_hook sample_stack (\<lambda>_. 16) 10 sample_sandbox)"

lemma sample_heap_memory: "sb_memory sample_heap = sample_memory\<lparr>m_blocks := [(16, \<lparr>asize = 10, acalls = sample_stack\<rparr>)],
      m_alloc_size := 10, m_alloc_count := 1, m_max_alloc := 10, m_max_count := 1\<rparr>"
  using sample_step1 by (simp add: sample_heap_def malloc_hook_def alloc_hook_def sample_sandbox_def)

theorem realloc_zero_untracked_witness:
  "realloc_hook (\<lambda>_. []) [] sample_stack (\<lambda>_ _. null_ptr) 16 0 sample_heap = (null_ptr, Hook_returns, sample_heap)
    \<and> (case malloc_hook sample_stack (\<lambda>_. 16) 32 sample_heap of (q, s') \<Rightarrow>
         m_blocks (sb_memory s') = m_blocks (sb_memory sample_heap) \<and> \<not> mem_inv (sb_memory s'))"
proof (rule realloc_zero_untracked)
  show "tracking (sb_memory sample_heap)" "can_track_alloc sample_stack (sb_memory sample_heap)"
    using sample_tracking sample_can_track by (simp_all add: sample_heap_memory tracking_def can_track_alloc_def)
  have "mem_inv (mem_apply (Track sample_stack 16 10) sample_memory)"
    by (rule mem_apply_inv [OF sample_inv]) (simp add: um_find_def sample_memory_def memory_fields_def)
  then show "mem_inv (sb_memory sample_heap)"
    unfolding sample_heap_memory sample_step1 .
  show "um_find 16 (m_blocks (sb_memory sample_heap)) = Some \<lparr>asize = 10, acalls = sample_stack\<rparr>"
    by (simp add: sample_heap_memory um_find_def)
qed simp_all

text \<open>\<^verbatim>\<open>munmap\<close> takes lengths that are not multiples of the page size, and so does \<^verbatim>\<open>mmap\<close>; the
  tracker takes them literally. A mapping of \<open>len\<close> bytes that is unmapped with its length rounded up to
  \<open>len2\<close> is a fatal error, and the region stays mapped.\<close>

theorem munmap_rounded_fatal:
  assumes "tracking (sb_memory s)" and "can_track_alloc cs (sb_memory s)" and "can_track_dealloc cs (sb_memory s)"
    and "m_ordered (sb_memory s) = []" and "p \<noteq> null_ptr" and "p \<noteq> size_max"
    and "0 < len" and "len < len2" and "range_ok p len2"
  shows "\<exists>s'. munmap_hook sp tr cs p len2 (snd (mmap_hook cs p len s))
    = ([], Hook_throws (fatal_message sp tr (p + len)), s')"
proof -
  let ?m = "sb_memory s" and ?al = "\<lparr>asize = len, acalls = cs\<rparr>" and ?k = "p + len - 1"
  define m1 where "m1 = mem_track_mapped cs p len ?m"
  have m1: "m_ordered m1 = [(?k, ?al)]" "tracking m1" "can_track_dealloc cs m1"
    using assms(1-4) by (auto simp: m1_def mem_track_mapped_eq tracking_def can_track_dealloc_def update_peaks_def)
  have ends: "unat ?k = unat p + unat len - 1" "0 < unat len"
  proof -
    have "len \<noteq> 0" "unat p + unat len \<le> 2 ^ 64"
      using assms(7-9) by (auto simp: range_ok_def word_less_unat)
    then show "unat ?k = unat p + unat len - 1"
      by (rule unat_start_plus_size)
    show "0 < unat len"
      unfolding unat_pos_iff by fact
  qed
  then have "p \<le> ?k"
    unfolding word_le_unat by linarith
  moreover have "?k - len + 1 = p"
    by simp
  ultimately have step: "release_step (p, len2, [(?k, ?al)], fs) = Some (p + len, len2 - len, [], fs + len)" for fs
    using assms(8) by (simp add: release_step_def um_erase_def)
  have rest: "len2 - len > 0"
    using assms(8) by (simp add: word_gt_0)
  have "release_loop (p, len2, [(?k, ?al)], fs) = (p + len, len2 - len, [], fs + len)" for fs
    using assms(7,8) rest by (simp add: release_loop.simps [of p] release_loop.simps [of "p + len"] step
        release_step_def [of "(p + len, x)" for x])
  from mem_remove_mapped_eq [OF m1(2), unfolded m1(1), OF this, of cs] rest m1(3)
  obtain m2 where "mem_remove_mapped cs p len2 m1 = (No_valid_block (p + len), m2)"
    by (auto simp: fatal_outcome_def)
  then show ?thesis
    using assms(5,6) by (simp add: munmap_hook_def mmap_hook_def with_tracker_def flip: m1_def)
qed

theorem munmap_rounded_fatal_witness:
  "\<exists>s'. munmap_hook (\<lambda>_. []) [] sample_stack 4096 4096 (snd (mmap_hook sample_stack 4096 100 sample_sandbox))
    = ([], Hook_throws (fatal_message (\<lambda>_. []) [] (4096 + 100)), s')"
  by (rule munmap_rounded_fatal)
     (simp_all add: sample_sandbox_def sample_tracking sample_can_track range_ok_def,
      simp add: sample_memory_def memory_fields_def)

end
