(* ===== verification/Test.thy ===== *)
theory Test
  imports Sandbox Util Message
begin

text \<open>
  Tests and their registry: \<^verbatim>\<open>class Test\<close> of \<^verbatim>\<open>include/dtest_core/test.h\<close> and the parts of \<^verbatim>\<open>src/test.cpp\<close>
  that create, configure, skip and run one test. The virtual functions of the subclasses and the
  operations of the driver's context are the fields of a record of functions over a context state \<open>'s\<close>.
\<close>

section \<open>State\<close>

datatype status = PASS | SKIP | PASS_WITH_MEMORY_LEAK | MEMORY_LIMIT_EXCEEDED | TOO_SLOW | TIMEOUT
  | FAIL | PENDING

fun status_code :: "status \<Rightarrow> nat" where
  "status_code PASS = 0"
| "status_code SKIP = 1"
| "status_code PASS_WITH_MEMORY_LEAK = 2"
| "status_code MEMORY_LIMIT_EXCEEDED = 3"
| "status_code TOO_SLOW = 4"
| "status_code TIMEOUT = 5"
| "status_code FAIL = 6"
| "status_code PENDING = 7"

lemma status_code_inject: "status_code a = status_code b \<longleftrightarrow> a = b"
  by (cases a; cases b) simp_all

text \<open>The comparison of enumerators is that of their values.\<close>

instantiation status :: linorder
begin

definition less_eq_status :: "status \<Rightarrow> status \<Rightarrow> bool" where
  "less_eq_status a b = (status_code a \<le> status_code b)"

definition less_status :: "status \<Rightarrow> status \<Rightarrow> bool" where
  "less_status a b = (status_code a < status_code b)"

instance
proof
  fix a b :: status
  show "a \<le> b \<Longrightarrow> b \<le> a \<Longrightarrow> a = b"
    by (simp add: less_eq_status_def flip: status_code_inject)
qed (auto simp: less_eq_status_def less_status_def)

end

definition status_strings :: "string list" where
  "status_strings =
    [''PASS'', ''SKIP'', ''PASS (memory leak)'', ''PASS (memory limit exceeded)'', ''TOO SLOW'',
     ''TIMEOUT'', ''FAIL'', ''PENDING'']"

definition statusString :: "status \<Rightarrow> string" where
  "statusString s = status_strings ! status_code s"

definition status_strings_past :: "string list" where
  "status_strings_past =
    [''PASSED'', ''SKIPPED'', ''PASSED (memory leak)'', ''PASSED (memory limit exceeded)'', ''TOO SLOW'',
     ''TIMED OUT'', ''FAILED'', ''PENDING'']"

text \<open>What a run changes of a test, and the test. Sets of strings are lists without repetition.\<close>

record run_state =
  r_status :: status
  r_child_status :: "status list"
  r_child_reports :: "string list"
  r_resources :: resource_snapshot
  r_errors :: "string list"
  r_workers :: u16

record test =
  t_module :: string
  t_name :: string
  t_deps :: "string list"
  t_remaining :: "string list"
  t_enabled :: bool
  t_success :: bool
  t_expected :: status
  t_report :: string
  t_run :: run_state

definition run_state_init :: run_state where
  "run_state_init =
    \<lparr>r_status = PENDING, r_child_status = [], r_child_reports = [], r_resources = snapshot_init,
     r_errors = [], r_workers = 0\<rparr>"

definition set_insert :: "'a \<Rightarrow> 'a list \<Rightarrow> 'a list" where
  "set_insert x xs = (if x \<in> set xs then xs else xs @ [x])"

section \<open>The registry\<close>

record registry =
  reg_tests :: "(string, test list) umap"
  reg_global :: "(string, string list) umap"

text \<open>\<^verbatim>\<open>__tests[module]\<close>: the list of a module, created empty when there is none.\<close>

definition module_tests :: "string \<Rightarrow> (string, test list) umap \<Rightarrow> test list" where
  "module_tests m ts = (case um_find m ts of None \<Rightarrow> [] | Some l \<Rightarrow> l)"

definition test_new :: "string \<Rightarrow> string \<Rightarrow> string list \<Rightarrow> test" where
  "test_new m name deps =
    \<lparr>t_module = m, t_name = name, t_deps = deps, t_remaining = [], t_enabled = True, t_success = False,
     t_expected = PASS, t_report = [], t_run = run_state_init\<rparr>"

text \<open>The constructor registers the new test in its module.\<close>

definition register_test :: "string \<Rightarrow> string \<Rightarrow> registry \<Rightarrow> registry" where
  "register_test m name r =
    (let deps = (case um_find m (reg_global r) of None \<Rightarrow> [] | Some d \<Rightarrow> d)
     in r\<lparr>reg_tests := um_set m (module_tests m (reg_tests r) @ [test_new m name deps]) (reg_tests r)\<rparr>)"

definition dependsOn :: "string list \<Rightarrow> test \<Rightarrow> test" where
  "dependsOn ds t = t\<lparr>t_deps := fold set_insert ds (t_deps t)\<rparr>"

definition expect :: "status \<Rightarrow> test \<Rightarrow> test" where
  "expect s t = t\<lparr>t_expected := s\<rparr>"

definition disable :: "test \<Rightarrow> test" where
  "disable t = t\<lparr>t_enabled := False\<rparr>"

definition enable :: "test \<Rightarrow> test" where
  "enable t = t\<lparr>t_enabled := True\<rparr>"

text \<open>A configuration call on the \<open>i\<close>-th registered test of a module.\<close>

definition configure_test :: "(test \<Rightarrow> test) \<Rightarrow> string \<Rightarrow> nat \<Rightarrow> registry \<Rightarrow> registry" where
  "configure_test f m i r =
    (let l = module_tests m (reg_tests r)
     in if i < length l then r\<lparr>reg_tests := um_set m (l[i := f (l ! i)]) (reg_tests r)\<rparr> else r)"

definition setGlobalModuleDependencies :: "string \<Rightarrow> string list \<Rightarrow> registry \<Rightarrow> registry" where
  "setGlobalModuleDependencies m ds r =
    r\<lparr>reg_global := um_set m (fold set_insert ds []) (reg_global r),
      reg_tests := um_set m (map (dependsOn ds) (module_tests m (reg_tests r))) (reg_tests r)\<rparr>"

section \<open>Running one test\<close>

record 's test_ops =
  op_driverRun :: "test \<Rightarrow> 's \<Rightarrow> run_state \<times> 's"
  op_workerRun :: "test \<Rightarrow> 's \<Rightarrow> run_state \<times> 's"
  op_distributed :: "test \<Rightarrow> bool"
  op_report :: "bool \<Rightarrow> test \<Rightarrow> string"
  op_allocateWorkers :: "u16 \<Rightarrow> 's \<Rightarrow> u32 list \<times> 's"
  op_run :: "test \<Rightarrow> 's \<Rightarrow> 's"
  op_join :: "run_state \<Rightarrow> 's \<Rightarrow> run_state \<times> 's"
  op_deallocateWorkers :: "u32 list \<Rightarrow> 's \<Rightarrow> 's"

definition test_skip :: "test \<Rightarrow> test" where
  "test_skip t = t\<lparr>t_run := (t_run t)\<lparr>r_status := SKIP\<rparr>, t_success := True\<rparr>"

text \<open>\<^verbatim>\<open>_run\<close>: \<open>is_driver\<close> is \<^verbatim>\<open>_isDriver\<close>, \<open>default_workers\<close> is \<^verbatim>\<open>_defaultNumWorkers\<close>.\<close>

definition test_run :: "'s test_ops \<Rightarrow> bool \<Rightarrow> u16 \<Rightarrow> test \<Rightarrow> 's \<Rightarrow> test \<times> 's" where
  "test_run ops is_driver default_workers t s =
    (if t_enabled t then
       (let (t, s) =
          (if is_driver then
             (if op_distributed ops t then
                (let t = (if r_workers (t_run t) = 0
                          then t\<lparr>t_run := (t_run t)\<lparr>r_workers := default_workers\<rparr>\<rparr> else t);
                     (extra, s) = op_allocateWorkers ops (r_workers (t_run t)) s;
                     s = op_run ops t s;
                     (rs, s) = op_driverRun ops t s;
                     (rs, s) = op_join ops rs s;
                     s = op_deallocateWorkers ops extra s
                 in (t\<lparr>t_run := rs\<rparr>, s))
              else (let (rs, s) = op_driverRun ops t s in (t\<lparr>t_run := rs\<rparr>, s)))
           else (let (rs, s) = op_workerRun ops t s in (t\<lparr>t_run := rs\<rparr>, s)));
            t = t\<lparr>t_success := (r_status (t_run t) = t_expected t)\<rparr>
        in (t\<lparr>t_report := op_report ops is_driver t\<rparr>, s))
     else (test_skip t, s))"

text \<open>\<^verbatim>\<open>_errorReport\<close>; the list of errors as JSON.\<close>

fun error_items :: "nat \<Rightarrow> string list \<Rightarrow> string" where
  "error_items i [] = []"
| "error_items i (e # es) =
    (if i > 0 then '','' else []) @ [NL] @ indent (jsonify e) 2 @ error_items (i + 1) es"

definition errorReport :: "string list \<Rightarrow> string" where
  "errorReport errors =
    (if errors \<noteq> [] then [DQ] @ ''errors'' @ [DQ] @ '': ['' @ error_items 0 errors @ [NL] @ '']''
     else [])"

section \<open>Facts\<close>

lemma set_set_insert [simp]: "set (set_insert x xs) = insert x (set xs)"
  by (auto simp: set_insert_def)

lemma distinct_set_insert [simp]: "distinct (set_insert x xs) = distinct xs"
  by (auto simp: set_insert_def)

lemma set_fold_set_insert [simp]: "set (fold set_insert ds xs) = set ds \<union> set xs"
  by (induction ds arbitrary: xs) auto

lemma distinct_fold_set_insert [simp]: "distinct (fold set_insert ds xs) = distinct xs"
  by (induction ds arbitrary: xs) auto

lemma test_run_frame:
  "t_module (fst (test_run ops drv n t s)) = t_module t"
  "t_deps (fst (test_run ops drv n t s)) = t_deps t"
  by (simp_all add: test_run_def test_skip_def Let_def split: prod.split)

end
