(* ===== verification/Scheduler.thy ===== *)
theory Scheduler
  imports Test
begin

text \<open>
  \<^verbatim>\<open>Test::runAll\<close> of \<^verbatim>\<open>src/test.cpp\<close>: the tests are copied, those without dependencies are ready, the
  others wait until every module they depend on has completed; the log is written as the tests finish.
  The copies live in a store \<open>s_heap\<close> under an identity; \<^verbatim>\<open>delete\<close> removes the copy from it and a use of a
  copy that is not there is \<open>None\<close>. \<open>s_finished\<close> is the history of the tests that were run and deleted,
  in order: the code does not keep it, it only serves to state what happened. The progress printed to
  the standard error stream is left out.
\<close>

section \<open>State\<close>

record sched =
  s_heap :: "(nat, test) umap"
  s_ready :: "nat list"
  s_blocked :: "(string, nat list) umap"
  s_remaining :: "(string, nat list) umap"
  s_total :: u64
  s_run :: u64
  s_skipped :: u64
  s_succeeded :: u64
  s_success :: bool
  s_first_log :: bool
  s_expected :: "(status, u32) umap"
  s_unexpected :: "(status, u32) umap"
  s_out :: string
  s_finished :: "(nat \<times> test) list"

definition sched_empty :: sched where
  "sched_empty =
    \<lparr>s_heap = [], s_ready = [], s_blocked = [], s_remaining = [], s_total = 0, s_run = 0, s_skipped = 0,
     s_succeeded = 0, s_success = True, s_first_log = True, s_expected = [], s_unexpected = [],
     s_out = [], s_finished = []\<rparr>"

section \<open>Preparation\<close>

text \<open>\<^verbatim>\<open>m[k]\<close> for a map to lists.\<close>

definition ids_of :: "string \<Rightarrow> (string, nat list) umap \<Rightarrow> nat list" where
  "ids_of k m = (case um_find k m of None \<Rightarrow> [] | Some l \<Rightarrow> l)"

definition block_on :: "nat \<Rightarrow> string \<Rightarrow> (string, nat list) umap \<Rightarrow> (string, nat list) umap" where
  "block_on i dep b = um_set dep (ids_of dep b @ [i]) b"

definition sched_add :: "nat \<Rightarrow> test \<Rightarrow> sched \<Rightarrow> sched" where
  "sched_add i t s =
    (let s = (if t_deps t = []
              then s\<lparr>s_heap := s_heap s @ [(i, t)], s_ready := s_ready s @ [i]\<rparr>
              else s\<lparr>s_heap := s_heap s @ [(i, t\<lparr>t_remaining := t_deps t\<rparr>)],
                     s_blocked := fold (block_on i) (t_deps t) (s_blocked s)\<rparr>)
     in s\<lparr>s_remaining := um_set (t_module t) (set_insert i (ids_of (t_module t) (s_remaining s))) (s_remaining s)\<rparr>)"

fun sched_add_all :: "nat \<Rightarrow> test list \<Rightarrow> sched \<Rightarrow> sched" where
  "sched_add_all i [] s = s"
| "sched_add_all i (t # ts) s = sched_add_all (i + 1) ts (sched_add i t s)"

text \<open>The tests in the order in which the loops over \<^verbatim>\<open>__tests\<close> visit them.\<close>

definition all_tests :: "(string, test list) umap \<Rightarrow> test list" where
  "all_tests mods = concat (map snd mods)"

definition sched_prepare :: "(string, test list) umap \<Rightarrow> sched" where
  "sched_prepare mods =
    sched_add_all 0 (all_tests mods)
      (sched_empty\<lparr>s_total := sum_list (map (\<lambda>m. of_nat (length (snd m))) mods)\<rparr>)"

section \<open>The log\<close>

definition quoted :: "string \<Rightarrow> string" where
  "quoted s = [DQ] @ s @ [DQ]"

definition bool_text :: "bool \<Rightarrow> string" where
  "bool_text b = (if b then ''true'' else ''false'')"

text \<open>An empty value has the terminating NUL as its first character.\<close>

definition log_config :: "(string \<times> string) list \<Rightarrow> string" where
  "log_config config =
    ''{\<newline>''
    @ concat (map (\<lambda>(k, v).
        ''  '' @ quoted k @ '': ''
        @ (if v = [] \<or> hd v \<noteq> CHR ''['' \<and> hd v \<noteq> CHR ''{'' then quoted v else v) @ '',\<newline>'') config)
    @ ''  '' @ quoted ''tests'' @ '': {''"

fun log_workers :: "nat \<Rightarrow> (status \<times> string) list \<Rightarrow> string" where
  "log_workers i [] = []"
| "log_workers i ((st, rep) # ws) =
    (if i > 0 then '','' else [])
    @ ''\<newline>        {''
    @ ''\<newline>          '' @ quoted ''status'' @ '': '' @ quoted (statusString st) @ '',''
    @ ''\<newline>          '' @ quoted ''report'' @ '': {\<newline>'' @ indent rep 12
    @ ''\<newline>          }''
    @ ''\<newline>        }''
    @ log_workers (i + 1) ws"

definition log_test :: "bool \<Rightarrow> u64 \<Rightarrow> test \<Rightarrow> string" where
  "log_test first i t =
    (if first then [] else '','')
    @ ''\<newline>    '' @ quoted (t_module t @ ''::'' @ t_name t) @ '': {''
    @ (if t_deps t \<noteq> [] then ''\<newline>      '' @ quoted ''dependencies'' @ '': '' @ jsonify_container (t_deps t) 6 @ '',''
       else [])
    @ ''\<newline>      '' @ quoted ''i'' @ '': '' @ show_u64 i @ '',''
    @ ''\<newline>      '' @ quoted ''success'' @ '': '' @ bool_text (t_success t) @ '',''
    @ ''\<newline>      '' @ quoted ''status'' @ '': '' @ quoted (statusString (r_status (t_run t))) @ '',''
    @ ''\<newline>      '' @ quoted ''report'' @ '': {\<newline>'' @ indent (t_report t) 8
    @ ''\<newline>      }''
    @ (if r_child_status (t_run t) \<noteq> [] then
         '',\<newline>      '' @ quoted ''workers'' @ '': [''
         @ log_workers 0 (zip (r_child_status (t_run t)) (r_child_reports (t_run t)))
         @ ''\<newline>      ]''
       else [])
    @ ''\<newline>    }''"

fun log_statuses :: "nat \<Rightarrow> (status \<times> u32) list \<Rightarrow> string" where
  "log_statuses i [] = []"
| "log_statuses i ((st, n) # rs) =
    (if i > 0 then '','' else [])
    @ ''\<newline>      '' @ quoted (status_strings_past ! status_code st) @ '': '' @ show_nat (unat n)
    @ log_statuses (i + 1) rs"

definition log_summary :: "sched \<Rightarrow> string" where
  "log_summary s =
    (let failed = s_run s - s_succeeded s in
     ''\<newline>  }''
     @ '',\<newline>  '' @ quoted ''summary'' @ '': {''
     @ (if s_succeeded s > 0 then
          ''\<newline>    '' @ quoted ''nominal'' @ '': {'' @ log_statuses 0 (s_expected s) @ ''\<newline>    }''
          @ (if failed > 0 then '','' else [])
        else [])
     @ (if failed > 0 then
          ''\<newline>    '' @ quoted ''unexpected'' @ '': {'' @ log_statuses 0 (s_unexpected s) @ ''\<newline>    }''
        else [])
     @ ''\<newline>  }''
     @ ''\<newline>}\<newline>'')"

section \<open>One test\<close>

text \<open>The loop over the tests blocked on a completed module: the identities to insert at the front.\<close>

fun unblock :: "string \<Rightarrow> nat list \<Rightarrow> (nat, test) umap \<Rightarrow> (nat list \<times> (nat, test) umap) option" where
  "unblock m [] heap = Some ([], heap)"
| "unblock m (i # is) heap =
    (case um_find i heap of
       None \<Rightarrow> None
     | Some t \<Rightarrow>
         let t = t\<lparr>t_remaining := filter (\<lambda>d. d \<noteq> m) (t_remaining t)\<rparr> in
         (case unblock m is (um_set i t heap) of
            None \<Rightarrow> None
          | Some (ins, heap) \<Rightarrow> Some (if t_remaining t = [] then i # ins else ins, heap)))"

definition status_incr :: "status \<Rightarrow> (status, u32) umap \<Rightarrow> (status, u32) umap" where
  "status_incr st m = um_set st ((case um_find st m of None \<Rightarrow> 0 | Some n \<Rightarrow> n) + 1) m"

text \<open>A successful test leaves its module's list; the last one unblocks.\<close>

definition sched_succeeded :: "nat \<Rightarrow> test \<Rightarrow> sched \<Rightarrow> sched option" where
  "sched_succeeded i t s =
    (case um_find (t_module t) (s_remaining s) of
       None \<Rightarrow> None
     | Some r \<Rightarrow>
         let r = filter (\<lambda>j. j \<noteq> i) r;
             s = s\<lparr>s_remaining := um_set (t_module t) r (s_remaining s)\<rparr> in
         (case (if r = [] then
                  (case um_find (t_module t) (s_blocked s) of
                     None \<Rightarrow> Some ([], s_heap s)
                   | Some bl \<Rightarrow> unblock (t_module t) bl (s_heap s))
                else Some ([], s_heap s)) of
            None \<Rightarrow> None
          | Some (ins, heap) \<Rightarrow>
              Some (s\<lparr>s_ready := ins @ s_ready s, s_heap := heap,
                      s_succeeded := s_succeeded s + 1,
                      s_expected := status_incr (r_status (t_run t)) (s_expected s)\<rparr>)))"

definition sched_log :: "test \<Rightarrow> sched \<Rightarrow> sched" where
  "sched_log t s =
    (if r_status (t_run t) = SKIP then s\<lparr>s_skipped := s_skipped s + 1\<rparr>
     else s\<lparr>s_out := s_out s @ log_test (s_first_log s) (s_run s) t, s_first_log := False\<rparr>)"

definition sched_finish :: "nat \<Rightarrow> test \<Rightarrow> sched \<Rightarrow> sched option" where
  "sched_finish i t s =
    (let s = sched_log t (s\<lparr>s_heap := um_set i t (s_heap s)\<rparr>) in
     (case (if t_success t then sched_succeeded i t s
            else Some (s\<lparr>s_success := False,
                         s_unexpected := status_incr (r_status (t_run t)) (s_unexpected s)\<rparr>)) of
        None \<Rightarrow> None
      | Some s \<Rightarrow>
          Some (s\<lparr>s_run := s_run s + 1, s_heap := um_erase i (s_heap s),
                  s_finished := s_finished s @ [(i, t)]\<rparr>)))"

definition sched_step :: "(test \<Rightarrow> 's \<Rightarrow> test \<times> 's) \<Rightarrow> string list \<Rightarrow> nat \<Rightarrow> sched \<Rightarrow> 's \<Rightarrow> (sched \<times> 's) option" where
  "sched_step run modules i s c =
    (case um_find i (s_heap s) of
       None \<Rightarrow> None
     | Some t \<Rightarrow>
         (case (if modules = [] \<or> t_module t \<in> set modules then run t c else (test_skip t, c)) of
            (t, c) \<Rightarrow> map_option (\<lambda>s. (s, c)) (sched_finish i t s)))"

section \<open>The whole run\<close>

text \<open>Each iteration deletes one copy.\<close>

lemma um_set_present_keys: "um_find k m \<noteq> None \<Longrightarrow> map fst (um_set k v m) = map fst m"
  by (induction m) (auto simp: um_find_def split: if_splits)

lemma unblock_ConsE:
  assumes "unblock m (i # is) heap = Some (ins, heap')"
  obtains t ins' where "um_find i heap = Some t"
    "unblock m is (um_set i (t\<lparr>t_remaining := filter (\<lambda>d. d \<noteq> m) (t_remaining t)\<rparr>) heap) = Some (ins', heap')"
    "ins = (if filter (\<lambda>d. d \<noteq> m) (t_remaining t) = [] then i # ins' else ins')"
  using assms by (auto simp: Let_def split: option.splits prod.splits simp del: filter_empty_conv)

lemma unblock_keys: "unblock m is heap = Some (ins, heap') \<Longrightarrow> map fst heap' = map fst heap"
proof (induction "is" arbitrary: ins heap)
  case (Cons i "is")
  from Cons.prems show ?case
    by (rule unblock_ConsE) (use Cons.IH in \<open>simp add: um_set_present_keys\<close>)
qed simp

lemma sched_log_frame [simp]:
  "s_heap (sched_log t s) = s_heap s" "s_ready (sched_log t s) = s_ready s"
  "s_blocked (sched_log t s) = s_blocked s" "s_remaining (sched_log t s) = s_remaining s"
  "s_finished (sched_log t s) = s_finished s" "s_run (sched_log t s) = s_run s"
  "s_succeeded (sched_log t s) = s_succeeded s" "s_success (sched_log t s) = s_success s"
  "s_total (sched_log t s) = s_total s" "s_expected (sched_log t s) = s_expected s"
  "s_unexpected (sched_log t s) = s_unexpected s"
  by (simp_all add: sched_log_def)

lemma sched_succeeded_keys: "sched_succeeded i t s = Some s' \<Longrightarrow> map fst (s_heap s') = map fst (s_heap s)"
  by (auto simp: sched_succeeded_def Let_def split: option.splits if_splits dest: unblock_keys)

lemma sched_finish_keys:
  assumes "sched_finish i t s = Some s'" and "um_find i (s_heap s) = Some t0"
  shows "\<exists>h. s_heap s' = um_erase i h \<and> map fst h = map fst (s_heap s)"
  using assms
  by (auto simp: sched_finish_def Let_def um_set_present_keys dest!: sched_succeeded_keys
      split: option.splits if_splits)

lemma sched_step_shrinks:
  assumes "sched_step run modules i s c = Some (s', c')"
  shows "length (s_heap s') < length (s_heap s)"
proof -
  obtain t where t: "um_find i (s_heap s) = Some t"
    using assms by (auto simp: sched_step_def split: option.splits)
  then obtain t' where "sched_finish i t' s = Some s'"
    using assms by (auto simp: sched_step_def split: prod.splits if_splits)
  then obtain h where h: "s_heap s' = um_erase i h" "map fst h = map fst (s_heap s)"
    using sched_finish_keys t by blast
  then have "i \<in> fst ` set h"
    using t by (metis map_of_SomeD um_find_def fst_conv image_eqI list.set_map)
  then show ?thesis
    using h by (metis (no_types, lifting) um_erase_shorter length_map imageE prod.collapse)
qed

function sched_loop :: "(test \<Rightarrow> 's \<Rightarrow> test \<times> 's) \<Rightarrow> string list \<Rightarrow> sched \<Rightarrow> 's \<Rightarrow> (sched \<times> 's) option" where
  "sched_loop run modules s c =
    (case s_ready s of
       [] \<Rightarrow> Some (s, c)
     | i # rest \<Rightarrow>
         (case sched_step run modules i (s\<lparr>s_ready := rest\<rparr>) c of
            None \<Rightarrow> None
          | Some (s, c) \<Rightarrow> sched_loop run modules s c))"
  by pat_completeness auto
termination
  by (relation "measure (\<lambda>(run, modules, s, c). length (s_heap s))")
     (auto dest: sched_step_shrinks)

declare sched_loop.simps [simp del]

text \<open>\<^verbatim>\<open>runAll\<close>: the result, the final state (with the log) and the context.\<close>

definition runAll :: "(test \<Rightarrow> 's \<Rightarrow> test \<times> 's) \<Rightarrow> (string \<times> string) list \<Rightarrow> string list \<Rightarrow>
    (string, test list) umap \<Rightarrow> 's \<Rightarrow> (bool \<times> sched \<times> 's) option" where
  "runAll run config modules mods c =
    (let s = sched_prepare mods;
         s = s\<lparr>s_out := log_config config\<rparr>
     in (case sched_loop run modules s c of
           None \<Rightarrow> None
         | Some (s, c) \<Rightarrow> Some (s_success s, s\<lparr>s_out := s_out s @ log_summary s\<rparr>, c)))"

end
