(* ===== verification/Scheduler_Inv.thy ===== *)
theory Scheduler_Inv
  imports Scheduler
begin

text \<open>
  The invariant of the scheduler. With respect to the history of finished tests, a module is complete
  when it has a test and all its tests have finished successfully; the queue holds exactly the tests
  that have not run and whose dependencies are all complete, and every copy not yet run is in the store.
  The contract of running a test is the locale \<open>test_runner\<close>.
\<close>

section \<open>Specification\<close>

definition succeeded :: "(nat \<times> test) list \<Rightarrow> nat set" where
  "succeeded fin = {i. \<exists>t. (i, t) \<in> set fin \<and> t_success t}"

definition complete :: "test list \<Rightarrow> (nat \<times> test) list \<Rightarrow> string \<Rightarrow> bool" where
  "complete T fin m \<longleftrightarrow> (\<exists>i < length T. t_module (T ! i) = m)
     \<and> (\<forall>i < length T. t_module (T ! i) = m \<longrightarrow> i \<in> succeeded fin)"

definition can_start :: "test list \<Rightarrow> (nat \<times> test) list \<Rightarrow> nat \<Rightarrow> bool" where
  "can_start T fin i \<longleftrightarrow> (\<forall>d \<in> set (t_deps (T ! i)). complete T fin d)"

definition ordered_run :: "test list \<Rightarrow> (nat \<times> test) list \<Rightarrow> bool" where
  "ordered_run T fin \<longleftrightarrow> (\<forall>k < length fin. can_start T (take k fin) (fst (fin ! k)))"

lemma succeeded_append [simp]: "succeeded (fin @ [(i, t)]) = (if t_success t then insert i (succeeded fin) else succeeded fin)"
  by (auto simp: succeeded_def)

lemma succeeded_Nil [simp]: "succeeded [] = {}"
  by (simp add: succeeded_def)

lemma succeeded_finished: "succeeded fin \<subseteq> fst ` set fin"
  by (force simp: succeeded_def)

lemma complete_mono: "complete T fin m \<Longrightarrow> succeeded fin \<subseteq> succeeded fin' \<Longrightarrow> complete T fin' m"
  by (auto simp: complete_def)

lemma succeeded_take: "succeeded (take k fin) \<subseteq> succeeded fin"
  by (auto simp: succeeded_def dest: in_set_takeD)

lemma ordered_run_append: "ordered_run T (fin @ [(i, t)]) \<longleftrightarrow> ordered_run T fin \<and> can_start T fin i"
  by (auto simp: ordered_run_def nth_append less_Suc_eq)

lemma ordered_run_started: "ordered_run T fin \<Longrightarrow> i \<in> fst ` set fin \<Longrightarrow> can_start T fin i"
proof -
  assume o: "ordered_run T fin" and "i \<in> fst ` set fin"
  then obtain k where "k < length fin" "fst (fin ! k) = i"
    by (auto simp: in_set_conv_nth)
  then show ?thesis
    using o complete_mono [OF _ succeeded_take] unfolding ordered_run_def can_start_def by blast
qed

section \<open>The invariant\<close>

definition copy_ok :: "test list \<Rightarrow> (nat \<times> test) list \<Rightarrow> nat \<Rightarrow> test \<Rightarrow> bool" where
  "copy_ok T fin i t \<longleftrightarrow> t_module t = t_module (T ! i) \<and> t_deps t = t_deps (T ! i)
     \<and> set (t_remaining t) = {d \<in> set (t_deps (T ! i)). \<not> complete T fin d}"

definition heap_inv :: "test list \<Rightarrow> sched \<Rightarrow> bool" where
  "heap_inv T s \<longleftrightarrow>
     (\<forall>i. um_find i (s_heap s) \<noteq> None \<longleftrightarrow> i < length T \<and> i \<notin> fst ` set (s_finished s))
   \<and> (\<forall>i t. um_find i (s_heap s) = Some t \<longrightarrow> copy_ok T (s_finished s) i t)"

definition ready_inv :: "test list \<Rightarrow> sched \<Rightarrow> bool" where
  "ready_inv T s \<longleftrightarrow> distinct (s_ready s)
   \<and> set (s_ready s) = {i. i < length T \<and> i \<notin> fst ` set (s_finished s) \<and> can_start T (s_finished s) i}"

definition remaining_inv :: "test list \<Rightarrow> sched \<Rightarrow> bool" where
  "remaining_inv T s \<longleftrightarrow> (\<forall>i < length T. \<exists>r. um_find (t_module (T ! i)) (s_remaining s) = Some r
     \<and> set r = {j. j < length T \<and> t_module (T ! j) = t_module (T ! i) \<and> j \<notin> succeeded (s_finished s)})"

definition blocked_inv :: "test list \<Rightarrow> sched \<Rightarrow> bool" where
  "blocked_inv T s \<longleftrightarrow> (\<forall>d. distinct (ids_of d (s_blocked s))
     \<and> set (ids_of d (s_blocked s)) = {i. i < length T \<and> d \<in> set (t_deps (T ! i))})"

definition history_inv :: "test list \<Rightarrow> sched \<Rightarrow> bool" where
  "history_inv T s \<longleftrightarrow> distinct (map fst (s_finished s)) \<and> fst ` set (s_finished s) \<subseteq> {..<length T}
     \<and> ordered_run T (s_finished s)"

definition sched_inv :: "test list \<Rightarrow> sched \<Rightarrow> bool" where
  "sched_inv T s \<longleftrightarrow> heap_inv T s \<and> ready_inv T s \<and> remaining_inv T s \<and> blocked_inv T s \<and> history_inv T s"

lemma unblock_spec:
  assumes "distinct is" and "\<And>i. i \<in> set is \<Longrightarrow> um_find i heap = Some (f i)"
  shows "\<exists>heap'. unblock m is heap =
      Some (filter (\<lambda>i. filter (\<lambda>d. d \<noteq> m) (t_remaining (f i)) = []) is, heap')
    \<and> (\<forall>i. um_find i heap' = (if i \<in> set is
         then Some ((f i)\<lparr>t_remaining := filter (\<lambda>d. d \<noteq> m) (t_remaining (f i))\<rparr>) else um_find i heap))"
  using assms
proof (induction "is" arbitrary: heap)
  case (Cons i "is")
  let ?t = "(f i)\<lparr>t_remaining := filter (\<lambda>d. d \<noteq> m) (t_remaining (f i))\<rparr>"
  have "um_find j (um_set i ?t heap) = Some (f j)" if "j \<in> set is" for j
    using Cons.prems that by (auto simp: um_find_set)
  then obtain heap' where h: "unblock m is (um_set i ?t heap) =
      Some (filter (\<lambda>i. filter (\<lambda>d. d \<noteq> m) (t_remaining (f i)) = []) is, heap')"
      "\<forall>j. um_find j heap' = (if j \<in> set is
         then Some ((f j)\<lparr>t_remaining := filter (\<lambda>d. d \<noteq> m) (t_remaining (f j))\<rparr>) else um_find j (um_set i ?t heap))"
    using Cons.IH [of "um_set i ?t heap"] Cons.prems(1) by auto
  have found: "um_find i heap = Some (f i)"
    using Cons.prems(2) by simp
  have "um_find j heap' = (if j \<in> set (i # is)
         then Some ((f j)\<lparr>t_remaining := filter (\<lambda>d. d \<noteq> m) (t_remaining (f j))\<rparr>) else um_find j heap)" for j
    using h(2) Cons.prems(1) by (simp add: um_find_set)
  then show ?case
    by (simp add: found h(1) Let_def del: filter_empty_conv)
qed simp

lemma complete_step:
  assumes "i < length T" and "t_module t = t_module (T ! i)" and "i \<notin> succeeded fin"
  shows "complete T (fin @ [(i, t)]) d \<longleftrightarrow> complete T fin d
    \<or> t_success t \<and> d = t_module t \<and> (\<forall>j < length T. t_module (T ! j) = t_module t \<longrightarrow> j \<noteq> i \<longrightarrow> j \<in> succeeded fin)"
proof (cases "t_success t \<and> d = t_module t")
  case True
  then have "complete T (fin @ [(i, t)]) d \<longleftrightarrow>
      (\<forall>j < length T. t_module (T ! j) = t_module t \<longrightarrow> j \<noteq> i \<longrightarrow> j \<in> succeeded fin)"
    using assms(1,2) unfolding complete_def by auto
  moreover have "\<not> complete T fin d"
    using True assms unfolding complete_def by auto
  ultimately show ?thesis
    using True by blast
next
  case False
  then have "complete T (fin @ [(i, t)]) d \<longleftrightarrow> complete T fin d"
    using assms(1,2) unfolding complete_def by auto
  then show ?thesis
    using False by blast
qed

lemma sched_inv_found:
  assumes "sched_inv T s" and "i \<in> set (s_ready s)"
  obtains t where "um_find i (s_heap s) = Some t" "copy_ok T (s_finished s) i t" "i < length T"
    "i \<notin> fst ` set (s_finished s)" "can_start T (s_finished s) i"
proof -
  have i: "i < length T" "i \<notin> fst ` set (s_finished s)" "can_start T (s_finished s) i"
    using assms by (simp_all add: sched_inv_def ready_inv_def)
  then obtain t where t: "um_find i (s_heap s) = Some t"
    using assms(1) unfolding sched_inv_def heap_inv_def by blast
  moreover from this have "copy_ok T (s_finished s) i t"
    using assms(1) unfolding sched_inv_def heap_inv_def by blast
  ultimately show ?thesis
    using that i by blast
qed

section \<open>One step\<close>

text \<open>Tests blocked on an incomplete module have neither run nor are they ready.\<close>

lemma blocked_waiting:
  assumes "history_inv T s" and "\<not> complete T (s_finished s) m" and "m \<in> set (t_deps (T ! j))"
  shows "j \<notin> fst ` set (s_finished s)" and "\<not> can_start T (s_finished s) j"
proof -
  show *: "\<not> can_start T (s_finished s) j"
    using assms(2,3) by (auto simp: can_start_def)
  then show "j \<notin> fst ` set (s_finished s)"
    using assms(1) ordered_run_started by (auto simp: history_inv_def)
qed

text \<open>
  What a step does to the parts of the state the invariant is about, when the finished test completes
  nothing, and when it completes its module \<open>m\<close>.
\<close>

lemma sched_inv_keep:
  assumes inv: "sched_inv T s" and ready: "s_ready s = i # rest"
    and same: "\<And>d. complete T (s_finished s @ [(i, t)]) d \<longleftrightarrow> complete T (s_finished s) d"
    and s': "s_finished s' = s_finished s @ [(i, t)]" "s_ready s' = rest" "s_blocked s' = s_blocked s"
      "\<And>j. um_find j (s_heap s') = (if j = i then None else um_find j (s_heap s))"
      "remaining_inv T s'"
  shows "sched_inv T s'"
proof -
  have start: "can_start T (s_finished s @ [(i, t)]) j \<longleftrightarrow> can_start T (s_finished s) j" for j
    by (simp add: can_start_def same)
  have copy: "copy_ok T (s_finished s @ [(i, t)]) j u \<longleftrightarrow> copy_ok T (s_finished s) j u" for j u
    by (simp add: copy_ok_def same)
  have i: "i \<in> set (s_ready s)" by (simp add: ready)
  have "heap_inv T s'"
    using inv by (auto simp: sched_inv_def heap_inv_def s' copy split: if_splits)
  moreover have "ready_inv T s'"
    using inv by (auto simp: sched_inv_def ready_inv_def s' start ready)
  moreover have "blocked_inv T s'"
    using inv by (simp add: sched_inv_def blocked_inv_def s')
  moreover have "history_inv T s'"
    using inv i by (auto simp: sched_inv_def history_inv_def ready_inv_def s' ordered_run_append)
  ultimately show ?thesis
    using s'(5) by (simp add: sched_inv_def)
qed

lemma sched_inv_complete:
  fixes s s' :: sched and T :: "test list" and m :: string
  defines "L \<equiv> {j. j < length T \<and> m \<in> set (t_deps (T ! j))}"
  assumes inv: "sched_inv T s" and ready: "s_ready s = i # rest" and m: "t_module (T ! i) = m"
    and new: "\<And>d. complete T (s_finished s @ [(i, t)]) d \<longleftrightarrow> complete T (s_finished s) d \<or> d = m"
    and s': "s_finished s' = s_finished s @ [(i, t)]" "s_blocked s' = s_blocked s"
      "s_ready s' = filter (\<lambda>j. filter (\<lambda>d. d \<noteq> m) (t_remaining (the (um_find j (s_heap s)))) = []) (ids_of m (s_blocked s)) @ rest"
      "\<And>j. um_find j (s_heap s') = (if j = i then None else if j \<in> L
         then Some ((the (um_find j (s_heap s)))\<lparr>t_remaining := filter (\<lambda>d. d \<noteq> m) (t_remaining (the (um_find j (s_heap s))))\<rparr>)
         else um_find j (s_heap s))"
      "remaining_inv T s'"
  shows "sched_inv T s'"
proof -
  let ?fin = "s_finished s" and ?fin' = "s_finished s @ [(i, t)]"
  have i: "i < length T" "i \<notin> fst ` set ?fin" "can_start T ?fin i"
    using inv ready by (auto simp: sched_inv_def ready_inv_def)
  have not_complete: "\<not> complete T ?fin m"
    using i(1,2) m succeeded_finished [of ?fin] unfolding complete_def by blast
  have waiting: "j \<notin> fst ` set ?fin" "\<not> can_start T ?fin j" "j \<noteq> i" if "j \<in> L" for j
    using blocked_waiting [of T s m j] inv not_complete that i(3) by (auto simp: L_def sched_inv_def)
  have found: "\<exists>u. um_find j (s_heap s) = Some u \<and> copy_ok T ?fin j u" if "j \<in> L" for j
    using inv waiting [OF that] that unfolding sched_inv_def heap_inv_def L_def by blast
  have blocked: "distinct (ids_of m (s_blocked s))" "set (ids_of m (s_blocked s)) = L"
    using inv by (simp_all add: sched_inv_def blocked_inv_def L_def)
  have start: "can_start T ?fin' j \<longleftrightarrow> (if j \<in> L
      then filter (\<lambda>d. d \<noteq> m) (t_remaining (the (um_find j (s_heap s)))) = [] else can_start T ?fin j)"
    if "j < length T" for j
  proof (cases "j \<in> L")
    case True
    then obtain u where u: "um_find j (s_heap s) = Some u" "copy_ok T ?fin j u"
      using found by blast
    have "filter (\<lambda>d. d \<noteq> m) (t_remaining u) = [] \<longleftrightarrow> set (t_remaining u) \<subseteq> {m}"
      by (auto simp: filter_empty_conv)
    also have "\<dots> \<longleftrightarrow> can_start T ?fin' j"
      using u(2) by (auto simp: copy_ok_def can_start_def new)
    finally show ?thesis
      using True u(1) by simp
  next
    case False
    then have "m \<notin> set (t_deps (T ! j))"
      using that by (simp add: L_def)
    then show ?thesis
      using False by (auto simp: can_start_def new)
  qed
  have "heap_inv T s'"
  proof -
    have "um_find j (s_heap s') \<noteq> None \<longleftrightarrow> j < length T \<and> j \<notin> fst ` set ?fin'" for j
      using inv waiting(1) [of j] by (auto simp: s' sched_inv_def heap_inv_def L_def)
    moreover have "copy_ok T ?fin' j u" if "um_find j (s_heap s') = Some u" for j u
    proof (cases "j \<in> L")
      case True
      then obtain v where v: "um_find j (s_heap s) = Some v" "copy_ok T ?fin j v"
        using found by blast
      then have "u = v\<lparr>t_remaining := filter (\<lambda>d. d \<noteq> m) (t_remaining v)\<rparr>"
        using that True waiting(3) [OF True] by (simp add: s')
      then show ?thesis
        using v(2) by (auto simp: copy_ok_def new)
    next
      case False
      then have j: "um_find j (s_heap s) = Some u"
        using that by (simp add: s' split: if_splits)
      then have "j < length T" "copy_ok T ?fin j u"
        using inv by (auto simp: sched_inv_def heap_inv_def)
      moreover from this False have "m \<notin> set (t_deps (T ! j))"
        by (simp add: L_def)
      ultimately show ?thesis
        by (auto simp: copy_ok_def new)
    qed
    ultimately show ?thesis
      by (simp add: heap_inv_def s'(1))
  qed
  moreover have "ready_inv T s'"
  proof -
    have rest: "distinct rest" "set rest = {j. j < length T \<and> j \<notin> fst ` set ?fin' \<and> can_start T ?fin j}"
      using inv i by (auto simp: sched_inv_def ready_inv_def ready)
    have "set (s_ready s') = {j. j < length T \<and> j \<notin> fst ` set ?fin' \<and> can_start T ?fin' j}"
    proof (intro set_eqI iffI)
      fix j
      assume "j \<in> set (s_ready s')"
      then consider (ins) "j \<in> L" "filter (\<lambda>d. d \<noteq> m) (t_remaining (the (um_find j (s_heap s)))) = []"
        | (rest) "j \<in> set rest"
        using blocked(2) by (auto simp only: s'(3) set_append set_filter)
      then show "j \<in> {j. j < length T \<and> j \<notin> fst ` set ?fin' \<and> can_start T ?fin' j}"
      proof cases
        case ins
        then show ?thesis
          using start [of j] waiting [of j] by (auto simp: L_def)
      next
        case rest
        then show ?thesis
          using start [of j] waiting(2) [of j] \<open>set rest = _\<close> by auto
      qed
    next
      fix j
      assume "j \<in> {j. j < length T \<and> j \<notin> fst ` set ?fin' \<and> can_start T ?fin' j}"
      then have j: "j < length T" "j \<notin> fst ` set ?fin'" "can_start T ?fin' j"
        by simp_all
      show "j \<in> set (s_ready s')"
      proof (cases "j \<in> L")
        case True
        then have "filter (\<lambda>d. d \<noteq> m) (t_remaining (the (um_find j (s_heap s)))) = []"
          using start [OF j(1)] j(3) by (simp only: if_True)
        then show ?thesis
          using True blocked(2) by (simp only: s'(3) set_append set_filter Un_iff mem_Collect_eq) blast
      next
        case False
        then have "can_start T ?fin j"
          using start [OF j(1)] j(3) by (simp only: if_False)
        then show ?thesis
          using j by (simp add: s'(3) rest(2))
      qed
    qed
    moreover have "set rest \<inter> L = {}"
      using rest(2) waiting(2) by auto
    then have "distinct (s_ready s')"
      using rest(1) blocked by (auto simp: s'(3))
    ultimately show ?thesis
      by (simp add: ready_inv_def s'(1))
  qed
  moreover have "blocked_inv T s'"
    using inv by (simp add: sched_inv_def blocked_inv_def s')
  moreover have "history_inv T s'"
    using inv i by (auto simp: sched_inv_def history_inv_def s' ordered_run_append)
  ultimately show ?thesis
    using s'(5) by (simp add: sched_inv_def)
qed

text \<open>The contract of running a test: it stays in its module.\<close>

locale test_runner =
  fixes run :: "test \<Rightarrow> 's \<Rightarrow> test \<times> 's"
  assumes run_module: "t_module (fst (run t c)) = t_module t"

text \<open>What a step leaves in the parts of the state outside the queue.\<close>

lemma sched_finish_counts:
  assumes "sched_finish i t s = Some s'"
  shows "s_finished s' = s_finished s @ [(i, t)]" "s_run s' = s_run s + 1" "s_total s' = s_total s"
    "s_succeeded s' = s_succeeded s + (if t_success t then 1 else 0)"
    "s_success s' = (s_success s \<and> t_success t)"
    "s_expected s' = (if t_success t then status_incr (r_status (t_run t)) (s_expected s) else s_expected s)"
    "s_unexpected s' = (if t_success t then s_unexpected s else status_incr (r_status (t_run t)) (s_unexpected s))"
  using assms
  by (auto simp: sched_finish_def sched_succeeded_def Let_def split: option.splits if_splits)

text \<open>Finishing a ready test keeps the invariant and never uses a deleted copy.\<close>

lemma remaining_inv_finish:
  assumes "remaining_inv T s" and "s_finished s' = s_finished s @ [(i, t)]" and "t_module t = t_module (T ! i)"
    and "s_remaining s' = (if t_success t then um_set (t_module t)
      (filter (\<lambda>j. j \<noteq> i) (ids_of (t_module t) (s_remaining s))) (s_remaining s) else s_remaining s)"
    and "i < length T"
  shows "remaining_inv T s'"
proof -
  have "\<exists>r. um_find (t_module (T ! k)) (s_remaining s') = Some r
     \<and> set r = {j. j < length T \<and> t_module (T ! j) = t_module (T ! k) \<and> j \<notin> succeeded (s_finished s')}"
    if k: "k < length T" for k
  proof -
    obtain r where r: "um_find (t_module (T ! k)) (s_remaining s) = Some r"
        "set r = {j. j < length T \<and> t_module (T ! j) = t_module (T ! k) \<and> j \<notin> succeeded (s_finished s)}"
      using assms(1) k unfolding remaining_inv_def by blast
    show ?thesis
    proof (cases "t_success t \<and> t_module (T ! k) = t_module t")
      case True
      then have "ids_of (t_module t) (s_remaining s) = r"
        using r(1) by (simp add: ids_of_def)
      then show ?thesis
        using True r(2) by (auto simp: assms(2,4) um_find_set)
    next
      case False
      have "um_find (t_module (T ! k)) (s_remaining s') = Some r"
        using False r(1) by (cases "t_success t") (simp_all add: assms(4) um_find_set)
      moreover have "j \<in> succeeded (s_finished s') \<longleftrightarrow> j \<in> succeeded (s_finished s)"
        if "t_module (T ! j) = t_module (T ! k)" for j
        using False that assms(3) by (cases "j = i") (auto simp: assms(2))
      ultimately show ?thesis
        using r(2) by (intro exI [of _ r]) auto
    qed
  qed
  then show ?thesis
    by (simp add: remaining_inv_def)
qed

lemma blocked_found:
  assumes inv: "sched_inv T s" and i: "i < length T" "i \<notin> fst ` set (s_finished s)" "can_start T (s_finished s) i"
    and j: "j \<in> set (ids_of (t_module (T ! i)) (s_blocked s))"
  shows "j \<noteq> i \<and> um_find j (s_heap s) = Some (the (um_find j (s_heap s)))"
proof -
  have "\<not> complete T (s_finished s) (t_module (T ! i))"
    using i(1,2) succeeded_finished [of "s_finished s"] unfolding complete_def by blast
  moreover have "j < length T" "t_module (T ! i) \<in> set (t_deps (T ! j))"
    using inv j by (auto simp: sched_inv_def blocked_inv_def)
  ultimately have "j \<notin> fst ` set (s_finished s)" "j \<noteq> i"
    using blocked_waiting [of T s _ j] inv i(3) by (auto simp: sched_inv_def)
  then have "um_find j (s_heap s) \<noteq> None"
    using inv \<open>j < length T\<close> by (simp add: sched_inv_def heap_inv_def)
  then show ?thesis
    using \<open>j \<noteq> i\<close> by auto
qed

lemma sched_succeeded_last:
  assumes "um_find (t_module t) (s_remaining s) = Some r" and "filter (\<lambda>j. j \<noteq> i) r = []"
    and "unblock (t_module t) (ids_of (t_module t) (s_blocked s)) (s_heap s) = Some (ins, heap)"
  shows "sched_succeeded i t s = Some (s\<lparr>s_remaining := um_set (t_module t) [] (s_remaining s),
      s_ready := ins @ s_ready s, s_heap := heap, s_succeeded := s_succeeded s + 1,
      s_expected := status_incr (r_status (t_run t)) (s_expected s)\<rparr>)"
  using assms by (cases "um_find (t_module t) (s_blocked s)")
    (simp_all add: sched_succeeded_def ids_of_def Let_def)

lemma sched_finish_inv:
  assumes inv: "sched_inv T s" and ready: "s_ready s = i # rest" and mod: "t_module t = t_module (T ! i)"
  shows "\<exists>s'. sched_finish i t (s\<lparr>s_ready := rest\<rparr>) = Some s' \<and> sched_inv T s'"
proof -
  let ?s1 = "sched_log t (s\<lparr>s_ready := rest, s_heap := um_set i t (s_heap s)\<rparr>)"
  let ?m = "t_module t" and ?r = "filter (\<lambda>j. j \<noteq> i) (ids_of (t_module t) (s_remaining s))"
  obtain t0 where i: "um_find i (s_heap s) = Some t0" "i < length T" "i \<notin> fst ` set (s_finished s)"
      "can_start T (s_finished s) i"
    using sched_inv_found [OF inv, of i] ready by auto
  obtain r where r: "um_find ?m (s_remaining s) = Some r"
      "set r = {j. j < length T \<and> t_module (T ! j) = ?m \<and> j \<notin> succeeded (s_finished s)}"
    using inv i(2) unfolding mod sched_inv_def remaining_inv_def by blast
  have r': "?r = filter (\<lambda>j. j \<noteq> i) r"
    by (simp add: ids_of_def r(1))
  have not_succ: "i \<notin> succeeded (s_finished s)"
    using i(3) succeeded_finished by blast
  note step = complete_step [OF i(2) mod not_succ]
  have last: "?r = [] \<longleftrightarrow> (\<forall>j < length T. t_module (T ! j) = ?m \<longrightarrow> j \<noteq> i \<longrightarrow> j \<in> succeeded (s_finished s))"
    unfolding r' using r(2) by (auto simp: filter_empty_conv)
  show ?thesis
  proof (cases "t_success t")
    case False
    let ?s2 = "?s1\<lparr>s_success := False, s_unexpected := status_incr (r_status (t_run t)) (s_unexpected ?s1)\<rparr>"
    let ?s3 = "?s2\<lparr>s_run := s_run ?s2 + 1, s_heap := um_erase i (s_heap ?s2), s_finished := s_finished ?s2 @ [(i, t)]\<rparr>"
    have "sched_finish i t (s\<lparr>s_ready := rest\<rparr>) = Some ?s3"
      using False by (simp add: sched_finish_def Let_def)
    moreover have "sched_inv T ?s3"
    proof (rule sched_inv_keep [OF inv ready])
      show "complete T (s_finished s @ [(i, t)]) d \<longleftrightarrow> complete T (s_finished s) d" for d
        using False by (simp add: step)
      show "remaining_inv T ?s3"
        by (rule remaining_inv_finish [where s = s, OF _ _ mod]) (use inv False i(2) in \<open>simp_all add: sched_inv_def\<close>)
    qed (simp_all add: um_find_erase um_find_set)
    ultimately show ?thesis by blast
  next
    case True
    show ?thesis
    proof (cases "?r = []")
      case r_empty: False
      let ?s2 = "?s1\<lparr>s_remaining := um_set ?m ?r (s_remaining s), s_ready := rest,
        s_succeeded := s_succeeded s + 1, s_expected := status_incr (r_status (t_run t)) (s_expected s)\<rparr>"
      let ?s3 = "?s2\<lparr>s_run := s_run s + 1, s_heap := um_erase i (um_set i t (s_heap s)), s_finished := s_finished s @ [(i, t)]\<rparr>"
      have "sched_finish i t (s\<lparr>s_ready := rest\<rparr>) = Some ?s3"
        using True r(1) r_empty r' by (simp add: sched_finish_def sched_succeeded_def Let_def)
      moreover have "sched_inv T ?s3"
      proof (rule sched_inv_keep [OF inv ready])
        show "complete T (s_finished s @ [(i, t)]) d \<longleftrightarrow> complete T (s_finished s) d" for d
          using r_empty unfolding step last by blast
        show "remaining_inv T ?s3"
          by (rule remaining_inv_finish [where s = s, OF _ _ mod]) (use inv True i(2) in \<open>simp_all add: sched_inv_def\<close>)
      qed (simp_all add: um_find_erase um_find_set)
      ultimately show ?thesis by blast
    next
      case r_empty: True
      let ?f = "\<lambda>j. the (um_find j (s_heap s))" and ?bl = "ids_of ?m (s_blocked s)"
      let ?upd = "\<lambda>j. (?f j)\<lparr>t_remaining := filter (\<lambda>d. d \<noteq> ?m) (t_remaining (?f j))\<rparr>"
      let ?ins = "filter (\<lambda>j. filter (\<lambda>d. d \<noteq> ?m) (t_remaining (?f j)) = []) ?bl"
      have bl: "distinct ?bl" "set ?bl = {j. j < length T \<and> ?m \<in> set (t_deps (T ! j))}"
        using inv by (simp_all add: sched_inv_def blocked_inv_def)
      have "um_find j (um_set i t (s_heap s)) = Some (?f j)" if "j \<in> set ?bl" for j
        using blocked_found [OF inv i(2-4)] that unfolding mod by (simp add: um_find_set)
      then obtain heap' where u: "unblock ?m ?bl (um_set i t (s_heap s)) = Some (?ins, heap')"
          "\<forall>j. um_find j heap' = (if j \<in> set ?bl then Some (?upd j) else um_find j (um_set i t (s_heap s)))"
        using unblock_spec [OF bl(1), of "um_set i t (s_heap s)" ?f ?m] by blast
      let ?s2 = "?s1\<lparr>s_remaining := um_set ?m ?r (s_remaining s), s_ready := ?ins @ rest, s_heap := heap',
        s_succeeded := s_succeeded s + 1, s_expected := status_incr (r_status (t_run t)) (s_expected s)\<rparr>"
      let ?s3 = "?s2\<lparr>s_run := s_run s + 1, s_heap := um_erase i heap', s_finished := s_finished s @ [(i, t)]\<rparr>"
      have "sched_finish i t (s\<lparr>s_ready := rest\<rparr>) = Some ?s3"
        using True u(1) r(1) r_empty sched_succeeded_last [of t ?s1 r i ?ins heap']
        by (simp add: sched_finish_def Let_def r' del: filter_empty_conv)
      moreover have "sched_inv T ?s3"
      proof (rule sched_inv_complete [OF inv ready mod [symmetric]])
        show "complete T (s_finished s @ [(i, t)]) d \<longleftrightarrow> complete T (s_finished s) d \<or> d = ?m" for d
          using r_empty True unfolding step last by blast
        show "remaining_inv T ?s3"
          by (rule remaining_inv_finish [where s = s, OF _ _ mod]) (use inv True i(2) in \<open>simp_all add: sched_inv_def\<close>)
        show "um_find j (s_heap ?s3) = (if j = i then None
          else if j \<in> {j. j < length T \<and> ?m \<in> set (t_deps (T ! j))} then Some (?upd j) else um_find j (s_heap s))" for j
          using u(2) unfolding bl(2) by (simp add: um_find_erase um_find_set)
      qed simp_all
      ultimately show ?thesis by blast
    qed
  qed
qed

section \<open>The start\<close>

definition test_ready :: "test \<Rightarrow> bool" where
  "test_ready t \<longleftrightarrow> t_remaining t = [] \<and> distinct (t_deps t)"

lemma complete_Nil [simp]: "\<not> complete T [] m"
  unfolding complete_def by auto

lemma can_start_Nil: "can_start T [] i \<longleftrightarrow> t_deps (T ! i) = []"
  by (simp add: can_start_def)

lemma um_find_append: "um_find k (m @ [(i, v)]) = (case um_find k m of None \<Rightarrow> if k = i then Some v else None | Some w \<Rightarrow> Some w)"
  by (simp add: um_find_def map_add_def split: option.split)

lemma ids_of_block_on: "ids_of d (block_on i dep b) = (if d = dep then ids_of d b @ [i] else ids_of d b)"
  by (simp add: block_on_def ids_of_def um_find_set)

lemma ids_of_fold_block_on: "distinct ds \<Longrightarrow>
    ids_of d (fold (block_on i) ds b) = ids_of d b @ (if d \<in> set ds then [i] else [])"
  by (induction ds arbitrary: b) (auto simp: ids_of_block_on)

definition prep_inv :: "test list \<Rightarrow> sched \<Rightarrow> bool" where
  "prep_inv T s \<longleftrightarrow> s_finished s = []
     \<and> (\<forall>i. um_find i (s_heap s) = (if i < length T then Some ((T ! i)\<lparr>t_remaining := t_deps (T ! i)\<rparr>) else None))
     \<and> s_ready s = filter (\<lambda>i. t_deps (T ! i) = []) [0..<length T]
     \<and> (\<forall>m. set (ids_of m (s_remaining s)) = {j. j < length T \<and> t_module (T ! j) = m})
     \<and> (\<forall>d. ids_of d (s_blocked s) = filter (\<lambda>i. d \<in> set (t_deps (T ! i))) [0..<length T])"

lemma ids_of_set [simp]: "ids_of m (um_set k v b) = (if m = k then v else ids_of m b)"
  by (simp add: ids_of_def um_find_set)

lemma prep_inv_sched_inv:
  assumes "prep_inv T s"
  shows "sched_inv T s"
proof -
  have "\<exists>r. um_find (t_module (T ! i)) (s_remaining s) = Some r
        \<and> set r = {j. j < length T \<and> t_module (T ! j) = t_module (T ! i)}" if "i < length T" for i
  proof -
    have "set (ids_of (t_module (T ! i)) (s_remaining s)) = {j. j < length T \<and> t_module (T ! j) = t_module (T ! i)}"
      using assms by (simp add: prep_inv_def)
    moreover from this that have "ids_of (t_module (T ! i)) (s_remaining s) \<noteq> []"
      by force
    ultimately show ?thesis
      by (auto simp: ids_of_def split: option.splits)
  qed
  then show ?thesis
    using assms by (auto simp: prep_inv_def sched_inv_def heap_inv_def ready_inv_def remaining_inv_def
        blocked_inv_def history_inv_def copy_ok_def can_start_Nil ordered_run_def)
qed

lemma sched_add_prep:
  assumes "prep_inv T s" and "test_ready t"
  shows "prep_inv (T @ [t]) (sched_add (length T) t s)"
proof -
  have old: "(T @ [t]) ! i = T ! i" if "i < length T" for i
    using that by (simp add: nth_append)
  have upto: "filter (\<lambda>i. P ((T @ [t]) ! i)) [0..<length T] = filter (\<lambda>i. P (T ! i)) [0..<length T]" for P
    by (rule filter_cong) (simp_all add: old)
  have t: "t\<lparr>t_remaining := []\<rparr> = t"
    using assms(2) by (simp add: test_ready_def)
  have heap: "um_find i (s_heap (sched_add (length T) t s))
      = (if i < length (T @ [t]) then Some (((T @ [t]) ! i)\<lparr>t_remaining := t_deps ((T @ [t]) ! i)\<rparr>) else None)" for i
  proof -
    have found: "um_find j (s_heap s) = (if j < length T then Some ((T ! j)\<lparr>t_remaining := t_deps (T ! j)\<rparr>) else None)" for j
      using assms(1) by (simp add: prep_inv_def)
    consider "i < length T" | "i = length T" | "length T < i"
      by linarith
    then show ?thesis
      using t by cases (simp_all add: sched_add_def Let_def um_find_append found old)
  qed
  have remaining: "set (ids_of m (s_remaining (sched_add (length T) t s))) = {j. j < length (T @ [t]) \<and> t_module ((T @ [t]) ! j) = m}" for m
    using assms(1) by (auto simp: sched_add_def Let_def prep_inv_def nth_append)
  show ?thesis
    using assms heap remaining unfolding prep_inv_def
    by (auto simp: sched_add_def Let_def upto [of "\<lambda>t. t_deps t = []"] upto [of "\<lambda>t. d \<in> set (t_deps t)" for d]
        ids_of_fold_block_on test_ready_def)
qed

lemma sched_add_all_prep:
  assumes "prep_inv T s" and "\<forall>t \<in> set ts. test_ready t"
  shows "prep_inv (T @ ts) (sched_add_all (length T) ts s)"
  using assms
proof (induction ts arbitrary: T s)
  case (Cons t ts)
  then show ?case
    using Cons.IH [of "T @ [t]" "sched_add (length T) t s"] sched_add_prep [of T s t] by simp
qed simp

lemma sched_add_all_frame: "s_total (sched_add_all i ts s) = s_total s" "s_run (sched_add_all i ts s) = s_run s"
  "s_succeeded (sched_add_all i ts s) = s_succeeded s" "s_success (sched_add_all i ts s) = s_success s"
  "s_expected (sched_add_all i ts s) = s_expected s" "s_unexpected (sched_add_all i ts s) = s_unexpected s"
  by (induction i ts s rule: sched_add_all.induct) (simp_all add: sched_add_def Let_def)

lemma prepare_prep:
  assumes "\<forall>t \<in> set (all_tests mods). test_ready t"
  shows "prep_inv (all_tests mods) (sched_prepare mods)"
proof -
  have "prep_inv [] (sched_empty\<lparr>s_total := n\<rparr>)" for n
    by (simp add: prep_inv_def sched_empty_def um_find_def ids_of_def)
  from sched_add_all_prep [OF this assms] show ?thesis
    by (simp add: sched_prepare_def)
qed

section \<open>The loop\<close>

definition status_count :: "status \<Rightarrow> (status, u32) umap \<Rightarrow> u32" where
  "status_count st m = (case um_find st m of None \<Rightarrow> 0 | Some n \<Rightarrow> n)"

definition counts_inv :: "sched \<Rightarrow> bool" where
  "counts_inv s \<longleftrightarrow> (let fin = map snd (s_finished s) in
     s_run s = of_nat (length fin)
   \<and> s_succeeded s = of_nat (length (filter t_success fin))
   \<and> s_success s = list_all t_success fin
   \<and> (\<forall>st. status_count st (s_expected s) = of_nat (length (filter (\<lambda>t. t_success t \<and> r_status (t_run t) = st) fin)))
   \<and> (\<forall>st. status_count st (s_unexpected s) = of_nat (length (filter (\<lambda>t. \<not> t_success t \<and> r_status (t_run t) = st) fin))))"

lemma status_count_incr: "status_count st (status_incr st' m) = status_count st m + (if st = st' then 1 else 0)"
  by (simp add: status_count_def status_incr_def um_find_set)

lemma counts_finish:
  assumes "counts_inv s" and "sched_finish i t (s\<lparr>s_ready := rest\<rparr>) = Some s'"
  shows "counts_inv s' \<and> s_total s' = s_total s"
  using assms(1) sched_finish_counts [OF assms(2)] by (auto simp: counts_inv_def Let_def status_count_incr)

context test_runner
begin

lemma step_inv:
  assumes "sched_inv T s" and "counts_inv s" and "s_ready s = i # rest"
  shows "\<exists>s' c'. sched_step run modules i (s\<lparr>s_ready := rest\<rparr>) c = Some (s', c')
    \<and> sched_inv T s' \<and> counts_inv s' \<and> s_total s' = s_total s"
proof -
  obtain t where t: "um_find i (s_heap s) = Some t" "copy_ok T (s_finished s) i t"
    using sched_inv_found [OF assms(1), of i] assms(3) by auto
  obtain t' c' where run: "(if modules = [] \<or> t_module t \<in> set modules then run t c else (test_skip t, c)) = (t', c')"
    by (cases "if modules = [] \<or> t_module t \<in> set modules then run t c else (test_skip t, c)")
  have "t_module t' = t_module t"
    using run run_module [of t c] by (auto simp: test_skip_def split: if_splits)
  then have "t_module t' = t_module (T ! i)"
    using t(2) by (simp add: copy_ok_def)
  from sched_finish_inv [OF assms(1,3) this] obtain s' where
      s': "sched_finish i t' (s\<lparr>s_ready := rest\<rparr>) = Some s'" "sched_inv T s'"
    by blast
  moreover have "counts_inv s' \<and> s_total s' = s_total s"
    by (rule counts_finish [OF assms(2) s'(1)])
  ultimately show ?thesis
    using t(1) run by (simp add: sched_step_def)
qed

lemma loop_inv:
  "sched_inv T s \<Longrightarrow> counts_inv s \<Longrightarrow> \<exists>s' c'. sched_loop run modules s c = Some (s', c')
    \<and> sched_inv T s' \<and> counts_inv s' \<and> s_total s' = s_total s \<and> s_ready s' = []"
proof (induction "length (s_heap s)" arbitrary: s c rule: less_induct)
  case less
  show ?case
  proof (cases "s_ready s")
    case Nil
    then show ?thesis
      using less.prems by (simp add: sched_loop.simps)
  next
    case (Cons i rest)
    obtain s1 c1 where s1: "sched_step run modules i (s\<lparr>s_ready := rest\<rparr>) c = Some (s1, c1)"
        "sched_inv T s1" "counts_inv s1" "s_total s1 = s_total s"
      using step_inv [OF less.prems Cons, of modules c] by blast
    have "length (s_heap s1) < length (s_heap s)"
      using sched_step_shrinks [OF s1(1)] by simp
    from less.hyps [OF this s1(2,3)] show ?thesis
      using Cons s1(1,4) by (simp add: sched_loop.simps [of run modules s])
  qed
qed

lemma runAll_inv:
  assumes "\<forall>t \<in> set (all_tests mods). test_ready t"
  shows "\<exists>s c'. runAll run config modules mods c = Some (s_success s, s, c')
    \<and> sched_inv (all_tests mods) s \<and> counts_inv s \<and> s_ready s = []
    \<and> s_total s = of_nat (length (all_tests mods))"
proof -
  let ?s = "(sched_prepare mods)\<lparr>s_out := log_config config\<rparr>"
  have out: "sched_inv T (s\<lparr>s_out := l\<rparr>) = sched_inv T s" "counts_inv (s\<lparr>s_out := l\<rparr>) = counts_inv s" for T s l
    by (simp_all add: sched_inv_def heap_inv_def ready_inv_def remaining_inv_def blocked_inv_def history_inv_def counts_inv_def)
  note prep = prepare_prep [OF assms]
  have "sched_inv (all_tests mods) ?s"
    using prep_inv_sched_inv [OF prep] by (simp add: out)
  moreover have "s_finished (sched_prepare mods) = []"
    using prep by (simp add: prep_inv_def)
  then have "counts_inv ?s"
    by (simp add: counts_inv_def sched_prepare_def sched_add_all_frame sched_empty_def status_count_def um_find_def)
  ultimately obtain s c' where s: "sched_loop run modules ?s c = Some (s, c')"
      "sched_inv (all_tests mods) s" "counts_inv s" "s_total s = s_total ?s" "s_ready s = []"
    using loop_inv by blast
  have "s_total ?s = sum_list (map (\<lambda>m. of_nat (length (snd m))) mods)"
    by (simp add: sched_prepare_def sched_add_all_frame)
  also have "\<dots> = of_nat (length (all_tests mods))"
    by (induction mods) (simp_all add: all_tests_def)
  finally show ?thesis
    using s by (intro exI [of _ "s\<lparr>s_out := s_out s @ log_summary s\<rparr>"] exI [of _ c'])
      (simp add: runAll_def out)
qed

end

interpretation runner: test_runner "test_run ops drv n" for ops drv n
  by unfold_locales (rule test_run_frame)

end
