(* ===== verification/Scheduler_Props.thy ===== *)
theory Scheduler_Props
  imports Scheduler_Inv
begin

text \<open>
  What a run of the suite does with its tests, and what the registry hands to it.
\<close>

section \<open>The registry\<close>

datatype reg_event =
  Register string string
| Depends string nat "string list"
| Expect string nat status
| Disable string nat
| Enable string nat
| Module_depends string "string list"

fun reg_apply :: "reg_event \<Rightarrow> registry \<Rightarrow> registry" where
  "reg_apply (Register m name) r = register_test m name r"
| "reg_apply (Depends m i ds) r = configure_test (dependsOn ds) m i r"
| "reg_apply (Expect m i st) r = configure_test (expect st) m i r"
| "reg_apply (Disable m i) r = configure_test disable m i r"
| "reg_apply (Enable m i) r = configure_test enable m i r"
| "reg_apply (Module_depends m ds) r = setGlobalModuleDependencies m ds r"

definition registry_empty :: registry where
  "registry_empty = \<lparr>reg_tests = [], reg_global = []\<rparr>"

definition global_deps :: "string \<Rightarrow> registry \<Rightarrow> string list" where
  "global_deps m r = (case um_find m (reg_global r) of None \<Rightarrow> [] | Some d \<Rightarrow> d)"

text \<open>A registered test: not started, without repeated dependencies, in its own module's list.\<close>

definition registered_ok :: "registry \<Rightarrow> string \<Rightarrow> test \<Rightarrow> bool" where
  "registered_ok r m t \<longleftrightarrow> t_module t = m \<and> test_ready t \<and> set (global_deps m r) \<subseteq> set (t_deps t)"

definition registry_ok :: "registry \<Rightarrow> bool" where
  "registry_ok r \<longleftrightarrow> um_invar (reg_tests r) \<and> (\<forall>m. distinct (global_deps m r))
     \<and> (\<forall>m. \<forall>t \<in> set (module_tests m (reg_tests r)). registered_ok r m t)"

lemma module_tests_set [simp]: "module_tests m (um_set k v ts) = (if m = k then v else module_tests m ts)"
  by (simp add: module_tests_def um_find_set)

lemma global_deps_update [simp]:
  "global_deps m (r\<lparr>reg_tests := x\<rparr>) = global_deps m r"
  "global_deps m (r\<lparr>reg_global := um_set k v (reg_global r)\<rparr>) = (if m = k then v else global_deps m r)"
  by (simp_all add: global_deps_def um_find_set)

lemma registered_ok_update [simp]: "registered_ok (r\<lparr>reg_tests := x\<rparr>) m t = registered_ok r m t"
  by (simp add: registered_ok_def)

lemma configure_ok:
  assumes "registry_ok r" and f: "\<And>t. registered_ok r m t \<Longrightarrow> registered_ok r m (f t)"
  shows "registry_ok (configure_test f m i r)"
  using assms
  by (auto simp: configure_test_def registry_ok_def Let_def um_invar_set dest!: set_update_subset_insert [THEN subsetD])

lemma reg_apply_ok: "registry_ok r \<Longrightarrow> registry_ok (reg_apply e r)"
proof (cases e)
  case (Register m name)
  assume "registry_ok r"
  then show ?thesis
    by (auto simp: Register register_test_def registry_ok_def Let_def um_invar_set registered_ok_def
        test_ready_def test_new_def global_deps_def split: option.splits)
next
  case (Module_depends m ds)
  assume "registry_ok r"
  then show ?thesis
    unfolding registry_ok_def
    by (auto simp: Module_depends setGlobalModuleDependencies_def um_invar_set registered_ok_def
        test_ready_def dependsOn_def split: if_splits)
qed (auto intro!: configure_ok simp: registered_ok_def test_ready_def dependsOn_def expect_def disable_def enable_def)

lemma fold_reg_ok: "registry_ok r \<Longrightarrow> registry_ok (fold reg_apply es r)"
  by (induction es arbitrary: r) (simp_all add: reg_apply_ok)

lemma registry_empty_ok: "registry_ok registry_empty"
  by (simp add: registry_ok_def registry_empty_def um_invar_def module_tests_def um_find_def global_deps_def)

text \<open>What the history says: the names registered in a module, the dependencies the module was last given, and
  those given to its \<open>i\<close>-th test, by itself or with its module.\<close>

definition registered :: "string \<Rightarrow> reg_event list \<Rightarrow> string list" where
  "registered m es = concat (map (\<lambda>e. case e of Register m' n \<Rightarrow> if m' = m then [n] else [] | _ \<Rightarrow> []) es)"

definition last_given :: "string \<Rightarrow> reg_event list \<Rightarrow> string set" where
  "last_given m es = fold (\<lambda>e D. case e of Module_depends m' ds \<Rightarrow> if m' = m then set ds else D | _ \<Rightarrow> D) es {}"

definition given :: "string \<Rightarrow> nat \<Rightarrow> reg_event list \<Rightarrow> string set" where
  "given m i es = {d. \<exists>ds. d \<in> set ds \<and> (Depends m i ds \<in> set es \<or> Module_depends m ds \<in> set es)}"

lemma registered_append [simp]: "registered m (es @ es') = registered m es @ registered m es'"
  by (simp add: registered_def)

lemma given_simps [simp]: "given m i [] = {}" "given m i (es @ es') = given m i es \<union> given m i es'"
  by (auto simp: given_def)

lemma given_Cons: "given m i (e # es) =
    (case e of Depends m' i' ds \<Rightarrow> if m' = m \<and> i' = i then set ds else {} | Module_depends m' ds \<Rightarrow> if m' = m then set ds else {} | _ \<Rightarrow> {})
      \<union> given m i es"
  by (auto simp: given_def split: reg_event.splits)

lemma reg_step:
  fixes r :: registry and m :: string
  defines "l \<equiv> module_tests m (reg_tests r)" and "l' e \<equiv> module_tests m (reg_tests (reg_apply e r))"
  shows "map t_name (l' e) = map t_name l @ registered m [e]"
    and "i < length l \<Longrightarrow> set (t_deps (l' e ! i)) = set (t_deps (l ! i)) \<union> given m i [e]"
    and "set (global_deps m (reg_apply e r)) = (case e of Module_depends m' ds \<Rightarrow> if m' = m then set ds else set (global_deps m r)
      | _ \<Rightarrow> set (global_deps m r))"
proof -
  have conf: "map t_name (module_tests m (reg_tests (configure_test f m' k r))) = map t_name l"
      "global_deps m (configure_test f m' k r) = global_deps m r"
      if "\<And>t. t_name (f t) = t_name t" for f m' k
    using that by (auto simp: configure_test_def l_def Let_def map_update)
       (metis list_update_id map_update nth_map)
  have conf_nth: "module_tests m (reg_tests (configure_test f m' k r)) ! i = (if m' = m \<and> k = i then f (l ! i) else l ! i)"
      if "i < length l" for f m' k
    using that by (auto simp: configure_test_def l_def Let_def nth_list_update)
  note defs = l_def l'_def registered_def register_test_def setGlobalModuleDependencies_def dependsOn_def expect_def disable_def
    enable_def test_new_def Let_def
  show "map t_name (l' e) = map t_name l @ registered m [e]"
    using conf(1) by (cases e) (auto simp: defs)
  show "i < length l \<Longrightarrow> set (t_deps (l' e ! i)) = set (t_deps (l ! i)) \<union> given m i [e]"
    using conf_nth by (cases e) (auto simp: defs given_def nth_append)
  show "set (global_deps m (reg_apply e r)) = (case e of Module_depends m' ds \<Rightarrow> if m' = m then set ds else set (global_deps m r)
      | _ \<Rightarrow> set (global_deps m r))"
    using conf(2) by (cases e) (auto simp: defs)
qed

text \<open>C40. Whatever the order in which tests are defined and configured and modules are given their
  dependencies, each module's list has exactly the tests registered in it, in that order. Each test has exactly the
  dependencies its module had last been given before it was registered, and those given to the module or to the test
  itself since; none is there twice, all the module's current ones are there, and none is pending yet.\<close>

theorem registry_global_deps:
  defines "r \<equiv> \<lambda>es. fold reg_apply es registry_empty"
  shows "registry_ok (r es)
    \<and> map t_name (module_tests m (reg_tests (r es))) = registered m es
    \<and> set (global_deps m (r es)) = last_given m es
    \<and> (k < length es \<longrightarrow> es ! k = Register m n \<longrightarrow>
        (let i = length (registered m (take k es)) in
          i < length (registered m es) \<and> registered m es ! i = n
          \<and> set (t_deps (module_tests m (reg_tests (r es)) ! i)) = last_given m (take k es) \<union> given m i (drop (Suc k) es)))"
proof -
  have names: "map t_name (module_tests m (reg_tests (r es))) = registered m es" for es
    by (induction es rule: rev_induct)
       (simp_all add: r_def reg_step(1), simp add: registry_empty_def module_tests_def um_find_def registered_def)
  have global: "set (global_deps m (r es)) = last_given m es" for es
  proof (induction es rule: rev_induct)
    case (snoc e es)
    have "r (es @ [e]) = reg_apply e (r es)"
      by (simp add: r_def)
    then show ?case
      using snoc unfolding reg_step(3) by (simp add: reg_step(3) last_given_def split: reg_event.split del: reg_apply.simps)
  qed (simp add: r_def last_given_def registry_empty_def global_deps_def um_find_def)
  have "i < length (registered m es) \<and> registered m es ! i = n
      \<and> set (t_deps (module_tests m (reg_tests (r es)) ! i)) = last_given m (take k es) \<union> given m i (drop (Suc k) es)"
    if "k < length es" "es ! k = Register m n" "i = length (registered m (take k es))" for i
    using that
  proof (induction es rule: rev_induct)
    case (snoc e es)
    show ?case
    proof (cases "k < length es")
      case True
      then have ih: "i < length (registered m es)" "registered m es ! i = n"
          "set (t_deps (module_tests m (reg_tests (r es)) ! i)) = last_given m (take k es) \<union> given m i (drop (Suc k) es)"
        using snoc by (simp_all add: nth_append)
      have "i < length (module_tests m (reg_tests (r es)))"
        using ih(1) arg_cong [OF names, of length es] by simp
      from reg_step(2) [OF this, of e] show ?thesis
        using ih True by (simp add: r_def nth_append Un_assoc)
    next
      case False
      then have k: "k = length es" "e = Register m n"
        using snoc.prems by (auto simp: nth_append less_Suc_eq)
      have len: "length (module_tests m (reg_tests (r es))) = i"
        using arg_cong [OF names, of length es] snoc.prems(3) k(1) by simp
      have "set (t_deps (module_tests m (reg_tests (r (es @ [e]))) ! i)) = set (global_deps m (r es))"
        using len by (auto simp: r_def k(2) register_test_def Let_def test_new_def global_deps_def nth_append)
      then show ?thesis
        using k snoc.prems(3) by (simp add: global registered_def [of m "[_]"] nth_append)
    qed
  qed simp
  then show ?thesis
    using names global fold_reg_ok [OF registry_empty_ok] by (simp add: r_def Let_def)
qed

theorem registry_global_deps_witness:
  "set (t_deps (module_tests ''a'' (reg_tests (fold reg_apply
      [Module_depends ''a'' [''x''], Register ''a'' ''one'', Module_depends ''a'' [''y''], Register ''a'' ''two'', Depends ''a'' 0 [''z'']]
      registry_empty)) ! 0)) = {''x'', ''y'', ''z''}"
proof -
  let ?es = "[Module_depends ''a'' [''x''], Register ''a'' ''one'', Module_depends ''a'' [''y''], Register ''a'' ''two'', Depends ''a'' 0 [''z'']]"
  have "1 < length ?es" "?es ! 1 = Register ''a'' ''one''"
    by simp_all
  then have "set (t_deps (module_tests ''a'' (reg_tests (fold reg_apply ?es registry_empty)) ! length (registered ''a'' (take 1 ?es))))
      = last_given ''a'' (take 1 ?es) \<union> given ''a'' (length (registered ''a'' (take 1 ?es))) (drop (Suc 1) ?es)"
    using registry_global_deps [of ?es "''a''" 1 "''one''"] by (simp only: Let_def simp_thms)
  moreover have "length (registered ''a'' (take 1 ?es)) = 0" "last_given ''a'' (take 1 ?es) = {''x''}"
    by (simp_all add: registered_def last_given_def)
  moreover have "given ''a'' 0 (drop (Suc 1) ?es) = {''y'', ''z''}"
    by (simp add: given_Cons insert_commute)
  ultimately show ?thesis
    by (simp add: insert_commute)
qed

lemma registry_ok_ready:
  assumes "registry_ok r"
  shows "\<forall>t \<in> set (all_tests (reg_tests r)). test_ready t"
proof
  fix t
  assume "t \<in> set (all_tests (reg_tests r))"
  then obtain m l where "(m, l) \<in> set (reg_tests r)" "t \<in> set l"
    by (auto simp: all_tests_def)
  moreover from this have "module_tests m (reg_tests r) = l"
    using assms by (simp add: registry_ok_def um_invar_def module_tests_def um_find_def)
  ultimately show "test_ready t"
    using assms by (auto simp: registry_ok_def registered_ok_def)
qed

section \<open>Running the suite\<close>

text \<open>A suite of three tests: \<^verbatim>\<open>app::b\<close> needs the module \<^verbatim>\<open>net\<close>, \<^verbatim>\<open>doc::c\<close> a module without tests.\<close>

definition sample_ops :: "unit test_ops" where
  "sample_ops =
    \<lparr>op_driverRun = (\<lambda>t c. ((t_run t)\<lparr>r_status := PASS\<rparr>, c)),
     op_workerRun = (\<lambda>t c. ((t_run t)\<lparr>r_status := PASS\<rparr>, c)),
     op_distributed = (\<lambda>t. False), op_report = (\<lambda>drv t. []),
     op_allocateWorkers = (\<lambda>n c. ([], c)), op_run = (\<lambda>t c. c),
     op_join = (\<lambda>rs c. (rs, c)), op_deallocateWorkers = (\<lambda>ws c. c)\<rparr>"

definition sample_suite :: registry where
  "sample_suite = fold reg_apply
    [Register ''app'' ''b'', Register ''net'' ''a'', Register ''doc'' ''c'', Depends ''app'' 0 [''net''],
     Module_depends ''doc'' [''spell'']] registry_empty"

definition broken_suite :: registry where
  "broken_suite = fold reg_apply [Register ''doc'' ''c'', Module_depends ''doc'' [''spell'']] registry_empty"

abbreviation sample_run :: "registry \<Rightarrow> (bool \<times> sched \<times> unit) option" where
  "sample_run r \<equiv> runAll (test_run sample_ops True 0) [] [] (reg_tests r) ()"

lemma sample_suites_ok: "registry_ok sample_suite" "registry_ok broken_suite"
  unfolding sample_suite_def broken_suite_def by (rule fold_reg_ok [OF registry_empty_ok])+

lemma sample_runs:
  "map_option (\<lambda>(b, s, c). (b, map fst (s_finished s), s_run s, s_total s)) (sample_run sample_suite) = Some (True, [1, 0], 2, 3)"
  by code_simp

lemma sample_run_result:
  obtains s where "sample_run sample_suite = Some (True, s, ())" "map fst (s_finished s) = [1, 0]"
  using sample_runs by auto

lemma sample_all: "length (all_tests (reg_tests sample_suite)) = 3"
  by code_simp

text \<open>C4. Running the suite ends, never uses a test after deleting it, and runs each test at most
  once, and only after every test of every module it depends on has finished successfully.\<close>

theorem suite_runs_in_order:
  assumes "registry_ok r"
  shows "\<exists>success s c'. runAll (test_run ops drv n) config modules (reg_tests r) c = Some (success, s, c')
    \<and> distinct (map fst (s_finished s)) \<and> fst ` set (s_finished s) \<subseteq> {..<length (all_tests (reg_tests r))}
    \<and> ordered_run (all_tests (reg_tests r)) (s_finished s)"
  using runner.runAll_inv [OF registry_ok_ready [OF assms], of ops drv n config modules c]
  by (auto simp: sched_inv_def history_inv_def)

lemma suite_runs_in_order_witness:
  "\<exists>success s c'. sample_run sample_suite = Some (success, s, c')
    \<and> distinct (map fst (s_finished s)) \<and> fst ` set (s_finished s) \<subseteq> {..<length (all_tests (reg_tests sample_suite))}
    \<and> ordered_run (all_tests (reg_tests sample_suite)) (s_finished s)"
  by (rule suite_runs_in_order [OF sample_suites_ok(1)])

text \<open>C5. A test is left out only when a module it depends on has not been completed: at the end the
  tests that were run are exactly those all of whose dependencies are complete.\<close>

theorem suite_runs_all_unblocked:
  assumes "registry_ok r"
    and "runAll (test_run ops drv n) config modules (reg_tests r) c = Some (success, s, c')"
    and "i < length (all_tests (reg_tests r))"
  shows "i \<in> fst ` set (s_finished s) \<longleftrightarrow> can_start (all_tests (reg_tests r)) (s_finished s) i"
proof -
  have inv: "sched_inv (all_tests (reg_tests r)) s" "s_ready s = []"
    using runner.runAll_inv [OF registry_ok_ready [OF assms(1)], of ops drv n config modules c] assms(2) by auto
  show ?thesis
  proof
    assume "i \<in> fst ` set (s_finished s)"
    then show "can_start (all_tests (reg_tests r)) (s_finished s) i"
      using inv(1) ordered_run_started by (auto simp: sched_inv_def history_inv_def)
  next
    assume "can_start (all_tests (reg_tests r)) (s_finished s) i"
    then show "i \<in> fst ` set (s_finished s)"
      using inv assms(3) by (auto simp: sched_inv_def ready_inv_def)
  qed
qed

lemma suite_runs_all_unblocked_witness:
  "\<exists>s. sample_run sample_suite = Some (True, s, ())
    \<and> \<not> can_start (all_tests (reg_tests sample_suite)) (s_finished s) 2
    \<and> can_start (all_tests (reg_tests sample_suite)) (s_finished s) 0"
proof (rule sample_run_result)
  fix s
  assume s: "sample_run sample_suite = Some (True, s, ())" "map fst (s_finished s) = [1, 0]"
  then have "fst ` set (s_finished s) = {1, 0}"
    by (metis list.set(1,2) list.set_map)
  then show ?thesis
    using s(1) suite_runs_all_unblocked [OF sample_suites_ok(1) s(1), of 2]
      suite_runs_all_unblocked [OF sample_suites_ok(1) s(1), of 0] by (simp add: sample_all)
qed



text \<open>A suite in which a dependency is misspelled, or has no tests, reports success without having
  run the tests that depend on it: if every test depends on such a module, nothing is run at all.\<close>

theorem missing_module_passes:
  assumes "registry_ok r" and "\<forall>t \<in> set (all_tests (reg_tests r)). missing \<in> set (t_deps t)"
    and "\<forall>t \<in> set (all_tests (reg_tests r)). t_module t \<noteq> missing"
  shows "\<exists>s c'. runAll (test_run ops drv n) config modules (reg_tests r) c = Some (True, s, c') \<and> s_finished s = []"
proof -
  obtain s c' where s: "runAll (test_run ops drv n) config modules (reg_tests r) c = Some (s_success s, s, c')"
      "sched_inv (all_tests (reg_tests r)) s" "counts_inv s"
    using runner.runAll_inv [OF registry_ok_ready [OF assms(1)], of ops drv n config modules c] by auto
  have "\<not> complete (all_tests (reg_tests r)) (s_finished s) missing"
    using assms(3) nth_mem unfolding complete_def by blast
  then have "\<not> can_start (all_tests (reg_tests r)) (s_finished s) i" if "i < length (all_tests (reg_tests r))" for i
    using assms(2) nth_mem [OF that] unfolding can_start_def by blast
  moreover have "i < length (all_tests (reg_tests r)) \<and> can_start (all_tests (reg_tests r)) (s_finished s) i"
    if "i \<in> fst ` set (s_finished s)" for i
  proof -
    have h: "fst ` set (s_finished s) \<subseteq> {..<length (all_tests (reg_tests r))}"
      "ordered_run (all_tests (reg_tests r)) (s_finished s)"
      using s(2) by (simp_all add: sched_inv_def history_inv_def)
    show ?thesis
      using subsetD [OF h(1) that] ordered_run_started [OF h(2) that] by simp
  qed
  ultimately have "i \<notin> fst ` set (s_finished s)" for i
    by metis
  then have "fst ` set (s_finished s) = {}"
    by (metis ex_in_conv)
  then have "s_finished s = []"
    by simp
  then show ?thesis
    using s(1,3) by (auto simp: counts_inv_def Let_def)
qed

lemma missing_module_passes_witness:
  "\<exists>s c'. sample_run broken_suite = Some (True, s, c') \<and> s_finished s = []"
proof (rule missing_module_passes [OF sample_suites_ok(2)])
  have "all_tests (reg_tests broken_suite) = [test_new ''doc'' ''c'' [''spell'']]"
    by code_simp
  then show "\<forall>t \<in> set (all_tests (reg_tests broken_suite)). ''spell'' \<in> set (t_deps t)"
    and "\<forall>t \<in> set (all_tests (reg_tests broken_suite)). t_module t \<noteq> ''spell''"
    by (simp_all add: test_new_def)
qed

end
