(* ===== verification/Refinement.thy ===== *)
theory Refinement
  imports Prelude
begin

text \<open>
  Programs over objects in memory against programs over their values. An operation may fail; the operation on
  the values says when. A theory that models objects proves this for one operation and has it for every program.
\<close>

fun run_steps :: "('op \<Rightarrow> 's \<Rightarrow> 's option) \<Rightarrow> 'op list \<Rightarrow> 's \<Rightarrow> 's option" where
  "run_steps step [] s = Some s"
| "run_steps step (op # ops) s = (case step op s of None \<Rightarrow> None | Some s \<Rightarrow> run_steps step ops s)"

lemma run_steps_total: "run_steps (\<lambda>op s. Some (f op s)) ops s = Some (fold f ops s)"
  by (induction ops arbitrary: s) simp_all

locale value_semantics =
  fixes step :: "'op \<Rightarrow> 's \<Rightarrow> 's option"
    and on_values :: "'op \<Rightarrow> 'v \<Rightarrow> 'v option"
    and ok :: "'s \<Rightarrow> bool"
    and vals :: "'s \<Rightarrow> 'v"
  assumes step_values: "ok s \<Longrightarrow> on_values op (vals s) = map_option vals (step op s)"
    and step_ok: "ok s \<Longrightarrow> step op s = Some s' \<Longrightarrow> ok s'"
begin

lemma run_values: "ok s \<Longrightarrow> map_option vals (run_steps step ops s) = run_steps on_values ops (vals s)"
proof (induction ops arbitrary: s)
  case (Cons op ops)
  then show ?case
    using step_values [of s op] step_ok [of s op] by (cases "step op s") auto
qed simp

lemma run_ok: "ok s \<Longrightarrow> run_steps step ops s = Some s' \<Longrightarrow> ok s'"
  by (induction ops arbitrary: s) (auto split: option.splits dest: step_ok)

end

end
