(* ===== verification/Buffer.thy ===== *)
theory Buffer
  imports Message Refinement
begin

text \<open>
  The owned byte arrays of \<^verbatim>\<open>include/dtest_core/buffer.h\<close> on an explicit heap. A buffer is its size and its
  pointer, \<open>None\<close> for the null pointer. \<open>malloc\<close> hands out fresh blocks whose bytes are the argument
  \<open>raw\<close>; freeing or reading a block that is not there is \<open>None\<close>. \<open>Buffers\<close> below is a program's set of
  buffer objects, over which the ownership invariant is stated.
\<close>

section \<open>The heap\<close>

record heap =
  h_next :: nat
  h_blocks :: "(nat, u8 list) umap"

definition heap_empty :: heap where
  "heap_empty = \<lparr>h_next = 0, h_blocks = []\<rparr>"

definition h_malloc :: "u8 list \<Rightarrow> heap \<Rightarrow> nat \<times> heap" where
  "h_malloc bs h = (h_next h, \<lparr>h_next = h_next h + 1, h_blocks = um_set (h_next h) bs (h_blocks h)\<rparr>)"

definition h_free :: "nat \<Rightarrow> heap \<Rightarrow> heap option" where
  "h_free p h =
    (case um_find p (h_blocks h) of
       None \<Rightarrow> None
     | Some _ \<Rightarrow> Some (h\<lparr>h_blocks := um_erase p (h_blocks h)\<rparr>))"

section \<open>Buffers\<close>

record buffer =
  b_size :: u64
  b_data :: "nat option"

definition buf_empty :: buffer where
  "buf_empty = \<lparr>b_size = 0, b_data = None\<rparr>"

definition buf_alloc :: "(nat \<Rightarrow> u8) \<Rightarrow> u64 \<Rightarrow> heap \<Rightarrow> buffer \<times> heap" where
  "buf_alloc raw len h =
    (case h_malloc (map raw [0..<unat len]) h of (p, h) \<Rightarrow> (\<lparr>b_size = len, b_data = Some p\<rparr>, h))"

text \<open>\<^verbatim>\<open>Buffer(const void *, size_t)\<close> copies \<open>len\<close> bytes from a source with the bytes \<open>src\<close>.\<close>

definition buf_from :: "u8 list \<Rightarrow> u64 \<Rightarrow> heap \<Rightarrow> (buffer \<times> heap) option" where
  "buf_from src len h =
    (if unat len \<le> length src
     then (case h_malloc (take (unat len) src) h of (p, h) \<Rightarrow> Some (\<lparr>b_size = len, b_data = Some p\<rparr>, h))
     else None)"

definition buf_free :: "buffer \<Rightarrow> heap \<Rightarrow> heap option" where
  "buf_free b h = (case b_data b of None \<Rightarrow> Some h | Some p \<Rightarrow> h_free p h)"

text \<open>The bytes behind a pointer, none behind the null pointer.\<close>

definition buf_bytes :: "heap \<Rightarrow> buffer \<Rightarrow> u8 list option" where
  "buf_bytes h b = (case b_data b of None \<Rightarrow> Some [] | Some p \<Rightarrow> um_find p (h_blocks h))"

definition buf_copy :: "buffer \<Rightarrow> heap \<Rightarrow> (buffer \<times> heap) option" where
  "buf_copy rhs h =
    (case buf_bytes h rhs of None \<Rightarrow> None | Some bs \<Rightarrow> buf_from bs (b_size rhs) h)"

text \<open>The move constructor: the new buffer and what is left of the source.\<close>

definition buf_move :: "buffer \<Rightarrow> buffer \<times> buffer" where
  "buf_move rhs = (\<lparr>b_size = b_size rhs, b_data = b_data rhs\<rparr>, buf_empty)"

definition buf_assign :: "buffer \<Rightarrow> buffer \<Rightarrow> heap \<Rightarrow> (buffer \<times> heap) option" where
  "buf_assign b rhs h = (case buf_free b h of None \<Rightarrow> None | Some h \<Rightarrow> buf_copy rhs h)"

definition buf_move_assign :: "buffer \<Rightarrow> buffer \<Rightarrow> heap \<Rightarrow> ((buffer \<times> buffer) \<times> heap) option" where
  "buf_move_assign b rhs h = map_option (\<lambda>h. (buf_move rhs, h)) (buf_free b h)"

text \<open>
  \<^verbatim>\<open>realloc\<close> as the C library documents it: a null pointer is allocated, a size of 0 frees the block and
  answers null, otherwise the block moves with its common prefix; \<open>ok\<close> is false when there is no memory.
\<close>

definition h_realloc :: "(nat \<Rightarrow> u8) \<Rightarrow> bool \<Rightarrow> nat option \<Rightarrow> nat \<Rightarrow> heap \<Rightarrow> (nat option \<times> heap) option" where
  "h_realloc raw ok p n h =
    (case p of
       None \<Rightarrow> Some (if ok then (case h_malloc (map raw [0..<n]) h of (q, h) \<Rightarrow> (Some q, h)) else (None, h))
     | Some p \<Rightarrow>
         (case um_find p (h_blocks h) of
            None \<Rightarrow> None
          | Some bs \<Rightarrow>
              if n = 0 then map_option (\<lambda>h. (None, h)) (h_free p h)
              else if ok then
                map_option (\<lambda>h. (case h_malloc (resize raw n bs) h of (q, h) \<Rightarrow> (Some q, h))) (h_free p h)
              else Some (None, h)))"

definition buf_resize :: "(nat \<Rightarrow> u8) \<Rightarrow> bool \<Rightarrow> u64 \<Rightarrow> buffer \<Rightarrow> heap \<Rightarrow> (bool \<times> buffer \<times> heap) option" where
  "buf_resize raw ok sz b h =
    (case h_realloc raw ok (b_data b) (unat sz) h of
       None \<Rightarrow> None
     | Some (ptr, h) \<Rightarrow>
         Some (if sz = 0 \<or> ptr \<noteq> None then (True, \<lparr>b_size = sz, b_data = ptr\<rparr>, h) else (False, b, h)))"

section \<open>A program's buffer objects\<close>

text \<open>
  Objects are named by numbers; \<open>o_live\<close> are those constructed and not yet destroyed. An operation on an
  object that is not live, or the construction of one that is, does nothing.
\<close>

datatype buf_op =
  Make nat
| Make_len nat u64
| Make_from nat "u8 list"
| Make_copy nat nat
| Make_move nat nat
| Assign nat nat
| Move_assign nat nat
| Resize nat u64 bool
| Destroy nat

record objects =
  o_heap :: heap
  o_live :: "(nat, buffer) umap"

definition obj_put :: "nat \<Rightarrow> (buffer \<times> heap) option \<Rightarrow> objects \<Rightarrow> objects option" where
  "obj_put i r s = map_option (\<lambda>(b, h). \<lparr>o_heap = h, o_live = um_set i b (o_live s)\<rparr>) r"

fun buf_apply :: "(nat \<Rightarrow> u8) \<Rightarrow> buf_op \<Rightarrow> objects \<Rightarrow> objects option" where
  "buf_apply raw (Make i) s =
    (case um_find i (o_live s) of Some _ \<Rightarrow> Some s | None \<Rightarrow> obj_put i (Some (buf_empty, o_heap s)) s)"
| "buf_apply raw (Make_len i len) s =
    (case um_find i (o_live s) of Some _ \<Rightarrow> Some s | None \<Rightarrow> obj_put i (Some (buf_alloc raw len (o_heap s))) s)"
| "buf_apply raw (Make_from i src) s =
    (case um_find i (o_live s) of Some _ \<Rightarrow> Some s
     | None \<Rightarrow> obj_put i (buf_from src (of_nat (length src)) (o_heap s)) s)"
| "buf_apply raw (Make_copy i j) s =
    (case (um_find i (o_live s), um_find j (o_live s)) of
       (None, Some rhs) \<Rightarrow> obj_put i (buf_copy rhs (o_heap s)) s
     | _ \<Rightarrow> Some s)"
| "buf_apply raw (Make_move i j) s =
    (case (um_find i (o_live s), um_find j (o_live s)) of
       (None, Some rhs) \<Rightarrow>
         (case buf_move rhs of (b, rhs) \<Rightarrow> Some (s\<lparr>o_live := um_set j rhs (um_set i b (o_live s))\<rparr>))
     | _ \<Rightarrow> Some s)"
| "buf_apply raw (Assign i j) s =
    (case (um_find i (o_live s), um_find j (o_live s)) of
       (Some b, Some rhs) \<Rightarrow> if i \<noteq> j then obj_put i (buf_assign b rhs (o_heap s)) s else Some s
     | _ \<Rightarrow> Some s)"
| "buf_apply raw (Move_assign i j) s =
    (case (um_find i (o_live s), um_find j (o_live s)) of
       (Some b, Some rhs) \<Rightarrow>
         if i \<noteq> j then
           (case buf_move_assign b rhs (o_heap s) of
              None \<Rightarrow> None
            | Some ((b, rhs), h) \<Rightarrow> Some \<lparr>o_heap = h, o_live = um_set j rhs (um_set i b (o_live s))\<rparr>)
         else Some s
     | _ \<Rightarrow> Some s)"
| "buf_apply raw (Resize i sz ok) s =
    (case um_find i (o_live s) of None \<Rightarrow> Some s
     | Some b \<Rightarrow> obj_put i (map_option snd (buf_resize raw ok sz b (o_heap s))) s)"
| "buf_apply raw (Destroy i) s =
    (case um_find i (o_live s) of None \<Rightarrow> Some s
     | Some b \<Rightarrow> map_option (\<lambda>h. \<lparr>o_heap = h, o_live = um_erase i (o_live s)\<rparr>) (buf_free b (o_heap s)))"

definition buf_run :: "(nat \<Rightarrow> u8) \<Rightarrow> buf_op list \<Rightarrow> objects \<Rightarrow> objects option" where
  "buf_run raw = run_steps (buf_apply raw)"

section \<open>Ownership\<close>

definition buf_ok :: "heap \<Rightarrow> buffer \<Rightarrow> bool" where
  "buf_ok h b \<longleftrightarrow> (case b_data b of
     None \<Rightarrow> b_size b = 0
   | Some p \<Rightarrow> \<exists>bs. um_find p (h_blocks h) = Some bs \<and> length bs = unat (b_size b))"

text \<open>Every live buffer has a block of its own, of its size, and there are no other blocks.\<close>

definition ptr_of :: "(nat \<Rightarrow> buffer option) \<Rightarrow> nat \<Rightarrow> nat option" where
  "ptr_of f i = (case f i of None \<Rightarrow> None | Some b \<Rightarrow> b_data b)"

definition owns :: "heap \<Rightarrow> (nat \<Rightarrow> buffer option) \<Rightarrow> bool" where
  "owns h f \<longleftrightarrow>
     (\<forall>i b. f i = Some b \<longrightarrow> buf_ok h b)
   \<and> (\<forall>i j p. ptr_of f i = Some p \<longrightarrow> ptr_of f j = Some p \<longrightarrow> i = j)
   \<and> (\<forall>p. um_find p (h_blocks h) \<noteq> None \<longrightarrow> p < h_next h \<and> (\<exists>i. ptr_of f i = Some p))"

definition buf_value :: "heap \<Rightarrow> buffer \<Rightarrow> u8 list" where
  "buf_value h b = (case buf_bytes h b of None \<Rightarrow> [] | Some bs \<Rightarrow> bs)"

definition values_of :: "heap \<Rightarrow> (nat \<Rightarrow> buffer option) \<Rightarrow> nat \<Rightarrow> u8 list option" where
  "values_of h f i = map_option (buf_value h) (f i)"

lemma ownsD:
  assumes "owns h f"
  shows "f i = Some b \<Longrightarrow> buf_ok h b"
    and "ptr_of f i = Some p \<Longrightarrow> ptr_of f j = Some p \<Longrightarrow> i = j"
    and "um_find p (h_blocks h) \<noteq> None \<Longrightarrow> p < h_next h"
    and "um_find p (h_blocks h) \<noteq> None \<Longrightarrow> \<exists>i. ptr_of f i = Some p"
  using assms unfolding owns_def by blast+

lemma ownsI:
  assumes "\<And>i b. f i = Some b \<Longrightarrow> buf_ok h b"
    and "\<And>i j p. ptr_of f i = Some p \<Longrightarrow> ptr_of f j = Some p \<Longrightarrow> i = j"
    and "\<And>p. um_find p (h_blocks h) \<noteq> None \<Longrightarrow> p < h_next h"
    and "\<And>p. um_find p (h_blocks h) \<noteq> None \<Longrightarrow> \<exists>i. ptr_of f i = Some p"
  shows "owns h f"
  using assms unfolding owns_def by blast

lemma buf_empty_facts [simp]: "buf_value h buf_empty = []" "b_data buf_empty = None" "buf_ok h buf_empty"
  by (simp_all add: buf_value_def buf_bytes_def buf_empty_def buf_ok_def)

lemma ptr_of_upd [simp]: "ptr_of (f(i := Some b)) = (ptr_of f)(i := b_data b)" "ptr_of (f(i := None)) = (ptr_of f)(i := None)"
  by (auto simp: ptr_of_def fun_eq_iff)

lemma values_of_upd: "values_of h (f(i := Some b)) = (values_of h f)(i := Some (buf_value h b))"
  by (auto simp: values_of_def fun_eq_iff)

text \<open>Releasing the block of one object leaves it empty and the others as they are.\<close>

lemma owns_free:
  assumes own: "owns h f" and i: "f i = Some b"
  shows "\<exists>h'. buf_free b h = Some h' \<and> owns h' (f(i := Some buf_empty))
    \<and> values_of h' (f(i := Some buf_empty)) = (values_of h f)(i := Some [])"
proof (cases "b_data b")
  case None
  then have ptr: "ptr_of (f(i := Some buf_empty)) = ptr_of f"
    using i by (auto simp: ptr_of_def fun_eq_iff)
  have "owns h (f(i := Some buf_empty))"
    using own unfolding owns_def ptr by auto
  then show ?thesis
    using None by (auto simp: buf_free_def values_of_upd)
next
  case (Some p)
  then obtain bs where p: "um_find p (h_blocks h) = Some bs"
    using ownsD(1) [OF own i] by (auto simp: buf_ok_def)
  let ?h = "h\<lparr>h_blocks := um_erase p (h_blocks h)\<rparr>" and ?f = "f(i := Some buf_empty)"
  have pi: "ptr_of f i = Some p"
    using i Some by (simp add: ptr_of_def)
  have other: "b_data b' \<noteq> Some p" if "f j = Some b'" "j \<noteq> i" for j b'
    using ownsD(2) [OF own pi, of j] that by (auto simp: ptr_of_def)
  then have same: "buf_ok ?h b' = buf_ok h b'" "buf_value ?h b' = buf_value h b'" if "f j = Some b'" "j \<noteq> i" for j b'
    using that by (auto simp: buf_ok_def buf_value_def buf_bytes_def um_find_erase split: option.splits)
  have "owns ?h ?f"
  proof (rule ownsI)
    fix j b' assume "?f j = Some b'"
    then show "buf_ok ?h b'"
      using same(1) ownsD(1) [OF own] by (cases "j = i") auto
  next
    fix j k q assume "ptr_of ?f j = Some q" "ptr_of ?f k = Some q"
    then show "j = k"
      using ownsD(2) [OF own] by (auto split: if_splits)
  next
    fix q assume "um_find q (h_blocks ?h) \<noteq> None"
    then have q: "um_find q (h_blocks h) \<noteq> None" "q \<noteq> p"
      by (simp_all add: um_find_erase split: if_splits)
    show "q < h_next ?h"
      using ownsD(3) [OF own q(1)] by simp
    obtain j where "ptr_of f j = Some q"
      using ownsD(4) [OF own q(1)] by blast
    then show "\<exists>j. ptr_of ?f j = Some q"
      using pi q(2) by (intro exI [of _ j]) auto
  qed
  moreover have "values_of ?h ?f = (values_of h f)(i := Some [])"
    using same(2) by (auto simp: values_of_def fun_eq_iff intro!: option.map_cong)
  ultimately show ?thesis
    using Some p by (simp add: buf_free_def h_free_def)
qed

text \<open>An object without a block receives a fresh one.\<close>

lemma owns_give:
  assumes own: "owns h f" and i: "ptr_of f i = None" and len: "length bs = unat len"
    and m: "h_malloc bs h = (p, h')"
  shows "owns h' (f(i := Some \<lparr>b_size = len, b_data = Some p\<rparr>))
    \<and> values_of h' (f(i := Some \<lparr>b_size = len, b_data = Some p\<rparr>)) = (values_of h f)(i := Some bs)"
proof -
  let ?b = "\<lparr>b_size = len, b_data = Some p\<rparr>"
  have h': "p = h_next h" "h' = \<lparr>h_next = p + 1, h_blocks = um_set p bs (h_blocks h)\<rparr>"
    using m by (auto simp: h_malloc_def)
  have fresh: "um_find p (h_blocks h) = None"
    using ownsD(3) [OF own, of p] h'(1) by (cases "um_find p (h_blocks h)") auto
  have other: "b_data b' \<noteq> Some p" if "f j = Some b'" for j b'
    using ownsD(1) [OF own that] fresh by (auto simp: buf_ok_def)
  then have same: "buf_ok h' b' = buf_ok h b'" "buf_value h' b' = buf_value h b'" if "f j = Some b'" for j b'
    using that by (auto simp: h' buf_ok_def buf_value_def buf_bytes_def um_find_set split: option.splits)
  have unused: "ptr_of f j \<noteq> Some p" for j
    using other by (auto simp: ptr_of_def split: option.splits)
  have new: "buf_ok h' ?b" "buf_value h' ?b = bs"
    by (simp_all add: buf_ok_def buf_value_def buf_bytes_def h' um_find_set len)
  have "owns h' (f(i := Some ?b))"
  proof (rule ownsI)
    fix j b' assume "(f(i := Some ?b)) j = Some b'"
    then show "buf_ok h' b'"
      using same(1) ownsD(1) [OF own] new(1) by (cases "j = i") auto
  next
    fix j k q assume "ptr_of (f(i := Some ?b)) j = Some q" "ptr_of (f(i := Some ?b)) k = Some q"
    then show "j = k"
      using ownsD(2) [OF own] unused by (auto split: if_splits)
  next
    fix q assume q: "um_find q (h_blocks h') \<noteq> None"
    show "q < h_next h'"
      using ownsD(3) [OF own, of q] q by (auto simp: h' um_find_set split: if_splits)
    show "\<exists>j. ptr_of (f(i := Some ?b)) j = Some q"
    proof (cases "q = p")
      case False
      then obtain j where "ptr_of f j = Some q"
        using ownsD(4) [OF own, of q] q by (auto simp: h' um_find_set)
      then show ?thesis
        using i by (intro exI [of _ j]) auto
    qed (auto intro: exI [of _ i])
  qed
  moreover have "values_of h' (f(i := Some ?b)) = (values_of h f)(i := Some bs)"
    using same(2) new(2) by (auto simp: values_of_def fun_eq_iff intro!: option.map_cong)
  ultimately show ?thesis
    by simp
qed

text \<open>A block changes hands.\<close>

lemma owns_hand_over:
  assumes own: "owns h f" and ij: "i \<noteq> j" and i: "ptr_of f i = None" and j: "f j = Some b"
  shows "owns h (f(i := Some b, j := Some buf_empty))
    \<and> values_of h (f(i := Some b, j := Some buf_empty)) = (values_of h f)(i := Some (buf_value h b), j := Some [])"
proof -
  have pj: "ptr_of f j = b_data b"
    using j by (simp add: ptr_of_def)
  have "owns h (f(i := Some b, j := Some buf_empty))"
  proof (rule ownsI)
    fix k b' assume "(f(i := Some b, j := Some buf_empty)) k = Some b'"
    then show "buf_ok h b'"
      using ownsD(1) [OF own] j by (auto split: if_splits)
  next
    fix k l q
    assume "ptr_of (f(i := Some b, j := Some buf_empty)) k = Some q" "ptr_of (f(i := Some b, j := Some buf_empty)) l = Some q"
    then show "k = l"
      using ownsD(2) [OF own, of _ q] pj by (auto split: if_splits)
  next
    fix q assume q: "um_find q (h_blocks h) \<noteq> None"
    show "q < h_next h"
      by (rule ownsD(3) [OF own q])
    obtain k where "ptr_of f k = Some q"
      using ownsD(4) [OF own q] by blast
    then show "\<exists>k. ptr_of (f(i := Some b, j := Some buf_empty)) k = Some q"
      using i pj ij by (intro exI [of _ "if k = j then i else k"]) auto
  qed
  then show ?thesis
    by (simp add: values_of_upd)
qed

section \<open>Value semantics\<close>

text \<open>What each operation does when buffers are plain byte strings.\<close>

fun value_apply :: "(nat \<Rightarrow> u8) \<Rightarrow> buf_op \<Rightarrow> (nat \<Rightarrow> u8 list option) \<Rightarrow> nat \<Rightarrow> u8 list option" where
  "value_apply raw (Make i) v = (if v i = None then v(i := Some []) else v)"
| "value_apply raw (Make_len i len) v = (if v i = None then v(i := Some (map raw [0..<unat len])) else v)"
| "value_apply raw (Make_from i src) v =
    (if v i = None then v(i := Some (take (unat (of_nat (length src) :: u64)) src)) else v)"
| "value_apply raw (Make_copy i j) v = (if v i = None \<and> v j \<noteq> None then v(i := v j) else v)"
| "value_apply raw (Make_move i j) v = (if v i = None \<and> v j \<noteq> None then v(i := v j, j := Some []) else v)"
| "value_apply raw (Assign i j) v = (if v i \<noteq> None \<and> v j \<noteq> None then v(i := v j) else v)"
| "value_apply raw (Move_assign i j) v =
    (if v i \<noteq> None \<and> v j \<noteq> None \<and> i \<noteq> j then v(i := v j, j := Some []) else v)"
| "value_apply raw (Resize i sz ok) v =
    (case v i of None \<Rightarrow> v
     | Some bs \<Rightarrow> if ok \<or> sz = 0 then v(i := Some (resize raw (unat sz) bs)) else v)"
| "value_apply raw (Destroy i) v = v(i := None)"

abbreviation (input) live :: "objects \<Rightarrow> nat \<Rightarrow> buffer option" where
  "live s \<equiv> \<lambda>i. um_find i (o_live s)"

definition objects_ok :: "objects \<Rightarrow> bool" where
  "objects_ok s \<longleftrightarrow> owns (o_heap s) (live s)"

definition object_values :: "objects \<Rightarrow> nat \<Rightarrow> u8 list option" where
  "object_values s = values_of (o_heap s) (live s)"

lemma live_set [simp]: "(\<lambda>j. um_find j (um_set i b m)) = (\<lambda>j. um_find j m)(i := Some b)"
  by (auto simp: um_find_set fun_eq_iff)

lemma live_erase [simp]: "(\<lambda>j. um_find j (um_erase i m)) = (\<lambda>j. um_find j m)(i := None)"
  by (auto simp: um_find_erase fun_eq_iff)

lemma values_None [simp]: "values_of h f i = None \<longleftrightarrow> f i = None"
  by (simp add: values_of_def)

lemma owns_new:
  assumes "owns h f" and "ptr_of f i = None"
  shows "owns h (f(i := Some buf_empty))"
proof -
  have ptr: "ptr_of (f(i := Some buf_empty)) = ptr_of f"
    using assms(2) by (simp add: fun_upd_idem)
  show ?thesis
    using assms(1) unfolding owns_def ptr by auto
qed

lemma owns_drop:
  assumes "owns h (f(i := Some buf_empty))"
  shows "owns h (f(i := None))"
proof -
  have ptr: "ptr_of (f(i := None)) = ptr_of (f(i := Some buf_empty))"
    by simp
  show ?thesis
  proof (rule ownsI)
    fix j b assume "(f(i := None)) j = Some b"
    then show "buf_ok h b"
      by (intro ownsD(1) [OF assms, of j]) (auto split: if_splits)
  next
    fix j k p assume "ptr_of (f(i := None)) j = Some p" "ptr_of (f(i := None)) k = Some p"
    then show "j = k"
      unfolding ptr by (rule ownsD(2) [OF assms])
  next
    fix p assume p: "um_find p (h_blocks h) \<noteq> None"
    show "p < h_next h"
      by (rule ownsD(3) [OF assms p])
    show "\<exists>j. ptr_of (f(i := None)) j = Some p"
      unfolding ptr by (rule ownsD(4) [OF assms p])
  qed
qed

lemma owns_copy:
  assumes own: "owns h f" and i: "ptr_of f i = None" and j: "f j = Some rhs"
  shows "\<exists>b h'. buf_copy rhs h = Some (b, h') \<and> owns h' (f(i := Some b))
    \<and> values_of h' (f(i := Some b)) = (values_of h f)(i := Some (buf_value h rhs))"
proof -
  obtain bs where bs: "buf_bytes h rhs = Some bs" "length bs = unat (b_size rhs)"
    using ownsD(1) [OF own j] by (auto simp: buf_ok_def buf_bytes_def split: option.splits)
  obtain p h' where m: "h_malloc bs h = (p, h')"
    by (cases "h_malloc bs h")
  have "buf_copy rhs h = Some (\<lparr>b_size = b_size rhs, b_data = Some p\<rparr>, h')" "buf_value h rhs = bs"
    using bs m by (simp_all add: buf_copy_def buf_from_def buf_value_def)
  then show ?thesis
    using owns_give [OF own i bs(2) m] by auto
qed

lemma owns_resize:
  assumes own: "owns h f" and i: "f i = Some b"
  shows "\<exists>r b' h'. buf_resize raw ok sz b h = Some (r, b', h') \<and> owns h' (f(i := Some b'))
    \<and> values_of h' (f(i := Some b'))
      = (if ok \<or> sz = 0 then (values_of h f)(i := Some (resize raw (unat sz) (buf_value h b))) else values_of h f)"
proof -
  have self: "f(i := Some b) = f"
    using i by auto
  have zero: "unat sz = 0 \<longleftrightarrow> sz = 0"
    by (rule unat_eq_0)
  have empty: "\<lparr>b_size = 0, b_data = None\<rparr> = buf_empty"
    by (simp add: buf_empty_def)
  show ?thesis
  proof (cases "b_data b")
    case None
    then have v: "buf_value h b = []" and ptr: "ptr_of f i = None"
      using i by (simp_all add: buf_value_def buf_bytes_def ptr_of_def)
    obtain p h' where m: "h_malloc (map raw [0..<unat sz]) h = (p, h')"
      by (cases "h_malloc (map raw [0..<unat sz]) h")
    have same: "(values_of h f)(i := Some []) = values_of h f"
      using i v by (simp add: fun_upd_idem values_of_def)
    show ?thesis
      using None v m owns_give [OF own ptr _ m] owns_new [OF own ptr] self own same
      by (auto simp: buf_resize_def h_realloc_def resize_def empty values_of_upd)
  next
    case (Some p)
    obtain bs where bs: "um_find p (h_blocks h) = Some bs"
      using ownsD(1) [OF own i] Some by (auto simp: buf_ok_def)
    then have v: "buf_value h b = bs"
      using Some by (simp add: buf_value_def buf_bytes_def)
    obtain h1 where h1: "buf_free b h = Some h1" "owns h1 (f(i := Some buf_empty))"
        "values_of h1 (f(i := Some buf_empty)) = (values_of h f)(i := Some [])"
      using owns_free [OF own i] by blast
    obtain q h' where m: "h_malloc (resize raw (unat sz) bs) h1 = (q, h')"
      by (cases "h_malloc (resize raw (unat sz) bs) h1")
    have len: "length (resize raw (unat sz) bs) = unat sz"
      by (simp add: resize_def)
    have free: "h_free p h = Some h1"
      using h1(1) Some by (simp add: buf_free_def)
    show ?thesis
      using Some bs v free h1(2,3) owns_give [OF h1(2) _ len m, of i] m self own
      by (auto simp: buf_resize_def h_realloc_def empty zero resize_def)
  qed
qed

lemma owns_assign:
  assumes own: "owns h f" and b: "f i = Some b" and rhs: "f j = Some rhs" and ij: "i \<noteq> j"
  shows "\<exists>b' h'. buf_assign b rhs h = Some (b', h') \<and> owns h' (f(i := Some b'))
    \<and> values_of h' (f(i := Some b')) = (values_of h f)(i := Some (buf_value h rhs))"
proof -
  obtain h1 where h1: "buf_free b h = Some h1" "owns h1 (f(i := Some buf_empty))"
      "values_of h1 (f(i := Some buf_empty)) = (values_of h f)(i := Some [])"
    using owns_free [OF own b] by blast
  have rhs1: "(f(i := Some buf_empty)) j = Some rhs"
    using rhs ij by simp
  have v: "buf_value h1 rhs = buf_value h rhs"
    using fun_cong [OF h1(3), of j] rhs ij by (simp add: values_of_def)
  have none: "ptr_of (f(i := Some buf_empty)) i = None"
    by (simp only: ptr_of_upd fun_upd_same buf_empty_facts)
  show ?thesis
    using owns_copy [OF h1(2) none rhs1] unfolding fun_upd_upd h1(3) v by (simp add: buf_assign_def h1(1))
qed

lemma owns_move_assign:
  assumes own: "owns h f" and b: "f i = Some b" and rhs: "f j = Some rhs" and ij: "i \<noteq> j"
  shows "\<exists>h'. buf_move_assign b rhs h = Some ((rhs, buf_empty), h') \<and> owns h' (f(i := Some rhs, j := Some buf_empty))
    \<and> values_of h' (f(i := Some rhs, j := Some buf_empty)) = (values_of h f)(i := Some (buf_value h rhs), j := Some [])"
proof -
  obtain h1 where h1: "buf_free b h = Some h1" "owns h1 (f(i := Some buf_empty))"
      "values_of h1 (f(i := Some buf_empty)) = (values_of h f)(i := Some [])"
    using owns_free [OF own b] by blast
  have rhs1: "(f(i := Some buf_empty)) j = Some rhs"
    using rhs ij by simp
  have v: "buf_value h1 rhs = buf_value h rhs"
    using fun_cong [OF h1(3), of j] rhs ij by (simp add: values_of_def)
  have none: "ptr_of (f(i := Some buf_empty)) i = None"
    by (simp only: ptr_of_upd fun_upd_same buf_empty_facts)
  show ?thesis
    using owns_hand_over [OF h1(2) ij none rhs1, unfolded fun_upd_upd h1(3) v]
    by (simp add: buf_move_assign_def buf_move_def h1(1))
qed

lemma owns_destroy:
  assumes own: "owns h f" and b: "f i = Some b"
  shows "\<exists>h'. buf_free b h = Some h' \<and> owns h' (f(i := None)) \<and> values_of h' (f(i := None)) = (values_of h f)(i := None)"
proof -
  obtain h1 where h1: "buf_free b h = Some h1" "owns h1 (f(i := Some buf_empty))"
      "values_of h1 (f(i := Some buf_empty)) = (values_of h f)(i := Some [])"
    using owns_free [OF own b] by blast
  moreover from h1(3) have "values_of h1 (f(i := None)) = (values_of h f)(i := None)"
    by (auto simp: fun_eq_iff values_of_def split: if_splits)
  ultimately show ?thesis
    using owns_drop by blast
qed

lemma buffer_eta [simp]: "\<lparr>b_size = b_size b, b_data = b_data b\<rparr> = b" for b :: buffer
  by simp

lemma values_at: "f i = Some b \<Longrightarrow> values_of h f i = Some (buf_value h b)"
  by (simp add: values_of_def)

lemma buf_apply_refines:
  assumes "objects_ok s"
  shows "\<exists>s'. buf_apply raw op s = Some s' \<and> objects_ok s' \<and> object_values s' = value_apply raw op (object_values s)"
proof -
  have own: "owns (o_heap s) (live s)"
    using assms by (simp add: objects_ok_def)
  have ptr: "ptr_of (live s) i = None" if "um_find i (o_live s) = None" for i
    using that by (simp add: ptr_of_def)
  note defs = objects_ok_def object_values_def obj_put_def
  show ?thesis
  proof (cases op)
    case (Make i)
    then show ?thesis
      using own owns_new [OF own ptr, of i] by (auto simp: defs values_of_upd split: option.splits)
  next
    case (Make_len i len)
    show ?thesis
    proof (cases "um_find i (o_live s)")
      case None
      obtain p h' where m: "h_malloc (map raw [0..<unat len]) (o_heap s) = (p, h')"
        by (cases "h_malloc (map raw [0..<unat len]) (o_heap s)")
      show ?thesis
        using None Make_len m owns_give [OF own ptr [OF None] _ m] by (simp add: defs buf_alloc_def)
    qed (use Make_len own in \<open>simp add: defs\<close>)
  next
    case (Make_from i src)
    show ?thesis
    proof (cases "um_find i (o_live s)")
      case None
      let ?n = "unat (of_nat (length src) :: u64)"
      have n: "?n \<le> length src"
        by (simp add: unat_of_nat take_bit_nat_less_eq_self)
      obtain p h' where m: "h_malloc (take ?n src) (o_heap s) = (p, h')"
        by (cases "h_malloc (take ?n src) (o_heap s)")
      have "length (take ?n src) = ?n"
        using n by simp
      from owns_give [OF own ptr [OF None] this m] show ?thesis
        using None Make_from m n by (simp add: defs buf_from_def)
    qed (use Make_from own in \<open>simp add: defs\<close>)
  next
    case (Make_copy i j)
    show ?thesis
    proof (cases "um_find i (o_live s) = None \<and> um_find j (o_live s) \<noteq> None")
      case True
      then obtain rhs where rhs: "um_find j (o_live s) = Some rhs"
        by auto
      show ?thesis
        using True Make_copy rhs owns_copy [OF own ptr [of i] rhs] values_at [of "live s" j rhs "o_heap s"]
        by (auto simp: defs)
    qed (use Make_copy own in \<open>auto simp: defs split: option.splits\<close>)
  next
    case (Make_move i j)
    show ?thesis
    proof (cases "um_find i (o_live s) = None \<and> um_find j (o_live s) \<noteq> None")
      case True
      then obtain rhs where rhs: "um_find j (o_live s) = Some rhs"
        by auto
      have ij: "i \<noteq> j"
        using True by auto
      show ?thesis
        using True Make_move rhs owns_hand_over [OF own ij ptr [of i] rhs] values_at [of "live s" j rhs "o_heap s"]
        by (simp add: defs buf_move_def)
    qed (use Make_move own in \<open>auto simp: defs split: option.splits\<close>)
  next
    case (Assign i j)
    show ?thesis
    proof (cases "i \<noteq> j \<and> um_find i (o_live s) \<noteq> None \<and> um_find j (o_live s) \<noteq> None")
      case True
      then obtain b rhs where b: "live s i = Some b" and rhs: "live s j = Some rhs" and ij: "i \<noteq> j"
        by auto
      show ?thesis
        using owns_assign [OF own b rhs ij] Assign b rhs ij values_at [of "live s" j rhs "o_heap s"] by (auto simp: defs)
    qed (use Assign own in \<open>auto simp: defs split: option.splits\<close>)
  next
    case (Move_assign i j)
    show ?thesis
    proof (cases "i \<noteq> j \<and> um_find i (o_live s) \<noteq> None \<and> um_find j (o_live s) \<noteq> None")
      case True
      then obtain b rhs where b: "live s i = Some b" and rhs: "live s j = Some rhs" and ij: "i \<noteq> j"
        by auto
      show ?thesis
        using owns_move_assign [OF own b rhs ij] Move_assign b rhs ij values_at [of "live s" j rhs "o_heap s"]
        by (auto simp: defs)
    qed (use Move_assign own in \<open>auto simp: defs split: option.splits\<close>)
  next
    case (Resize i sz ok)
    show ?thesis
    proof (cases "um_find i (o_live s)")
      case (Some b)
      then show ?thesis
        using Resize owns_resize [OF own Some, of raw ok sz] values_at [of "live s" i b "o_heap s"]
        by (auto simp: defs)
    qed (use Resize own in \<open>simp add: defs values_of_def\<close>)
  next
    case (Destroy i)
    show ?thesis
    proof (cases "um_find i (o_live s)")
      case None
      then show ?thesis
        using Destroy own by (auto simp: defs values_of_def fun_eq_iff)
    next
      case (Some b)
      then show ?thesis
        using owns_destroy [OF own Some] Destroy by (auto simp: defs)
    qed
  qed
qed

section \<open>Property\<close>

definition objects_empty :: objects where
  "objects_empty = \<lparr>o_heap = heap_empty, o_live = []\<rparr>"

lemma objects_empty_ok: "objects_ok objects_empty" "object_values objects_empty = (\<lambda>_. None)"
  by (simp_all add: objects_ok_def object_values_def objects_empty_def owns_def heap_empty_def um_find_def
      ptr_of_def values_of_def fun_eq_iff)

interpretation buffers: value_semantics "buf_apply raw" "\<lambda>op v. Some (value_apply raw op v)" objects_ok object_values for raw
proof
  fix s op assume ok: "objects_ok s"
  obtain s1 where s1: "buf_apply raw op s = Some s1" "objects_ok s1" "object_values s1 = value_apply raw op (object_values s)"
    using buf_apply_refines [OF ok] by blast
  then show "Some (value_apply raw op (object_values s)) = map_option object_values (buf_apply raw op s)"
    by simp
  show "objects_ok s'" if "buf_apply raw op s = Some s'" for s'
    using that s1 by simp
qed

lemma buf_run_refines:
  assumes "objects_ok s"
  shows "\<exists>s'. buf_run raw ops s = Some s' \<and> objects_ok s'
    \<and> object_values s' = fold (value_apply raw) ops (object_values s)"
  using buffers.run_values [OF assms, of raw ops] buffers.run_ok [OF assms, of raw ops]
  by (auto simp: buf_run_def run_steps_total)

text \<open>C15. Buffers behave as independent byte strings: whatever a program constructs, copies, moves,
  assigns, resizes and destroys, nothing is freed twice or used after it was freed, every live buffer has
  exactly the bytes the operations on plain byte strings give it, and every block that is still
  allocated belongs to exactly one live buffer, so destroying them all leaves none.\<close>

theorem buffers_are_values:
  "\<exists>s. buf_run raw ops objects_empty = Some s
    \<and> object_values s = fold (value_apply raw) ops (\<lambda>_. None)
    \<and> (\<forall>p. um_find p (h_blocks (o_heap s)) \<noteq> None \<longrightarrow> (\<exists>!i. ptr_of (\<lambda>i. um_find i (o_live s)) i = Some p))"
proof -
  obtain s where s: "buf_run raw ops objects_empty = Some s" "objects_ok s"
      "object_values s = fold (value_apply raw) ops (\<lambda>_. None)"
    using buf_run_refines [OF objects_empty_ok(1)] objects_empty_ok(2) by metis
  have own: "owns (o_heap s) (live s)"
    using s(2) by (simp add: objects_ok_def)
  have "\<exists>!i. ptr_of (live s) i = Some p" if "um_find p (h_blocks (o_heap s)) \<noteq> None" for p
    using ownsD(4) [OF own that] ownsD(2) [OF own] by blast
  then show ?thesis
    using s by blast
qed

theorem buffers_are_values_witness:
  "\<exists>s. buf_run (\<lambda>_. 0) [Make_from 1 [7, 8], Make_copy 2 1, Make 3, Move_assign 3 1, Resize 3 3 True, Destroy 2] objects_empty = Some s
    \<and> object_values s 1 = Some [] \<and> object_values s 2 = None \<and> object_values s 3 = Some [7, 8, 0]"
  using buffers_are_values [of "\<lambda>_. 0" "[Make_from 1 [7, 8], Make_copy 2 1, Make 3, Move_assign 3 1, Resize 3 3 True, Destroy 2]"]
  by (auto simp: resize_def upt_conv_Cons)

end
