(* ===== verification/Stdio.thy ===== *)
theory Stdio
  imports Buffer
begin

text \<open>
  The standard streams of a sandboxed run (\<^verbatim>\<open>_sandbox_stdio\<close>, \<^verbatim>\<open>_unsandbox_stdio\<close>, \<^verbatim>\<open>readFully\<close> and
  \<^verbatim>\<open>writeFully\<close> of \<^verbatim>\<open>src/sandbox.cpp\<close>) over a table of file descriptors and the contents of the pipes. A
  descriptor is \<open>None\<close> where the call that should give it fails (-1). The process never runs out of
  descriptors here.
\<close>

section \<open>Descriptors and pipes\<close>

datatype open_file = Ext nat | Pipe_read nat | Pipe_write nat

record descs =
  d_table :: "open_file option list"
  d_pipes :: "u8 list list"

definition fd_get :: "open_file option list \<Rightarrow> nat \<Rightarrow> open_file option" where
  "fd_get t i = (if i < length t then t ! i else None)"

definition fd_put :: "nat \<Rightarrow> open_file option \<Rightarrow> open_file option list \<Rightarrow> open_file option list" where
  "fd_put i f t = (if i < length t then t[i := f] else t @ replicate (i - length t) None @ [f])"

text \<open>The lowest free descriptor.\<close>

fun fd_free :: "open_file option list \<Rightarrow> nat" where
  "fd_free [] = 0"
| "fd_free (f # fs) = (if f = None then 0 else fd_free fs + 1)"

definition d_dup :: "nat \<Rightarrow> descs \<Rightarrow> nat option \<times> descs" where
  "d_dup fd d =
    (case fd_get (d_table d) fd of
       None \<Rightarrow> (None, d)
     | Some f \<Rightarrow> let i = fd_free (d_table d) in (Some i, d\<lparr>d_table := fd_put i (Some f) (d_table d)\<rparr>))"

definition d_dup2 :: "nat option \<Rightarrow> nat \<Rightarrow> descs \<Rightarrow> descs" where
  "d_dup2 old new d =
    (case old of
       None \<Rightarrow> d
     | Some fd \<Rightarrow>
         (case fd_get (d_table d) fd of
            None \<Rightarrow> d
          | Some f \<Rightarrow> d\<lparr>d_table := fd_put new (Some f) (d_table d)\<rparr>))"

definition d_close :: "nat option \<Rightarrow> descs \<Rightarrow> descs" where
  "d_close fd d =
    (case fd of
       None \<Rightarrow> d
     | Some i \<Rightarrow> if i < length (d_table d) then d\<lparr>d_table := (d_table d)[i := None]\<rparr> else d)"

definition d_pipe :: "descs \<Rightarrow> (nat option \<times> nat option) \<times> descs" where
  "d_pipe d =
    (let p = length (d_pipes d);
         r = fd_free (d_table d); t = fd_put r (Some (Pipe_read p)) (d_table d);
         w = fd_free t; t = fd_put w (Some (Pipe_write p)) t
     in ((Some r, Some w), \<lparr>d_table = t, d_pipes = d_pipes d @ [[]]\<rparr>))"

section \<open>Reading and writing everything\<close>

text \<open>A read takes what the pipe holds, up to the 1024 bytes asked for; an empty pipe ends the loop.\<close>

function read_loop :: "(nat \<Rightarrow> u8) \<Rightarrow> u8 list \<Rightarrow> nat \<Rightarrow> u8 list \<Rightarrow> nat \<times> u8 list" where
  "read_loop raw stream pos buf =
    (let buf = (if length buf < pos + 1024 then resize raw (pos + 1024) buf else buf);
         got = take 1024 stream
     in if got \<noteq> [] then
          read_loop raw (drop 1024 stream) (pos + length got)
            (take pos buf @ got @ drop (pos + length got) buf)
        else (pos, buf))"
  by pat_completeness auto
termination
  by (relation "measure (\<lambda>(raw, stream, pos, buf). length stream)") auto

declare read_loop.simps [simp del]

definition readFully :: "(nat \<Rightarrow> u8) \<Rightarrow> u8 list \<Rightarrow> u8 list \<Rightarrow> u8 list" where
  "readFully raw stream buf = (case read_loop raw stream 0 buf of (pos, buf) \<Rightarrow> resize raw pos buf)"

text \<open>
  \<open>accept n f\<close> is how many of \<open>n\<close> bytes the kernel takes into a pipe with \<open>f\<close> bytes of space; a call
  that takes none is repeated. The loop may never end, so it has fuel.
\<close>

fun writeFully :: "nat \<Rightarrow> (nat \<Rightarrow> nat \<Rightarrow> nat) \<Rightarrow> nat \<Rightarrow> u8 list \<Rightarrow> u8 list \<Rightarrow> u8 list option" where
  "writeFully 0 accept cap data pipe = None"
| "writeFully (Suc n) accept cap data pipe =
    (if data = [] then Some pipe
     else let k = accept (length data) (cap - length pipe)
          in writeFully n accept cap (drop k data) (pipe @ take k data))"

section \<open>The redirection\<close>

record stdio =
  saved_in :: "nat option"
  saved_out :: "nat option"
  saved_err :: "nat option"
  sandboxed_out :: "nat option"
  sandboxed_err :: "nat option"

text \<open>The file behind a descriptor, when it is an end of a pipe, and the pipe's contents.\<close>

definition pipe_of :: "nat option \<Rightarrow> descs \<Rightarrow> nat option" where
  "pipe_of fd d =
    (case fd of
       None \<Rightarrow> None
     | Some i \<Rightarrow>
         (case fd_get (d_table d) i of
            Some (Pipe_read p) \<Rightarrow> if p < length (d_pipes d) then Some p else None
          | Some (Pipe_write p) \<Rightarrow> if p < length (d_pipes d) then Some p else None
          | _ \<Rightarrow> None))"

definition sandbox_stdio ::
  "nat \<Rightarrow> (nat \<Rightarrow> nat \<Rightarrow> nat) \<Rightarrow> nat \<Rightarrow> u8 list \<Rightarrow> descs \<Rightarrow> (stdio \<times> descs) option" where
  "sandbox_stdio fuel accept cap input d =
    (let (s0, d) = d_dup 0 d;
         ((r, w), d) = d_pipe d;
         d = d_dup2 r 0 d
     in case pipe_of w d of
          None \<Rightarrow> None
        | Some p \<Rightarrow>
            (case writeFully fuel accept cap input (d_pipes d ! p) of
               None \<Rightarrow> None
             | Some pipe \<Rightarrow>
                 let d = d_close w (d\<lparr>d_pipes := (d_pipes d)[p := pipe]\<rparr>);
                     (s1, d) = d_dup 1 d;
                     ((r1, w1), d) = d_pipe d;
                     d = d_dup2 w1 1 d;
                     (s2, d) = d_dup 2 d;
                     ((r2, w2), d) = d_pipe d;
                     d = d_dup2 w2 2 d
                 in Some (\<lparr>saved_in = s0, saved_out = s1, saved_err = s2,
                           sandboxed_out = r1, sandboxed_err = r2\<rparr>, d)))"

text \<open>\<^verbatim>\<open>readFully\<close> on a descriptor: a failing read gives nothing.\<close>

definition read_fd :: "(nat \<Rightarrow> u8) \<Rightarrow> nat option \<Rightarrow> u8 list \<Rightarrow> descs \<Rightarrow> u8 list \<times> descs" where
  "read_fd raw fd buf d =
    (case pipe_of fd d of
       None \<Rightarrow> (readFully raw [] buf, d)
     | Some p \<Rightarrow> (readFully raw (d_pipes d ! p) buf, d\<lparr>d_pipes := (d_pipes d)[p := []]\<rparr>))"

text \<open>The part for one output stream: its descriptor, the pipe's reading end and the saved descriptor.\<close>

definition restore_output ::
  "(nat \<Rightarrow> u8) \<Rightarrow> nat \<Rightarrow> nat option \<Rightarrow> nat option \<Rightarrow> u8 list \<Rightarrow> descs \<Rightarrow> u8 list \<times> descs" where
  "restore_output raw k sandboxed saved buf d =
    (let d = d_close (Some k) d;
         (buf, d) = read_fd raw sandboxed buf d;
         d = d_close sandboxed d;
         d = d_dup2 saved k d;
         d = d_close saved d
     in (buf, d))"

definition unsandbox_stdio ::
  "(nat \<Rightarrow> u8) \<Rightarrow> stdio \<Rightarrow> u8 list \<Rightarrow> u8 list \<Rightarrow> descs \<Rightarrow> u8 list \<times> u8 list \<times> descs" where
  "unsandbox_stdio raw st out err d =
    (let d = d_close (Some 0) d;
         d = d_dup2 (saved_in st) 0 d;
         d = d_close (saved_in st) d;
         (out, d) = restore_output raw 1 (sandboxed_out st) (saved_out st) out d;
         (err, d) = restore_output raw 2 (sandboxed_err st) (saved_err st) err d
     in (out, err, d))"

section \<open>Facts\<close>

lemma fd_get_put [simp]: "fd_get (fd_put i f t) = (fd_get t)(i := f)"
  by (auto simp: fun_eq_iff fd_get_def fd_put_def nth_append nth_list_update)

lemma fd_get_close [simp]: "fd_get (d_table (d_close (Some i) d)) = (fd_get (d_table d))(i := None)"
  by (auto simp: fun_eq_iff fd_get_def d_close_def nth_list_update)

lemma fd_get_free [simp]: "fd_get t (fd_free t) = None"
  by (induction t) (auto simp: fd_get_def)

lemma fd_free_not_open: "fd_get t i = Some f \<Longrightarrow> fd_free t \<noteq> i"
  by (metis fd_get_free option.distinct(1))

lemma d_pipes_frame [simp]:
  "d_pipes (d_close fd d) = d_pipes d" "d_pipes (d_dup2 a b d) = d_pipes d" "d_pipes (snd (d_dup i d)) = d_pipes d"
  by (auto simp: d_close_def d_dup2_def d_dup_def Let_def split: option.splits)

text \<open>Whatever the pipe holds is what \<^verbatim>\<open>readFully\<close> leaves in the buffer.\<close>

lemma read_loop_all:
  "pos \<le> length buf \<Longrightarrow> (case read_loop raw stream pos buf of (pos', buf') \<Rightarrow>
     pos' = pos + length stream \<and> pos' \<le> length buf' \<and> take pos' buf' = take pos buf @ stream)"
proof (induction raw stream pos buf rule: read_loop.induct)
  case (1 raw stream pos buf)
  let ?buf = "if length buf < pos + 1024 then resize raw (pos + 1024) buf else buf"
  let ?got = "take 1024 stream"
  have room: "pos + 1024 \<le> length ?buf" "take pos ?buf = take pos buf"
    using "1.prems" by auto
  show ?case
  proof (cases "?got = []")
    case True
    then show ?thesis
      using room "1.prems" by (subst read_loop.simps) (auto simp: Let_def)
  next
    case False
    let ?next = "take pos ?buf @ ?got @ drop (pos + length ?got) ?buf"
    have got: "length ?got \<le> 1024"
      by simp
    have "pos + length g \<le> length (take pos b @ g @ drop (pos + length g) b)"
      "take (pos + length g) (take pos b @ g @ drop (pos + length g) b) = take pos b @ g"
      if "pos \<le> length b" for b g :: "u8 list"
      using that by simp_all
    from this [of ?buf ?got] have fits: "pos + length ?got \<le> length ?next" "take (pos + length ?got) ?next = take pos buf @ ?got"
      using room by simp_all
    note IH = "1.IH" [OF refl refl False fits(1)]
    obtain pos' buf' where r: "read_loop raw (drop 1024 stream) (pos + length ?got) ?next = (pos', buf')"
      by (cases "read_loop raw (drop 1024 stream) (pos + length ?got) ?next")
    have next_end: "pos' = pos + length ?got + length (drop 1024 stream)" "pos' \<le> length buf'"
      "take pos' buf' = take pos buf @ ?got @ drop 1024 stream"
      using IH unfolding r fits(2) prod.case append_assoc by blast+
    have "read_loop raw stream pos buf = (pos', buf')"
      using False r by (subst read_loop.simps) (simp add: Let_def)
    moreover have "length ?got + length (drop 1024 stream) = length stream"
      by simp
    then have "pos' = pos + length stream"
      using next_end(1) by linarith
    ultimately show ?thesis
      using next_end(2,3) unfolding append_take_drop_id by (simp only: prod.case)
  qed
qed

lemma readFully_all [simp]: "readFully raw stream buf = stream"
  using read_loop_all [where pos = 0 and buf = buf and raw = raw and stream = stream] by (auto simp: readFully_def resize_def split: prod.splits)

text \<open>What the calls do to the table, as a function from descriptors.\<close>

abbreviation (input) table :: "descs \<Rightarrow> nat \<Rightarrow> open_file option" where
  "table d \<equiv> fd_get (d_table d)"

lemma d_dup_open:
  assumes "table d i = Some f"
  obtains s d' where "d_dup i d = (Some s, d')" "table d s = None" "table d' = (table d)(s \<mapsto> f)"
    "d_pipes d' = d_pipes d"
  using assms that by (simp add: d_dup_def Let_def)

lemma d_pipe_new:
  obtains r w d' where "d_pipe d = ((Some r, Some w), d')" "table d r = None" "table d w = None" "r \<noteq> w"
    "table d' = (table d)(r \<mapsto> Pipe_read (length (d_pipes d)), w \<mapsto> Pipe_write (length (d_pipes d)))"
    "d_pipes d' = d_pipes d @ [[]]"
proof -
  let ?r = "fd_free (d_table d)" and ?p = "length (d_pipes d)"
  let ?t = "fd_put ?r (Some (Pipe_read ?p)) (d_table d)"
  let ?w = "fd_free ?t"
  have w: "fd_get ?t ?w = None"
    by (rule fd_get_free)
  have "fd_get ?t ?r = Some (Pipe_read ?p)"
    by simp
  with w have rw: "?r \<noteq> ?w"
    by (metis option.distinct(1))
  moreover have "table d ?w = None"
    using w rw by simp
  ultimately show thesis
    by (intro that [of ?r ?w "\<lparr>d_table = fd_put ?w (Some (Pipe_write ?p)) ?t, d_pipes = d_pipes d @ [[]]\<rparr>"])
       (simp_all add: d_pipe_def Let_def)
qed

lemma d_dup2_open: "table d a = Some f \<Longrightarrow> table (d_dup2 (Some a) b d) = (table d)(b \<mapsto> f)"
  by (simp add: d_dup2_def)

lemma d_table_pipes [simp]: "d_table (d\<lparr>d_pipes := x\<rparr>) = d_table d"
  by simp

lemma pipe_of_write: "table d i = Some (Pipe_write p) \<Longrightarrow> p < length (d_pipes d) \<Longrightarrow> pipe_of (Some i) d = Some p"
  by (simp add: pipe_of_def)

lemma pipe_of_read: "table d i = Some (Pipe_read p) \<Longrightarrow> p < length (d_pipes d) \<Longrightarrow> pipe_of (Some i) d = Some p"
  by (simp add: pipe_of_def)

text \<open>The descriptors a redirection opens, all free before.\<close>

record opened =
  op_s0 :: nat
  op_r0 :: nat
  op_s1 :: nat
  op_r1 :: nat
  op_w1 :: nat
  op_s2 :: nat
  op_r2 :: nat
  op_w2 :: nat

definition opened_list :: "opened \<Rightarrow> nat list" where
  "opened_list n = [op_s0 n, op_r0 n, op_s1 n, op_r1 n, op_w1 n, op_s2 n, op_r2 n, op_w2 n]"

definition redirected :: "opened \<Rightarrow> nat \<Rightarrow> (nat \<Rightarrow> open_file option) \<Rightarrow> nat \<Rightarrow> open_file option" where
  "redirected n p m = m
     (op_s0 n := m 0, op_r0 n \<mapsto> Pipe_read p, 0 \<mapsto> Pipe_read p,
      op_s1 n := m 1, op_r1 n \<mapsto> Pipe_read (p + 1), op_w1 n \<mapsto> Pipe_write (p + 1), 1 \<mapsto> Pipe_write (p + 1),
      op_s2 n := m 2, op_r2 n \<mapsto> Pipe_read (p + 2), op_w2 n \<mapsto> Pipe_write (p + 2), 2 \<mapsto> Pipe_write (p + 2))"

lemma upd_None: "(m(a \<mapsto> x)) i = None \<longleftrightarrow> i \<noteq> a \<and> m i = None"
  by simp

lemma not_open: "m i = None \<Longrightarrow> m j = Some f \<Longrightarrow> i \<noteq> j" for m :: "nat \<Rightarrow> open_file option"
  by auto

lemma dup_and_pipe:
  assumes "table d k = Some f"
  obtains s r w d1 d2 where "d_dup k d = (Some s, d1)" "d_pipe d1 = ((Some r, Some w), d2)"
    "table d s = None" "table d r = None" "table d w = None" "distinct [s, r, w]"
    "table d2 = (table d)(s \<mapsto> f, r \<mapsto> Pipe_read (length (d_pipes d)), w \<mapsto> Pipe_write (length (d_pipes d)))"
    "d_pipes d2 = d_pipes d @ [[]]"
proof -
  obtain s d1 where d1: "d_dup k d = (Some s, d1)" "table d s = None" "table d1 = (table d)(s \<mapsto> f)"
      "d_pipes d1 = d_pipes d"
    using d_dup_open [OF assms] by blast
  obtain r w d2 where d2: "d_pipe d1 = ((Some r, Some w), d2)" "table d1 r = None" "table d1 w = None" "r \<noteq> w"
      "table d2 = (table d1)(r \<mapsto> Pipe_read (length (d_pipes d)), w \<mapsto> Pipe_write (length (d_pipes d)))"
      "d_pipes d2 = d_pipes d @ [[]]"
    using d_pipe_new [of d1] unfolding d1(4) by blast
  have rw: "r \<noteq> s" "table d r = None" "w \<noteq> s" "table d w = None"
    using d2(2,3) unfolding d1(3) upd_None by blast+
  have "distinct [s, r, w]"
    using rw(1,3) d2(4) by (metis distinct_length_2_or_more distinct_singleton)
  from that [OF d1(1) d2(1) d1(2) rw(2,4) this d2(5) [unfolded d1(3)] d2(6)] show thesis .
qed

lemma redirect_output:
  assumes "table d k = Some f" and ps: "d_pipes d = ps" "length ps = p"
  obtains s r w d1 d2 d3 where "d_dup k d = (Some s, d1)" "d_pipe d1 = ((Some r, Some w), d2)"
    "d_dup2 (Some w) k d2 = d3"
    "table d s = None" "table d r = None" "table d w = None" "distinct [s, r, w]"
    "table d3 = (table d)(s \<mapsto> f, r \<mapsto> Pipe_read p, w \<mapsto> Pipe_write p, k \<mapsto> Pipe_write p)"
    "d_pipes d3 = ps @ [[]]"
proof -
  obtain s r w d1 d2 where d: "d_dup k d = (Some s, d1)" "d_pipe d1 = ((Some r, Some w), d2)"
    "table d s = None" "table d r = None" "table d w = None" "distinct [s, r, w]"
    "table d2 = (table d)(s \<mapsto> f, r \<mapsto> Pipe_read (length (d_pipes d)), w \<mapsto> Pipe_write (length (d_pipes d)))"
    "d_pipes d2 = d_pipes d @ [[]]"
    by (rule dup_and_pipe [OF assms(1)]) (rule that)
  have "table d2 w = Some (Pipe_write p)"
    unfolding d(7) by (simp add: ps)
  from d_dup2_open [OF this, of k, unfolded d(7) ps]
  show thesis
    by (rule that [OF d(1,2) refl d(3-6)]) (simp only: d_pipes_frame d(8) ps)
qed

lemma sandbox_stdio_redirects:
  assumes m: "table d 0 = Some f0" "table d 1 = Some f1" "table d 2 = Some f2"
    and written: "writeFully fuel accept cap input [] = Some pipe"
  shows "\<exists>n d'. sandbox_stdio fuel accept cap input d
      = Some (\<lparr>saved_in = Some (op_s0 n), saved_out = Some (op_s1 n), saved_err = Some (op_s2 n),
               sandboxed_out = Some (op_r1 n), sandboxed_err = Some (op_r2 n)\<rparr>, d')
    \<and> distinct (opened_list n) \<and> (\<forall>i \<in> set (opened_list n). table d i = None)
    \<and> table d' = redirected n (length (d_pipes d)) (table d) \<and> d_pipes d' = d_pipes d @ [pipe, [], []]"
proof -
  let ?p = "length (d_pipes d)"
  have std: "i \<noteq> 0" "i \<noteq> 1" "i \<noteq> 2" if "table d i = None" for i
    by (rule not_open [where m = "table d", OF that m(1)], rule not_open [where m = "table d", OF that m(2)],
        rule not_open [where m = "table d", OF that m(3)])
  obtain s0 r0 w0 d1 d2 where a: "d_dup 0 d = (Some s0, d1)" "d_pipe d1 = ((Some r0, Some w0), d2)"
      "table d s0 = None" "table d r0 = None" "table d w0 = None" "distinct [s0, r0, w0]"
      "table d2 = (table d)(s0 \<mapsto> f0, r0 \<mapsto> Pipe_read ?p, w0 \<mapsto> Pipe_write ?p)" "d_pipes d2 = d_pipes d @ [[]]"
    by (rule dup_and_pipe [OF m(1)]) (rule that)
  define d3 where "d3 = d_dup2 (Some r0) 0 d2"
  have "table d2 r0 = Some (Pipe_read ?p)"
    using a(6) unfolding a(7) by simp
  from d_dup2_open [OF this, of 0] have d3: "table d3 = (table d2)(0 \<mapsto> Pipe_read ?p)" "d_pipes d3 = d_pipes d @ [[]]"
    by (simp_all add: d3_def a(8))
  have "table d3 w0 = Some (Pipe_write ?p)"
    using std [OF a(5)] unfolding d3(1) a(7) by simp
  then have w: "pipe_of (Some w0) d3 = Some ?p" "d_pipes d3 ! ?p = []"
    by (simp_all add: pipe_of_write d3(2))
  define d4 where "d4 = d_close (Some w0) (d3\<lparr>d_pipes := (d_pipes d3)[?p := pipe]\<rparr>)"
  have t4: "table d4 = (table d)(s0 \<mapsto> f0, r0 \<mapsto> Pipe_read ?p, 0 \<mapsto> Pipe_read ?p)"
    using a(5,6) std [OF a(5)] unfolding d4_def fd_get_close d_table_pipes d3(1) a(7) by (simp add: fun_eq_iff)
  have p4: "d_pipes d4 = d_pipes d @ [pipe]"
    by (simp add: d4_def d3(2))
  have m4: "table d4 1 = Some f1" "table d4 2 = Some f2"
    using m std [OF a(3)] std [OF a(4)] unfolding t4 by simp_all
  obtain s1 r1 w1 d5 d6 d7 where b: "d_dup 1 d4 = (Some s1, d5)" "d_pipe d5 = ((Some r1, Some w1), d6)"
      "d_dup2 (Some w1) 1 d6 = d7"
      "table d4 s1 = None" "table d4 r1 = None" "table d4 w1 = None" "distinct [s1, r1, w1]"
      "table d7 = (table d4)(s1 \<mapsto> f1, r1 \<mapsto> Pipe_read (?p + 1), w1 \<mapsto> Pipe_write (?p + 1), 1 \<mapsto> Pipe_write (?p + 1))"
      "d_pipes d7 = d_pipes d @ [pipe, []]"
    by (rule redirect_output [OF m4(1) p4, of "?p + 1"]) (simp, rule that, auto)
  note b' = b(4-6) [unfolded t4 upd_None]
  have m7: "table d7 2 = Some f2"
    using m4(2) std b' unfolding b(8) by simp
  obtain s2 r2 w2 d8 d9 d10 where c: "d_dup 2 d7 = (Some s2, d8)" "d_pipe d8 = ((Some r2, Some w2), d9)"
      "d_dup2 (Some w2) 2 d9 = d10"
      "table d7 s2 = None" "table d7 r2 = None" "table d7 w2 = None" "distinct [s2, r2, w2]"
      "table d10 = (table d7)(s2 \<mapsto> f2, r2 \<mapsto> Pipe_read (?p + 2), w2 \<mapsto> Pipe_write (?p + 2), 2 \<mapsto> Pipe_write (?p + 2))"
      "d_pipes d10 = d_pipes d @ [pipe, [], []]"
    by (rule redirect_output [OF m7 b(9), of "?p + 2"]) (simp, rule that, auto)
  note c' = c(4-6) [unfolded b(8) t4 upd_None]
  let ?n = "\<lparr>op_s0 = s0, op_r0 = r0, op_s1 = s1, op_r1 = r1, op_w1 = w1, op_s2 = s2, op_r2 = r2, op_w2 = w2\<rparr>"
  have run: "sandbox_stdio fuel accept cap input d
      = Some (\<lparr>saved_in = Some s0, saved_out = Some s1, saved_err = Some s2, sandboxed_out = Some r1, sandboxed_err = Some r2\<rparr>, d10)"
    unfolding sandbox_stdio_def a(1) Let_def prod.case a(2) d3_def [symmetric] w(1) option.case w(2) written
      d4_def [symmetric] b(1-3) c(1-3) ..
  have "distinct (opened_list ?n)"
    using a(6) b(7) c(7) b' c' by (auto simp: opened_list_def)
  moreover have "\<forall>i \<in> set (opened_list ?n). table d i = None"
    using a(3,4) b' c' by (simp add: opened_list_def)
  moreover have "table d10 = redirected ?n ?p (table d)"
    unfolding c(8) b(8) t4 redirected_def using m by simp
  ultimately show ?thesis
    using run c(9) by (intro exI [of _ ?n] exI [of _ d10]) simp
qed

lemma restore_output_open:
  assumes r: "table d r = Some (Pipe_read q)" "q < length (d_pipes d)" and s: "table d s = Some f"
    and ne: "distinct [k, r, s]"
  shows "\<exists>d'. restore_output raw k (Some r) (Some s) buf d = (d_pipes d ! q, d')
    \<and> table d' = (table d)(k \<mapsto> f, r := None, s := None) \<and> d_pipes d' = (d_pipes d)[q := []]"
proof -
  define d1 where "d1 = d_close (Some k) d"
  have t1: "table d1 = (table d)(k := None)"
    by (simp add: d1_def)
  have "table d1 r = Some (Pipe_read q)"
    using r(1) ne unfolding t1 by simp
  then have read: "read_fd raw (Some r) buf d1 = (d_pipes d ! q, d1\<lparr>d_pipes := (d_pipes d)[q := []]\<rparr>)"
    using r(2) pipe_of_read [of d1 r q] by (simp add: read_fd_def d1_def)
  define d2 where "d2 = d_close (Some r) (d1\<lparr>d_pipes := (d_pipes d)[q := []]\<rparr>)"
  have t2: "table d2 = (table d)(k := None, r := None)"
    unfolding d2_def fd_get_close d_table_pipes t1 ..
  have "table d2 s = Some f"
    using s ne unfolding t2 by simp
  from d_dup2_open [OF this, of k]
  have t3: "table (d_close (Some s) (d_dup2 (Some s) k d2)) = (table d)(k \<mapsto> f, r := None, s := None)"
    unfolding fd_get_close using ne by (auto simp: t2 fun_eq_iff)
  moreover have "restore_output raw k (Some r) (Some s) buf d
      = (d_pipes d ! q, d_close (Some s) (d_dup2 (Some s) k d2))"
    by (simp add: restore_output_def read flip: d1_def d2_def)
  ultimately show ?thesis
    by (simp add: d2_def)
qed

lemma unsandbox_stdio_restores:
  assumes m: "m 0 = Some f0" "m 1 = Some f1" "m 2 = Some f2" and n: "distinct (opened_list n)"
    and free: "\<forall>i \<in> set (opened_list n). m i = None"
    and d: "table d = redirected n p m" "d_pipes d = ps @ [a, o1, o2]" "length ps = p"
  shows "\<exists>d'. unsandbox_stdio raw \<lparr>saved_in = Some (op_s0 n), saved_out = Some (op_s1 n), saved_err = Some (op_s2 n),
        sandboxed_out = Some (op_r1 n), sandboxed_err = Some (op_r2 n)\<rparr> b1 b2 d = (o1, o2, d')
    \<and> table d' = m(op_r0 n \<mapsto> Pipe_read p, op_w1 n \<mapsto> Pipe_write (p + 1), op_w2 n \<mapsto> Pipe_write (p + 2))
    \<and> d_pipes d' = ps @ [a, [], []]"
proof -
  obtain s0 r0 s1 r1 w1 s2 r2 w2 where n_eq: "n = \<lparr>op_s0 = s0, op_r0 = r0, op_s1 = s1, op_r1 = r1, op_w1 = w1,
      op_s2 = s2, op_r2 = r2, op_w2 = w2\<rparr>"
    by (cases n)
  have none: "m s0 = None" "m r0 = None" "m s1 = None" "m r1 = None" "m w1 = None" "m s2 = None" "m r2 = None" "m w2 = None"
    using free by (simp_all add: n_eq opened_list_def)
  have dist: "distinct [0, 1, 2, s0, r0, s1, r1, w1, s2, r2, w2]"
  proof -
    have "i \<noteq> j" if "m i = None" "m j \<noteq> None" for i j
      using that by auto
    then show ?thesis
      using n none m by (simp add: n_eq opened_list_def) (metis option.distinct(1))
  qed
  let ?t = "redirected n p m"
  have t: "?t s0 = Some f0" "?t 1 = Some (Pipe_write (p + 1))"
    using dist m by (auto simp: redirected_def n_eq)
  define d1 where "d1 = d_close (Some s0) (d_dup2 (Some s0) 0 (d_close (Some 0) d))"
  have "table (d_close (Some 0) d) s0 = Some f0"
    using t(1) dist unfolding fd_get_close d(1) by auto
  from d_dup2_open [OF this, of 0] have t1: "table d1 = ?t(0 \<mapsto> f0, s0 := None)"
    unfolding d1_def fd_get_close by (simp add: d(1))
  have p1: "d_pipes d1 = ps @ [a, o1, o2]"
    by (simp add: d1_def d(2))
  have "table d1 r1 = Some (Pipe_read (p + 1))" "table d1 s1 = Some f1" "distinct [1, r1, s1]"
    using dist m by (auto simp: t1 redirected_def n_eq)
  from restore_output_open [OF this(1) _ this(2,3), of raw b1]
  obtain d2 where d2: "restore_output raw 1 (Some r1) (Some s1) b1 d1 = (o1, d2)"
      "table d2 = (table d1)(1 \<mapsto> f1, r1 := None, s1 := None)" "d_pipes d2 = ps @ [a, [], o2]"
    by (auto simp: p1 nth_append list_update_append d(3))
  have "table d2 r2 = Some (Pipe_read (p + 2))" "table d2 s2 = Some f2" "distinct [2, r2, s2]"
    using dist m by (auto simp: t1 d2(2) redirected_def n_eq)
  from restore_output_open [OF this(1) _ this(2,3), of raw b2]
  obtain d3 where d3: "restore_output raw 2 (Some r2) (Some s2) b2 d2 = (o2, d3)"
      "table d3 = (table d2)(2 \<mapsto> f2, r2 := None, s2 := None)" "d_pipes d3 = ps @ [a, [], []]"
    by (auto simp: d2(3) nth_append list_update_append d(3))
  have "table d3 = m(r0 \<mapsto> Pipe_read p, w1 \<mapsto> Pipe_write (p + 1), w2 \<mapsto> Pipe_write (p + 2))"
  proof
    fix x
    have ne: "0 \<noteq> s0" "0 \<noteq> r0" "0 \<noteq> s1" "0 \<noteq> r1" "0 \<noteq> w1" "0 \<noteq> s2" "0 \<noteq> r2" "0 \<noteq> w2"
        "1 \<noteq> s0" "1 \<noteq> r0" "1 \<noteq> s1" "1 \<noteq> r1" "1 \<noteq> w1" "1 \<noteq> s2" "1 \<noteq> r2" "1 \<noteq> w2"
        "2 \<noteq> s0" "2 \<noteq> r0" "2 \<noteq> s1" "2 \<noteq> r1" "2 \<noteq> w1" "2 \<noteq> s2" "2 \<noteq> r2" "2 \<noteq> w2"
        "distinct [s0, r0, s1, r1, w1, s2, r2, w2]" "distinct [w2, r2, s2, w1, r1, s1, r0, s0]"
      using dist by auto
    show "table d3 x = (m(r0 \<mapsto> Pipe_read p, w1 \<mapsto> Pipe_write (p + 1), w2 \<mapsto> Pipe_write (p + 2))) x"
    proof (cases "x \<in> {0, 1, 2, s0, r0, s1, r1, w1, s2, r2, w2}")
      case True
      then show ?thesis
        unfolding d3(2) d2(2) t1 redirected_def n_eq using ne m none by (elim insertE) simp_all
    next
      case False
      then show ?thesis
        unfolding d3(2) d2(2) t1 redirected_def n_eq by simp
    qed
  qed
  moreover have "unsandbox_stdio raw \<lparr>saved_in = Some s0, saved_out = Some s1, saved_err = Some s2,
        sandboxed_out = Some r1, sandboxed_err = Some r2\<rparr> b1 b2 d = (o1, o2, d3)"
    by (simp add: unsandbox_stdio_def d2(1) [simplified] d3(1) flip: d1_def)
  ultimately show ?thesis
    using d3(3) by (simp add: n_eq)
qed

section \<open>Properties\<close>

text \<open>What the kernel promises of a non-blocking write: no more than fits, and all of it when it fits.\<close>

definition accepts :: "(nat \<Rightarrow> nat \<Rightarrow> nat) \<Rightarrow> bool" where
  "accepts accept \<longleftrightarrow> (\<forall>n f. accept n f \<le> min n f \<and> (n \<le> f \<longrightarrow> accept n f = n))"

lemma acceptsD:
  assumes "accepts accept"
  shows "accept n f \<le> f" "accept n f \<le> n" "n \<le> f \<Longrightarrow> accept n f = n"
  using assms unfolding accepts_def by (metis min.bounded_iff)+

lemma writeFully_fits:
  assumes "accepts accept" and "length pipe + length data \<le> cap" and "2 \<le> fuel"
  shows "writeFully fuel accept cap data pipe = Some (pipe @ data)"
proof -
  obtain n where fuel: "fuel = Suc (Suc n)"
    using assms(3) by (metis Suc_le_D numeral_2_eq_2 Suc_le_mono)
  have "accept (length data) (cap - length pipe) = length data"
    using assms(2) by (intro acceptsD(3) [OF assms(1)]) linarith
  then show ?thesis
    by (simp add: fuel Let_def)
qed

lemma writeFully_full:
  assumes "accepts accept"
  shows "length pipe \<le> cap \<Longrightarrow> cap < length pipe + length data \<Longrightarrow> writeFully fuel accept cap data pipe = None"
proof (induction fuel arbitrary: data pipe)
  case (Suc n)
  let ?k = "accept (length data) (cap - length pipe)"
  have k: "?k \<le> cap - length pipe" "?k \<le> length data"
    by (rule acceptsD [OF assms])+
  have "writeFully n accept cap (drop ?k data) (pipe @ take ?k data) = None"
    using k Suc.prems by (intro Suc.IH) simp_all
  then show ?case
    using Suc.prems by (auto simp: Let_def)
qed simp

text \<open>C38. A run of the sandbox whose input fits the pipe gives the test that input, collects what it writes and puts the
  standard streams back: descriptors 0, 1 and 2 and every other open descriptor are as before. But three more
  descriptors stay open after every run: the reading end of the input's pipe and the writing ends of the
  two output pipes are never closed.\<close>

theorem stdio_restored_three_leak:
  assumes "fd_get (d_table d) 0 = Some f0" and "fd_get (d_table d) 1 = Some f1" and "fd_get (d_table d) 2 = Some f2"
    and "accepts accept" and "length input \<le> cap" and "2 \<le> fuel"
  shows "\<exists>st d1. sandbox_stdio fuel accept cap input d = Some (st, d1)
    \<and> d_pipes d1 = d_pipes d @ [input, [], []]
    \<and> map (\<lambda>i. fd_get (d_table d1) i) [0, 1, 2] = [Some (Pipe_read (length (d_pipes d))),
         Some (Pipe_write (length (d_pipes d) + 1)), Some (Pipe_write (length (d_pipes d) + 2))]
    \<and> (\<forall>unread out err. \<exists>d2 a b c. unsandbox_stdio raw st [] [] (d1\<lparr>d_pipes := d_pipes d @ [unread, out, err]\<rparr>) = (out, err, d2)
         \<and> distinct [a, b, c] \<and> (\<forall>i \<in> {a, b, c}. fd_get (d_table d) i = None)
         \<and> fd_get (d_table d2) = (fd_get (d_table d))(a \<mapsto> Pipe_read (length (d_pipes d)),
             b \<mapsto> Pipe_write (length (d_pipes d) + 1), c \<mapsto> Pipe_write (length (d_pipes d) + 2)))"
proof -
  let ?p = "length (d_pipes d)"
  have written: "writeFully fuel accept cap input [] = Some input"
    using writeFully_fits [OF assms(4), of "[]" input cap fuel] assms(5,6) by simp
  obtain n d1 where st: "sandbox_stdio fuel accept cap input d
      = Some (\<lparr>saved_in = Some (op_s0 n), saved_out = Some (op_s1 n), saved_err = Some (op_s2 n),
               sandboxed_out = Some (op_r1 n), sandboxed_err = Some (op_r2 n)\<rparr>, d1)"
      and n: "distinct (opened_list n)" "\<forall>i \<in> set (opened_list n). table d i = None"
      and t1: "table d1 = redirected n ?p (table d)" and p1: "d_pipes d1 = d_pipes d @ [input, [], []]"
    using sandbox_stdio_redirects [OF assms(1-3) written] by blast
  have three: "distinct [op_r0 n, op_w1 n, op_w2 n]" "\<forall>i \<in> {op_r0 n, op_w1 n, op_w2 n}. table d i = None"
    using n by (auto simp: opened_list_def)
  have std: "i \<notin> {0, 1, 2}" if "i \<in> set (opened_list n)" for i
  proof
    assume "i \<in> {0, 1, 2}"
    then show False
      using n(2) [rule_format, OF that] assms(1-3) by (elim insertE) simp_all
  qed
  have "op_s1 n \<notin> {0, 1, 2}" "op_r1 n \<notin> {0, 1, 2}" "op_w1 n \<notin> {0, 1, 2}"
    "op_s2 n \<notin> {0, 1, 2}" "op_r2 n \<notin> {0, 1, 2}" "op_w2 n \<notin> {0, 1, 2}"
    by (rule std; simp add: opened_list_def)+
  then have io: "map (table d1) [0, 1, 2] = [Some (Pipe_read ?p), Some (Pipe_write (?p + 1)), Some (Pipe_write (?p + 2))]"
    unfolding t1 redirected_def by auto
  have restored: "\<exists>d2 a b c. unsandbox_stdio raw \<lparr>saved_in = Some (op_s0 n), saved_out = Some (op_s1 n), saved_err = Some (op_s2 n),
        sandboxed_out = Some (op_r1 n), sandboxed_err = Some (op_r2 n)\<rparr> [] [] (d1\<lparr>d_pipes := d_pipes d @ [unread, out, err]\<rparr>) = (out, err, d2)
      \<and> distinct [a, b, c] \<and> (\<forall>i \<in> {a, b, c}. table d i = None)
      \<and> table d2 = (table d)(a \<mapsto> Pipe_read ?p, b \<mapsto> Pipe_write (?p + 1), c \<mapsto> Pipe_write (?p + 2))" for unread out err
  proof -
    let ?d = "d1\<lparr>d_pipes := d_pipes d @ [unread, out, err]\<rparr>"
    have "table ?d = redirected n ?p (table d)" "d_pipes ?d = d_pipes d @ [unread, out, err]"
      by (simp_all add: t1)
    from unsandbox_stdio_restores [OF assms(1-3) n this refl, of raw "[]" "[]"]
    show ?thesis
      by (elim exE conjE)
         (rule exI, rule exI [of _ "op_r0 n"], rule exI [of _ "op_w1 n"], rule exI [of _ "op_w2 n"],
          rule conjI, assumption, rule conjI [OF three(1)], rule conjI [OF three(2)], assumption)
  qed
  show ?thesis
    by (rule exI, rule exI, rule conjI [OF st], rule conjI [OF p1], rule conjI [OF io], (rule allI)+, rule restored)
qed

definition sample_descs :: descs where
  "sample_descs = \<lparr>d_table = [Some (Ext 0), Some (Ext 1), Some (Ext 2), Some (Ext 3)], d_pipes = []\<rparr>"

lemma accepts_min: "accepts min"
  by (simp add: accepts_def)

theorem stdio_restored_three_leak_witness:
  "\<exists>st d1 d2 a b c. sandbox_stdio 2 min 65536 [1, 2] sample_descs = Some (st, d1)
    \<and> unsandbox_stdio (\<lambda>_. 0) st [] [] (d1\<lparr>d_pipes := [[], [7], [8, 9]]\<rparr>) = ([7], [8, 9], d2)
    \<and> distinct [a, b, c] \<and> fd_get (d_table d2)
      = (fd_get (d_table sample_descs))(a \<mapsto> Pipe_read 0, b \<mapsto> Pipe_write 1, c \<mapsto> Pipe_write 2)"
proof -
  have std: "fd_get (d_table sample_descs) 0 = Some (Ext 0)" "fd_get (d_table sample_descs) 1 = Some (Ext 1)"
    "fd_get (d_table sample_descs) 2 = Some (Ext 2)" "d_pipes sample_descs = []"
    by (simp_all add: sample_descs_def fd_get_def)
  have sizes: "length [1, 2 :: u8] \<le> 65536" "2 \<le> (2 :: nat)"
    by simp_all
  show ?thesis
    using stdio_restored_three_leak [OF std(1-3) accepts_min sizes, of "\<lambda>_. 0"] std(4)
    by (simp only: append_Nil list.size add_0) blast
qed

text \<open>Input that does not fit into the pipe hangs the run before the test is even started: the
  parent writes it all first, to a pipe that nobody reads yet, and retries for ever once it is full.\<close>

theorem long_input_hangs:
  assumes "fd_get (d_table d) 0 = Some f" and "accepts accept" and "cap < length input"
  shows "sandbox_stdio fuel accept cap input d = None"
proof -
  have full: "writeFully fuel accept cap input [] = None"
    by (rule writeFully_full [OF assms(2)]) (use assms(3) in simp_all)
  obtain s r w d1 d2 where a: "d_dup 0 d = (Some s, d1)" "d_pipe d1 = ((Some r, Some w), d2)"
      "table d s = None" "table d r = None" "table d w = None" "distinct [s, r, w]"
      "table d2 = (table d)(s \<mapsto> f, r \<mapsto> Pipe_read (length (d_pipes d)), w \<mapsto> Pipe_write (length (d_pipes d)))"
      "d_pipes d2 = d_pipes d @ [[]]"
    by (rule dup_and_pipe [OF assms(1)]) (rule that)
  have r2: "table d2 r = Some (Pipe_read (length (d_pipes d)))"
    using a(6) unfolding a(7) by simp
  have "w \<noteq> 0"
    by (rule not_open [OF a(5) assms(1)])
  then have "table (d_dup2 (Some r) 0 d2) w = Some (Pipe_write (length (d_pipes d)))"
    unfolding d_dup2_open [OF r2] a(7) by simp
  then have w: "pipe_of (Some w) (d_dup2 (Some r) 0 d2) = Some (length (d_pipes d))"
    by (simp add: pipe_of_write a(8))
  have "d_pipes (d_dup2 (Some r) 0 d2) ! length (d_pipes d) = []"
    by (simp add: a(8))
  then show ?thesis
    unfolding sandbox_stdio_def a(1) Let_def prod.case a(2) w option.case by (simp add: full)
qed

theorem long_input_hangs_witness:
  "\<forall>fuel. sandbox_stdio fuel min 65536 (replicate 65537 0) sample_descs = None"
  by (rule allI, rule long_input_hangs [where f = "Ext 0"]) (simp_all add: sample_descs_def fd_get_def accepts_def)

end
