(* ===== verification/Sandbox_Run.thy ===== *)
theory Sandbox_Run
  imports Sandbox Stdio Message_Props
begin

text \<open>
  \<^verbatim>\<open>Sandbox::run\<close> of \<^verbatim>\<open>src/sandbox.cpp\<close>: the thread that runs the test's function in the child and sends one
  message, the signal handler, and the parent's loop that waits for the message, the child's end or the
  timeout. The child's state is \<open>sandbox \<times> 'c\<close>; the parent's callbacks work on a state \<open>'s\<close>. The
  kernel's answers (connections with their bytes, the clock, \<^verbatim>\<open>waitpid\<close>) are arguments.
\<close>

section \<open>The child\<close>

definition COMPLETE :: u8 where
  "COMPLETE = 0"

definition ERROR :: u8 where
  "ERROR = 1"

text \<open>What may be thrown: a \<^verbatim>\<open>SandboxException\<close>, another \<^verbatim>\<open>std::exception\<close> (each with its \<^verbatim>\<open>what()\<close>), anything else.\<close>

datatype exc = Exc_sandbox string | Exc_std string | Exc_other

fun exc_text :: "exc \<Rightarrow> string" where
  "exc_text (Exc_sandbox w) = c_str w"
| "exc_text (Exc_std w) = ''Detected uncaught exception: '' @ c_str w"
| "exc_text Exc_other = ''Unknown exception thrown''"

text \<open>The bytes of a message with an error, \<open>None\<close> if the message could not be built.\<close>

definition send_error :: "(nat \<Rightarrow> u8) \<Rightarrow> string \<Rightarrow> u8 list option" where
  "send_error raw text =
    (case shl_word raw ERROR (message_new raw DEFAULT_BUFFER_SIZE) of
       None \<Rightarrow> None
     | Some m \<Rightarrow>
         (case shl_string raw text m of
            None \<Rightarrow> None
          | Some m \<Rightarrow> map_option fst (msg_send m)))"

definition send_complete ::
  "(nat \<Rightarrow> u8) \<Rightarrow> (message \<Rightarrow> sandbox \<times> 'c \<Rightarrow> (message \<times> (sandbox \<times> 'c)) option) \<Rightarrow> sandbox \<times> 'c \<Rightarrow>
    (u8 list \<times> (sandbox \<times> 'c)) option" where
  "send_complete raw onComplete c =
    (case shl_word raw COMPLETE (message_new raw DEFAULT_BUFFER_SIZE) of
       None \<Rightarrow> None
     | Some m \<Rightarrow>
         (case onComplete m c of
            None \<Rightarrow> None
          | Some (m, c) \<Rightarrow> map_option (\<lambda>(bytes, m). (bytes, c)) (msg_send m)))"

definition on_sandbox :: "(sandbox \<Rightarrow> sandbox) \<Rightarrow> sandbox \<times> 'c \<Rightarrow> sandbox \<times> 'c" where
  "on_sandbox f c = (f (fst c), snd c)"

text \<open>The body of the thread, for a function that returns or throws.\<close>

definition child_thread ::
  "(nat \<Rightarrow> u8) \<Rightarrow> (sandbox \<times> 'c \<Rightarrow> exc option \<times> (sandbox \<times> 'c)) \<Rightarrow>
    (message \<Rightarrow> sandbox \<times> 'c \<Rightarrow> (message \<times> (sandbox \<times> 'c)) option) \<Rightarrow> sandbox \<times> 'c \<Rightarrow>
    (u8 list \<times> (sandbox \<times> 'c)) option" where
  "child_thread raw func onComplete c =
    (case func (on_sandbox sb_enter c) of
       (None, c) \<Rightarrow> send_complete raw onComplete (on_sandbox sb_exit c)
     | (Some e, c) \<Rightarrow>
         let c = on_sandbox sb_exitAll c
         in map_option (\<lambda>bytes. (bytes, c)) (send_error raw (exc_text e)))"

text \<open>\<^verbatim>\<open>__signalHandler\<close>: the bytes sent and the exit code, \<open>None\<close> when the handler returns.\<close>

datatype signal = SIGSEGV | SIGABRT | SIGPIPE | SIGKILL | SIGOTHER

definition signalHandler :: "(nat \<Rightarrow> u8) \<Rightarrow> string \<Rightarrow> signal \<Rightarrow> sandbox \<Rightarrow> (u8 list \<times> nat) option \<times> sandbox" where
  "signalHandler raw trace sig s =
    (case sig of
       SIGSEGV \<Rightarrow> (map_option (\<lambda>b. (b, 1)) (send_error raw (''Detected segmentation fault. Caused by:\<newline>'' @ trace)), sb_exitAll s)
     | SIGABRT \<Rightarrow> (map_option (\<lambda>b. (b, 1)) (send_error raw (''Caught abort signal. Caused by:\<newline>'' @ trace)), sb_exitAll s)
     | SIGPIPE \<Rightarrow> (Some ([], 2), sb_exitAll s)
     | SIGKILL \<Rightarrow> (Some ([], 2), sb_exitAll s)
     | SIGOTHER \<Rightarrow> (None, s))"

section \<open>The parent\<close>

text \<open>
  An answer to \<^verbatim>\<open>pollOrAcceptOrTimeout\<close> with the clock read after it: no connection, or a connection with
  the kernel's answers to receiving and the bytes on its stream. An answer to \<^verbatim>\<open>waitpid(pid, NULL, WNOHANG)\<close>:
  still running, with the clock, ended, or an error.
\<close>

datatype poll_answer = No_connection u64 | Connection "recv_answer list" "u8 list"

datatype wait_answer = Still_running u64 | Ended | Wait_error

text \<open>The parent's callback state with the history of the calls that concern the child and its connections.\<close>

datatype parent_call = Call_kill | Call_reap | Call_dispose | Call_success | Call_error string

record 's parent =
  p_state :: 's
  p_calls :: "parent_call list"

record 's callbacks =
  cb_success :: "message \<Rightarrow> 's \<Rightarrow> 's option"
  cb_error :: "string \<Rightarrow> 's \<Rightarrow> 's"

datatype 'p run_outcome = Run_ends bool 'p | Run_waits 'p | Run_undefined

definition p_call :: "parent_call \<Rightarrow> 's parent \<Rightarrow> 's parent" where
  "p_call c p = p\<lparr>p_calls := p_calls p @ [c]\<rparr>"

definition p_error :: "'s callbacks \<Rightarrow> string \<Rightarrow> 's parent \<Rightarrow> 's parent" where
  "p_error cb e p = p_call (Call_error e) (p\<lparr>p_state := cb_error cb e (p_state p)\<rparr>)"

text \<open>The loop over \<^verbatim>\<open>waitpid\<close>, once a message has been handled; \<open>fin\<close> is \<^verbatim>\<open>finished\<close>.\<close>

fun wait_loop :: "'s callbacks \<Rightarrow> u64 \<Rightarrow> bool \<Rightarrow> wait_answer list \<Rightarrow> 's parent \<Rightarrow> 's parent run_outcome" where
  "wait_loop cb timeout fin [] p = Run_waits p"
| "wait_loop cb timeout fin (a # as) p =
    (case a of
       Ended \<Rightarrow> Run_ends fin (p_call Call_reap p)
     | Wait_error \<Rightarrow> wait_loop cb timeout fin as p
     | Still_running el \<Rightarrow>
         if el > timeout then
           Run_ends fin (p_error cb (''Did not terminate properly after timeout of '' @ formatDuration (dbl_of_u64 timeout))
             (p_call Call_reap (p_call Call_kill p)))
         else wait_loop cb timeout fin as p)"

text \<open>A received message: \<^verbatim>\<open>finished\<close> and the parent's new state, \<open>None\<close> for a read outside the message.\<close>

definition handle_message :: "'s callbacks \<Rightarrow> bool \<Rightarrow> message \<Rightarrow> 's parent \<Rightarrow> (bool \<times> 's parent) option" where
  "handle_message cb fork m p =
    (case shr_word m of
       None \<Rightarrow> None
     | Some (code, m) \<Rightarrow>
         if code = COMPLETE then
           map_option (\<lambda>s. (True, p_call Call_success (p\<lparr>p_state := s\<rparr>))) (cb_success cb m (p_state p))
         else if code = ERROR then
           map_option (\<lambda>(reason, m). (True, p_error cb reason p)) (shr_string m)
         else
           Some (False, p_error cb ''An unexpected error has occurred'' (if fork then p_call Call_kill p else p)))"

fun parent_loop :: "(nat \<Rightarrow> u8) \<Rightarrow> 's callbacks \<Rightarrow> bool \<Rightarrow> u64 \<Rightarrow> wait_answer list \<Rightarrow> poll_answer list \<Rightarrow>
    's parent \<Rightarrow> 's parent run_outcome" where
  "parent_loop raw cb fork timeout ws [] p = Run_waits p"
| "parent_loop raw cb fork timeout ws (a # as) p =
    (case a of
       No_connection el \<Rightarrow>
         if el > timeout then
           Run_ends False (p_error cb (''Exceeded timeout of '' @ formatDuration (dbl_of_u64 timeout))
             (if fork then p_call Call_reap (p_call Call_kill p) else p))
         else parent_loop raw cb fork timeout ws as p
     | Connection answers stream \<Rightarrow>
         (case msg_recv raw answers stream (message_new raw DEFAULT_BUFFER_SIZE) of
            (Recv_overrun, _) \<Rightarrow> Run_undefined
          | (Recv_pending, _) \<Rightarrow> Run_waits p
          | (Recv_failed, _) \<Rightarrow> parent_loop raw cb fork timeout ws as (p_call Call_dispose p)
          | (Received m, _) \<Rightarrow>
              if \<not> msg_has m then parent_loop raw cb fork timeout ws as p
              else
                (case handle_message cb fork m p of
                   None \<Rightarrow> Run_undefined
                 | Some (fin, p) \<Rightarrow> if fork then wait_loop cb timeout fin ws p else Run_ends fin p)))"

text \<open>
  The whole call in the parent: the streams are redirected, the loop runs, the streams are restored.
  \<open>child\<close> is what the child's reading and writing did to the descriptors and pipes in between.
\<close>

definition sandbox_run ::
  "(nat \<Rightarrow> u8) \<Rightarrow> nat \<Rightarrow> (nat \<Rightarrow> nat \<Rightarrow> nat) \<Rightarrow> nat \<Rightarrow> (descs \<Rightarrow> descs) \<Rightarrow> 's callbacks \<Rightarrow> bool \<Rightarrow> u64 \<Rightarrow> u8 list \<Rightarrow>
    wait_answer list \<Rightarrow> poll_answer list \<Rightarrow> 's parent \<Rightarrow> descs \<Rightarrow>
    ('s parent \<times> u8 list \<times> u8 list \<times> descs) run_outcome" where
  "sandbox_run raw fuel accept cap child cb fork timeout input ws as p d =
    (case sandbox_stdio fuel accept cap input d of
       None \<Rightarrow> Run_waits (p, [], [], d)
     | Some (st, d) \<Rightarrow>
         (case parent_loop raw cb fork timeout ws as p of
            Run_undefined \<Rightarrow> Run_undefined
          | Run_waits p \<Rightarrow> Run_waits (p, [], [], d)
          | Run_ends fin p \<Rightarrow>
              (case unsandbox_stdio raw st [] [] (child d) of (out, err, d) \<Rightarrow> Run_ends fin (p, out, err, d))))"

section \<open>How a run ends\<close>

lemma p_call_calls [simp]: "p_calls (p_call c p) = p_calls p @ [c]" "p_state (p_call c p) = p_state p"
  by (simp_all add: p_call_def)

lemma p_error_calls [simp]: "p_calls (p_error cb e p) = p_calls p @ [Call_error e]"
    "p_state (p_error cb e p) = cb_error cb e (p_state p)"
  by (simp_all add: p_error_def)

text \<open>The calls of a run after those in \<open>p\<close>.\<close>

definition calls_after :: "'s parent \<Rightarrow> 's parent \<Rightarrow> parent_call list \<Rightarrow> bool" where
  "calls_after p p' cs \<longleftrightarrow> p_calls p' = p_calls p @ cs"

lemma wait_loop_end:
  "wait_loop cb timeout fin ws p = Run_ends r p' \<Longrightarrow> r = fin \<and>
     (calls_after p p' [Call_reap] \<or> (\<exists>e. calls_after p p' [Call_kill, Call_reap, Call_error e]))"
  by (induction ws) (auto simp: calls_after_def split: wait_answer.splits if_splits)

lemma handle_message_end:
  assumes "handle_message cb fork m p = Some (fin, p')"
  shows "(fin \<and> calls_after p p' [Call_success]) \<or> (\<exists>e. fin \<and> calls_after p p' [Call_error e])
    \<or> (\<exists>e. \<not> fin \<and> calls_after p p' ((if fork then [Call_kill] else []) @ [Call_error e]))"
  using assms by (auto simp: handle_message_def calls_after_def split: option.splits if_splits)

definition reports :: "parent_call \<Rightarrow> bool" where
  "reports c \<longleftrightarrow> c = Call_success \<or> (\<exists>e. c = Call_error e)"

text \<open>A run's calls: connections that failed, then a report, and in a forked run one reaping.\<close>

definition run_calls_ok :: "bool \<Rightarrow> bool \<Rightarrow> parent_call list \<Rightarrow> bool" where
  "run_calls_ok fork fin cs \<longleftrightarrow>
     count_list cs Call_reap = (if fork then 1 else 0)
   \<and> (fork \<longrightarrow> \<not> fin \<longrightarrow> Call_kill \<in> set cs)
   \<and> (\<not> fork \<longrightarrow> Call_kill \<notin> set cs)
   \<and> (\<exists>c \<in> set cs. reports c)
   \<and> count_list cs Call_success \<le> 1 \<and> (Call_success \<in> set cs \<longrightarrow> fin)"

lemma run_calls_dispose: "run_calls_ok fork fin cs \<Longrightarrow> run_calls_ok fork fin (Call_dispose # cs)"
  by (auto simp: run_calls_ok_def)

lemma count_list_append: "count_list (xs @ ys) x = count_list xs x + count_list ys x"
  by (induction xs) auto

lemma parent_loop_calls:
  "parent_loop raw cb fork timeout ws as p = Run_ends fin p' \<Longrightarrow>
    \<exists>cs. calls_after p p' cs \<and> run_calls_ok fork fin cs"
proof (induction "as" arbitrary: p)
  case (Cons a "as")
  show ?case
  proof (cases a)
    case (No_connection el)
    show ?thesis
    proof (cases "el > timeout")
      case True
      then show ?thesis
        using Cons.prems No_connection by (auto simp: calls_after_def run_calls_ok_def reports_def)
    qed (use Cons No_connection in auto)
  next
    case (Connection answers stream)
    obtain res st an where r: "msg_recv raw answers stream (message_new raw DEFAULT_BUFFER_SIZE) = (res, st, an)"
      by (metis prod.collapse)
    show ?thesis
    proof (cases res)
      case Recv_failed
      then have "parent_loop raw cb fork timeout ws as (p_call Call_dispose p) = Run_ends fin p'"
        using Cons.prems Connection r by simp
      from Cons.IH [OF this] obtain cs where "calls_after (p_call Call_dispose p) p' cs" "run_calls_ok fork fin cs"
        by blast
      then have "calls_after p p' (Call_dispose # cs) \<and> run_calls_ok fork fin (Call_dispose # cs)"
        by (simp add: calls_after_def run_calls_dispose)
      then show ?thesis ..
    next
      case (Received m)
      show ?thesis
      proof (cases "msg_has m")
        case False
        then show ?thesis
          using Cons Connection r Received by simp
      next
        case True
        then obtain fin1 p1 where h: "handle_message cb fork m p = Some (fin1, p1)"
            and w: "(if fork then wait_loop cb timeout fin1 ws p1 else Run_ends fin1 p1) = Run_ends fin p'"
          using Cons.prems Connection r Received by (auto split: option.splits)
        from handle_message_end [OF h] obtain cs1 where cs1: "calls_after p p1 cs1"
            "(fin1 \<and> cs1 = [Call_success]) \<or> (\<exists>e. fin1 \<and> cs1 = [Call_error e])
             \<or> (\<exists>e. \<not> fin1 \<and> cs1 = (if fork then [Call_kill] else []) @ [Call_error e])"
          by blast
        show ?thesis
        proof (cases fork)
          case False
          then have "calls_after p p' cs1" "fin = fin1"
            using w cs1(1) by auto
          then show ?thesis
            using cs1(2) False by (intro exI [of _ cs1]) (auto simp: run_calls_ok_def reports_def)
        next
          case fork: True
          then have "fin = fin1" and "\<exists>cs2. calls_after p1 p' cs2 \<and> (cs2 = [Call_reap] \<or> (\<exists>e. cs2 = [Call_kill, Call_reap, Call_error e]))"
            using wait_loop_end [of cb timeout fin1 ws p1 fin p'] w by auto
          then obtain cs2 where cs2: "calls_after p1 p' cs2" "cs2 = [Call_reap] \<or> (\<exists>e. cs2 = [Call_kill, Call_reap, Call_error e])"
            by blast
          have "calls_after p p' (cs1 @ cs2)"
            using cs1(1) cs2(1) by (simp add: calls_after_def)
          moreover have "run_calls_ok fork fin (cs1 @ cs2)"
            using cs1(2) cs2(2) fork \<open>fin = fin1\<close> by (auto simp: run_calls_ok_def reports_def)
          ultimately show ?thesis
            by blast
        qed
      qed
    qed (use Cons.prems Connection r in auto)
  qed
qed simp

end
