(* ===== verification/Sandbox_Run_Props.thy ===== *)
theory Sandbox_Run_Props
  imports Sandbox_Run
begin

text \<open>
  What a sandboxed run guarantees: every run that ends has reported and has reaped its child; it does end
  once the clock passes the timeout; and what the child sends, a result or an error, is what the
  parent's callbacks are given.
\<close>

section \<open>Every run reports and reaps\<close>

definition parent_init :: "'s \<Rightarrow> 's parent" where
  "parent_init s = \<lparr>p_state = s, p_calls = []\<rparr>"

text \<open>C14. A run that ends has called one of the callbacks, and the success callback at most once and only
  with the result "finished"; in a forked run the child has been waited for exactly once, and it has been
  killed unless its message was handled; a run in the same process kills nobody.\<close>

theorem run_reports_and_reaps:
  assumes "parent_loop raw cb fork timeout ws as (parent_init s) = Run_ends fin p"
  shows "run_calls_ok fork fin (p_calls p)"
  using parent_loop_calls [OF assms] by (auto simp: calls_after_def parent_init_def)

definition count_callbacks :: "nat callbacks" where
  "count_callbacks = \<lparr>cb_success = (\<lambda>m n. Some (n + 1)), cb_error = (\<lambda>e n. n + 100)\<rparr>"

theorem run_reports_and_reaps_witness:
  "\<exists>p. parent_loop (\<lambda>_. 0) count_callbacks True 5 [] [No_connection 3, No_connection 6] (parent_init 0) = Run_ends False p
    \<and> run_calls_ok True False (p_calls p)"
proof -
  obtain p where p: "parent_loop (\<lambda>_. 0) count_callbacks True 5 [] [No_connection 3, No_connection 6] (parent_init 0) = Run_ends False p"
    by simp
  with run_reports_and_reaps [OF p] show ?thesis
    by blast
qed

section \<open>A run ends\<close>

text \<open>
  A connection that does not stop the run: receiving from it does not block within a message or write outside
  the buffer, and a message that arrives is not read past its end. It may be empty, broken or closed.
\<close>

definition handles :: "'s callbacks \<Rightarrow> 's \<Rightarrow> message \<Rightarrow> bool" where
  "handles cb s m \<longleftrightarrow>
    (case shr_word m of
       None \<Rightarrow> False
     | Some (code, m) \<Rightarrow>
         if code = COMPLETE then cb_success cb m s \<noteq> None else code = ERROR \<longrightarrow> shr_string m \<noteq> None)"

definition answer_ends :: "(nat \<Rightarrow> u8) \<Rightarrow> 's callbacks \<Rightarrow> 's \<Rightarrow> poll_answer \<Rightarrow> bool" where
  "answer_ends raw cb s a \<longleftrightarrow> (case a of
     No_connection el \<Rightarrow> True
   | Connection answers stream \<Rightarrow>
       (case fst (msg_recv raw answers stream (message_new raw DEFAULT_BUFFER_SIZE)) of
          Recv_pending \<Rightarrow> False
        | Recv_overrun \<Rightarrow> False
        | Recv_failed \<Rightarrow> True
        | Received m \<Rightarrow> msg_has m \<longrightarrow> handles cb s m))"

text \<open>What the run makes of the first connection with a message, or of the first late poll.\<close>

definition delivers :: "(nat \<Rightarrow> u8) \<Rightarrow> poll_answer \<Rightarrow> bool" where
  "delivers raw a \<longleftrightarrow> (\<exists>answers stream m. a = Connection answers stream
     \<and> fst (msg_recv raw answers stream (message_new raw DEFAULT_BUFFER_SIZE)) = Received m \<and> msg_has m)"

lemma handles_handled: "handles cb (p_state p) m \<Longrightarrow> \<exists>fin p'. handle_message cb fork m p = Some (fin, p')"
  by (auto simp: handles_def handle_message_def split: option.splits prod.splits if_splits)

definition late :: "u64 \<Rightarrow> poll_answer \<Rightarrow> bool" where
  "late timeout a \<longleftrightarrow> (\<exists>el > timeout. a = No_connection el)"

definition wait_over :: "u64 \<Rightarrow> wait_answer \<Rightarrow> bool" where
  "wait_over timeout a \<longleftrightarrow> a = Ended \<or> (\<exists>el > timeout. a = Still_running el)"

lemma wait_loop_ends: "\<exists>a \<in> set ws. wait_over timeout a \<Longrightarrow> \<exists>q. wait_loop cb timeout fin ws p = Run_ends fin q"
  by (induction ws arbitrary: p) (auto simp: wait_over_def split: wait_answer.splits)

text \<open>The end of a run without a message: broken connections have been disposed of, the child has been killed and waited
  for, and the exceeded timeout has been reported.\<close>

definition timed_out :: "'s callbacks \<Rightarrow> bool \<Rightarrow> u64 \<Rightarrow> 's parent \<Rightarrow> 's parent \<Rightarrow> bool" where
  "timed_out cb fork timeout p q \<longleftrightarrow>
    (let e = ''Exceeded timeout of '' @ formatDuration (dbl_of_u64 timeout)
     in p_state q = cb_error cb e (p_state p)
       \<and> (\<exists>n. p_calls q = p_calls p @ replicate n Call_dispose @ (if fork then [Call_kill, Call_reap] else []) @ [Call_error e]))"

lemma timed_out_dispose: "timed_out cb fork timeout (p_call Call_dispose p) q \<Longrightarrow> timed_out cb fork timeout p q"
  unfolding timed_out_def Let_def
  by (elim conjE exE, intro conjI exI [of _ "Suc n" for n]) (simp_all only: p_call_calls replicate_Suc append_Cons append_Nil append_assoc)

lemma timed_out_now:
  "timed_out cb fork timeout p (p_error cb (''Exceeded timeout of '' @ formatDuration (dbl_of_u64 timeout))
     (if fork then p_call Call_reap (p_call Call_kill p) else p))"
  unfolding timed_out_def Let_def by (cases fork) (simp_all add: exI [of _ 0])

text \<open>C24. A run ends: whatever connections come, empty, broken or with a message, and however many, it gives a result
  once a poll finds nothing after the timeout has passed, provided that the child ends or can be killed, that
  no connection blocks in the middle of a message and that no message is shorter than what is read from it. When no
  connection delivers a message, the result is that the timeout was exceeded, after the child was killed
  and waited for.\<close>

theorem run_ends_after_timeout:
  assumes "\<exists>a \<in> set as. late timeout a" and "\<exists>a \<in> set ws. wait_over timeout a"
    and "\<forall>a \<in> set as. answer_ends raw cb (p_state p) a"
  shows "\<exists>fin q. parent_loop raw cb fork timeout ws as p = Run_ends fin q
    \<and> ((\<forall>a \<in> set as. \<not> delivers raw a) \<longrightarrow> \<not> fin \<and> timed_out cb fork timeout p q)"
  using assms(1,3)
proof (induction "as" arbitrary: p)
  case (Cons a "as")
  show ?case
  proof (cases a)
    case (No_connection el)
    show ?thesis
    proof (cases "el > timeout")
      case True
      have "parent_loop raw cb fork timeout ws (a # as) p
          = Run_ends False (p_error cb (''Exceeded timeout of '' @ formatDuration (dbl_of_u64 timeout))
              (if fork then p_call Call_reap (p_call Call_kill p) else p))"
        using True by (simp add: No_connection del: append.simps)
      then show ?thesis
        using timed_out_now [of cb fork timeout p] by blast
    next
      case False
      then have "\<exists>a \<in> set as. late timeout a" "\<forall>a \<in> set as. answer_ends raw cb (p_state p) a"
        using Cons.prems No_connection by (auto simp: late_def)
      from Cons.IH [OF this] show ?thesis
        using False by (auto simp: No_connection)
    qed
  next
    case (Connection answers stream)
    then have later: "\<exists>a \<in> set as. late timeout a" "\<forall>a \<in> set as. answer_ends raw cb (p_state p) a"
      using Cons.prems by (auto simp: late_def)
    obtain res st an where r: "msg_recv raw answers stream (message_new raw DEFAULT_BUFFER_SIZE) = (res, st, an)"
      by (metis prod.collapse)
    have ok: "case res of Recv_pending \<Rightarrow> False | Recv_overrun \<Rightarrow> False | Recv_failed \<Rightarrow> True
        | Received m \<Rightarrow> msg_has m \<longrightarrow> handles cb (p_state p) m"
      using Cons.prems(2) Connection r by (simp add: answer_ends_def)
    show ?thesis
    proof (cases res)
      case Recv_failed
      then have step: "parent_loop raw cb fork timeout ws (a # as) p = parent_loop raw cb fork timeout ws as (p_call Call_dispose p)"
        using Connection r by simp
      from later(2) have "\<forall>a \<in> set as. answer_ends raw cb (p_state (p_call Call_dispose p)) a"
        by simp
      from Cons.IH [OF later(1) this] show ?thesis
        unfolding step by (auto intro: timed_out_dispose)
    next
      case (Received m)
      show ?thesis
      proof (cases "msg_has m")
        case False
        then show ?thesis
          using Cons.IH [OF later] Connection r Received by auto
      next
        case True
        then obtain fin p1 where h: "handle_message cb fork m p = Some (fin, p1)"
          using ok handles_handled [of cb p m fork] Received by auto
        have "delivers raw a"
          using Connection r Received True by (simp add: delivers_def)
        moreover obtain q where "wait_loop cb timeout fin ws p1 = Run_ends fin q"
          using wait_loop_ends [OF assms(2)] by blast
        ultimately show ?thesis
          using Connection r Received True h by auto
      qed
    qed (use ok in simp_all)
  qed
qed simp

theorem run_ends_after_timeout_witness:
  "\<exists>q. parent_loop (\<lambda>_. 0) count_callbacks True 5 [Still_running 3, Ended]
      [Connection [Recv_block] [], Connection [Recv_error] [], No_connection 6] (parent_init 0) = Run_ends False q \<and> p_state q = 100"
proof -
  let ?as = "[Connection [Recv_block] [], Connection [Recv_error] [], No_connection 6]"
  have recv: "msg_recv (\<lambda>_. 0) [Recv_block] [] m = (Received m, [], [])" "msg_recv (\<lambda>_. 0) [Recv_error] [] m = (Recv_failed, [], [])" for m
    by (simp_all add: msg_recv_def sock_recv_def recv_loop.simps Let_def)
  have new: "\<not> msg_has (message_new (\<lambda>_. 0) DEFAULT_BUFFER_SIZE)"
    by (simp add: message_new_def)
  have silent: "\<forall>a \<in> set ?as. \<not> delivers (\<lambda>_. 0) a"
    by (simp add: delivers_def recv new)
  have "\<exists>a \<in> set ?as. late 5 a" "\<exists>a \<in> set [Still_running 3, Ended]. wait_over 5 a"
      "\<forall>a \<in> set ?as. answer_ends (\<lambda>_. 0) count_callbacks (p_state (parent_init 0)) a"
    by (simp_all add: late_def wait_over_def answer_ends_def recv new)
  from run_ends_after_timeout [OF this, of True] obtain fin q where
      q: "parent_loop (\<lambda>_. 0) count_callbacks True 5 [Still_running 3, Ended] ?as (parent_init 0) = Run_ends fin q"
      "(\<forall>a \<in> set ?as. \<not> delivers (\<lambda>_. 0) a) \<longrightarrow> \<not> fin \<and> timed_out count_callbacks True 5 (parent_init 0) q"
    by (elim exE conjE) (rule that)
  have "\<not> fin" "timed_out count_callbacks True 5 (parent_init 0) q"
    using mp [OF q(2) silent] by simp_all
  moreover from this(2) have "p_state q = 100"
    by (simp add: timed_out_def count_callbacks_def parent_init_def Let_def)
  ultimately show ?thesis
    using q(1) by (intro exI [of _ q]) (simp del: parent_loop.simps)
qed

text \<open>A child that ends without a message (one that calls \<^verbatim>\<open>exit\<close>, is killed, or gets a broken pipe) is
  not noticed: the child's end is only looked for after a message, so the parent polls until the timeout
  and then reports that the timeout was exceeded.\<close>

theorem silent_child_times_out:
  assumes "\<forall>el \<in> set els. el \<le> timeout" and "el > timeout"
  shows "parent_loop raw cb True timeout ws (map No_connection els) p = Run_waits p
    \<and> parent_loop raw cb True timeout ws (map No_connection (els @ [el])) p
      = Run_ends False (p_error cb (''Exceeded timeout of '' @ formatDuration (dbl_of_u64 timeout))
          (p_call Call_reap (p_call Call_kill p)))"
  using assms by (induction els) auto

theorem silent_child_times_out_witness:
  "parent_loop (\<lambda>_. 0) count_callbacks True 5 [Ended] (map No_connection ([1, 2, 5] @ [6])) (parent_init 0)
    = Run_ends False (p_error count_callbacks (''Exceeded timeout of '' @ formatDuration (dbl_of_u64 5))
          (p_call Call_reap (p_call Call_kill (parent_init 0))))"
  using silent_child_times_out [of "[1, 2, 5]" 5 6 "\<lambda>_. 0" count_callbacks "[Ended]" "parent_init 0"] by simp

section \<open>What the child sends is what the callbacks get\<close>

lemma new_message_ok:
  assumes "b < 2 ^ 63 + 2 ^ 62"
  shows "msg_ok b (message_new raw DEFAULT_BUFFER_SIZE)"
    and "written (message_new raw DEFAULT_BUFFER_SIZE) = map raw [0..<8]"
  using message_new_ok [of DEFAULT_BUFFER_SIZE b raw] written_new [of DEFAULT_BUFFER_SIZE raw] assms
  by (simp_all add: DEFAULT_BUFFER_SIZE_def)

text \<open>A frame with a code and a body, received, is handled with the position after the code.\<close>

definition frame :: "u8 \<Rightarrow> u8 list \<Rightarrow> u8 list" where
  "frame code body = word_bytes (of_nat (9 + length body) :: u64) @ code # body"

lemma word_bytes_u8: "word_bytes (w :: u8) = [w]"
proof -
  have "unat w < 2 ^ 8"
    using unsigned_less [of w] by simp
  then show ?thesis
    by (simp add: word_bytes_def size_of_def)
qed

lemma frame_received:
  assumes "frame_arrives answers (1 + length body)" and "length body < 2 ^ 62"
  shows "\<exists>m m' answers'. msg_recv raw answers (frame code body @ r) (message_new raw DEFAULT_BUFFER_SIZE) = (Received m, r, answers')
    \<and> msg_has m \<and> shr_word m = Some (code, m') \<and> msg_ok 0 m' \<and> (\<exists>x. unread m' = body @ x)"
proof -
  have room: "msg_ok (length (code # body) + 1024) (message_new raw DEFAULT_BUFFER_SIZE)"
    using assms(2) by (intro new_message_ok) simp
  have len: "frame_arrives answers (length (code # body))"
    using assms(1) by simp
  obtain m answers' x where m: "msg_recv raw answers (word_bytes (of_nat (8 + length (code # body)) :: u64) @ (code # body) @ r)
      (message_new raw DEFAULT_BUFFER_SIZE) = (Received m, r, answers')" "msg_has m" "msg_ok 0 m" "unread m = (code # body) @ x"
    using msg_recv_arrives [OF len room, of raw r] by blast
  have u: "unread m = word_bytes code @ body @ x"
    using m(4) by (simp add: word_bytes_u8)
  let ?m = "m\<lparr>msg_pos := msg_pos m + length (word_bytes code)\<rparr>"
  have "shr_word m = Some (code, ?m)"
    using m(3) u by (intro word.get_reads) simp_all
  moreover have "unread ?m = body @ x" "msg_ok 0 ?m"
    using unread_advance [OF u] advance_ok [OF u m(3)] by simp_all
  moreover have "word_bytes (of_nat (8 + length (code # body)) :: u64) @ (code # body) @ r = frame code body @ r"
    by (simp add: frame_def)
  ultimately show ?thesis
    using m(1,2) by metis
qed

text \<open>The error message is such a frame.\<close>

lemma send_error_frame:
  assumes "NUL \<notin> set text" and "length text < 2 ^ 61"
  shows "send_error raw text = Some (frame ERROR (string_bytes text))"
proof -
  let ?new = "message_new raw DEFAULT_BUFFER_SIZE"
  have cost: "length (string_bytes text) = length text + 1"
    by (simp add: string_bytes_def)
  have "msg_ok ((0 + (length (string_bytes text) + 1024)) + (size_of TYPE(8) + 1024)) ?new"
    using assms(2) by (intro new_message_ok) (simp add: cost size_of_def)
  from word.put_appends [OF _ this, where x = ERROR and raw = raw] obtain m1 where m1: "shl_word raw ERROR ?new = Some m1"
      "msg_ok (0 + (length (string_bytes text) + 1024)) m1" "written m1 = written ?new @ word_bytes ERROR"
    by auto
  from string.put_appends [OF assms(1) m1(2), where raw = raw] obtain m2 where m2: "shl_string raw text m1 = Some m2"
      "msg_ok 0 m2" "written m2 = written m1 @ string_bytes text"
    by blast
  have "written m2 = map raw [0..<8] @ (ERROR # string_bytes text)"
    using m2(3) m1(3) new_message_ok(2) [of 0 raw] by (simp add: word_bytes_u8)
  from msg_send_frames [OF m2(2) this] obtain m3 where
      "msg_send m2 = Some (word_bytes (of_nat (8 + length (ERROR # string_bytes text)) :: u64) @ (ERROR # string_bytes text), m3)"
    by auto
  then show ?thesis
    using m1(1) m2(1) by (simp add: send_error_def frame_def)
qed

lemma exc_text_no_nul: "NUL \<notin> set (exc_text e)"
proof -
  have "NUL \<notin> set (c_str w)" for w
    unfolding c_str_def by (auto dest: set_takeWhileD)
  then show ?thesis
    by (cases e) auto
qed

lemma parent_receives:
  assumes "msg_recv raw answers stream (message_new raw DEFAULT_BUFFER_SIZE) = (Received m, st, an)" and "msg_has m"
    and "handle_message cb fork m p = Some (fin, p1)"
  shows "parent_loop raw cb fork timeout ws (Connection answers stream # as) p
    = (if fork then wait_loop cb timeout fin ws p1 else Run_ends fin p1)"
  using assms by simp

text \<open>The result message is a frame of what \<open>onComplete\<close> appends.\<close>

lemma send_complete_frame:
  assumes "\<And>m. msg_ok (0 + cost) m \<Longrightarrow> \<exists>m'. onComplete m c = Some (m', c') \<and> msg_ok 0 m' \<and> written m' = written m @ body"
    and "cost < 2 ^ 63"
  shows "send_complete raw onComplete c = Some (frame COMPLETE body, c')"
proof -
  let ?new = "message_new raw DEFAULT_BUFFER_SIZE"
  have "msg_ok ((0 + cost) + (size_of TYPE(8) + 1024)) ?new"
    using assms(2) by (intro new_message_ok) (simp add: size_of_def)
  from word.put_appends [OF _ this, where x = COMPLETE and raw = raw] obtain m1 where
      m1: "shl_word raw COMPLETE ?new = Some m1" "msg_ok (0 + cost) m1" "written m1 = written ?new @ word_bytes COMPLETE"
    by auto
  from assms(1) [OF m1(2)] obtain m2 where m2: "onComplete m1 c = Some (m2, c')" "msg_ok 0 m2" "written m2 = written m1 @ body"
    by blast
  have "written m2 = map raw [0..<8] @ (COMPLETE # body)"
    using m2(3) m1(3) new_message_ok(2) [of 0 raw] by (simp add: word_bytes_u8)
  from msg_send_frames [OF m2(2) this] obtain m3 where
      "msg_send m2 = Some (word_bytes (of_nat (8 + length (COMPLETE # body)) :: u64) @ (COMPLETE # body), m3)"
    by auto
  then show ?thesis
    using m1(1) m2(1) by (simp add: send_complete_def frame_def)
qed

lemma child_result_sent:
  assumes "func (on_sandbox sb_enter c) = (None, c1)"
    and "\<And>m. msg_ok (0 + cost) m \<Longrightarrow>
      \<exists>m'. onComplete m (on_sandbox sb_exit c1) = Some (m', c2) \<and> msg_ok 0 m' \<and> written m' = written m @ body"
    and "cost < 2 ^ 63"
  shows "child_thread raw func onComplete c = Some (frame COMPLETE body, c2)"
  using send_complete_frame [where onComplete = onComplete and c = "on_sandbox sb_exit c1" and cost = cost, OF assms(2,3), where raw = raw]
    assms(1) by (simp add: child_thread_def)

lemma success_frame_handled:
  assumes get: "\<And>m x. msg_ok 0 m \<Longrightarrow> unread m = body @ x \<Longrightarrow> cb_success cb m (p_state p) = Some s"
    and "\<forall>a \<in> set answers. positive_answer a" and "9 + length body \<le> length answers" and "length body < 2 ^ 62"
  shows "parent_loop raw cb fork timeout ws (Connection answers (frame COMPLETE body) # as) p
    = (let p1 = p_call Call_success (p\<lparr>p_state := s\<rparr>)
       in if fork then wait_loop cb timeout True ws p1 else Run_ends True p1)"
proof -
  obtain m m' answers' x where
      m: "msg_recv raw answers (frame COMPLETE body @ []) (message_new raw DEFAULT_BUFFER_SIZE) = (Received m, [], answers')"
        "msg_has m" "shr_word m = Some (COMPLETE, m')" "msg_ok 0 m'" "unread m' = body @ x"
    using frame_received [OF frame_arrives_positive [OF assms(2)] assms(4), of raw COMPLETE "[]"] assms(3) by auto
  have h: "handle_message cb fork m p = Some (True, p_call Call_success (p\<lparr>p_state := s\<rparr>))"
    using m(3) get [OF m(4,5)] by (simp add: handle_message_def)
  show ?thesis
    using parent_receives [OF m(1) [simplified] m(2) h] by (simp add: Let_def)
qed

lemma parent_polls:
  "\<forall>el \<in> set els. el \<le> timeout \<Longrightarrow>
    parent_loop raw cb fork timeout ws (map No_connection els @ as) p = parent_loop raw cb fork timeout ws as p"
  by (induction els) auto

lemma error_frame_handled:
  assumes "frame_arrives answers (2 + length text)"
    and "NUL \<notin> set text" and "length text < 2 ^ 61"
  shows "parent_loop raw cb True timeout ws (Connection answers (frame ERROR (string_bytes text) @ r) # as) p
    = wait_loop cb timeout True ws (p_error cb text p)"
proof -
  have len: "length (string_bytes text) = length text + 1"
    by (simp add: string_bytes_def)
  have "frame_arrives answers (1 + length (string_bytes text))" "length (string_bytes text) < 2 ^ 62"
    using assms(1,3) by (simp_all add: len)
  from frame_received [OF this, of raw ERROR r] obtain m m' answers' x where
      m: "msg_recv raw answers (frame ERROR (string_bytes text) @ r) (message_new raw DEFAULT_BUFFER_SIZE) = (Received m, r, answers')"
        "msg_has m" "shr_word m = Some (ERROR, m')" "msg_ok 0 m'" "unread m' = string_bytes text @ x"
    by blast
  have "shr_string m' = Some (text, m'\<lparr>msg_pos := msg_pos m' + length (string_bytes text)\<rparr>)"
    by (rule string.get_reads [OF assms(2) m(4,5)])
  then have "handle_message cb True m p = Some (True, p_error cb text p)"
    using m(3) by (simp add: handle_message_def COMPLETE_def ERROR_def)
  from parent_receives [OF m(1,2) this] show ?thesis
    by simp
qed


text \<open>Two calls with three bytes each, an interruption, the rest of the header; then a call that finds nothing.\<close>

definition split_answers :: "recv_answer list" where
  "split_answers = ([Ready 3, Ready 3, Recv_intr] @ replicate 8 (Ready 1)) @ ([Recv_block] @ replicate 100 (Ready 7))"

lemma split_answers_arrive: "n \<le> 90 \<Longrightarrow> frame_arrives split_answers n"
  unfolding frame_arrives_def split_answers_def
  by (rule exI [of _ "[Ready 3, Ready 3, Recv_intr] @ replicate 8 (Ready 1)"], rule exI [of _ "[Recv_block] @ replicate 100 (Ready 7)"])
     (simp add: progress_def positive_answer_def found_calls_def filter_replicate)


end
