(* ===== verification/Unit_Test.thy ===== *)
theory Unit_Test
  imports Test Sandbox_Run "HOL-Library.Monad_Syntax"
begin

text \<open>
  Unit tests (\<^verbatim>\<open>include/dtest_core/unit_test.h\<close>, \<^verbatim>\<open>src/unit_test.cpp\<close>): the options, the function a test runs
  in the sandbox, the checks on the resources it used and the time it took, the message that carries the
  result to the parent, and the report. A user's function is a function of the sandbox that ends with a
  result or an exception, the time the clock measured and the errors it logged.
\<close>

section \<open>State\<close>

record unit_config =
  u_timeout :: u64
  u_ignore_leak :: bool
  u_bytes_limit :: u64
  u_blocks_limit :: u64
  u_input :: "u8 list"
  u_in_process :: bool
  u_body_only :: bool

definition unit_config_init :: unit_config where
  "unit_config_init =
    \<lparr>u_timeout = 10000000000, u_ignore_leak = False, u_bytes_limit = size_max, u_blocks_limit = size_max,
     u_input = [], u_in_process = False, u_body_only = False\<rparr>"

record unit_run =
  u_base :: run_state
  u_init_time :: u64
  u_body_time :: u64
  u_complete_time :: u64
  u_out :: "u8 list"
  u_err :: "u8 list"

definition unit_run_init :: unit_run where
  "unit_run_init =
    \<lparr>u_base = run_state_init, u_init_time = 0, u_body_time = 0, u_complete_time = 0, u_out = [], u_err = []\<rparr>"

type_synonym user_fn = "sandbox \<Rightarrow> (exc option \<times> u64 \<times> string list) \<times> sandbox"

record user_code =
  uc_init :: "user_fn option"
  uc_body :: "user_fn option"
  uc_complete :: "user_fn option"

section \<open>Options\<close>

definition timeoutNanos :: "u64 \<Rightarrow> unit_config \<Rightarrow> unit_config" where
  "timeoutNanos nanos c = c\<lparr>u_timeout := nanos\<rparr>"

definition timeoutMicros :: "u64 \<Rightarrow> unit_config \<Rightarrow> unit_config" where
  "timeoutMicros micros = timeoutNanos (micros * 1000)"

definition timeoutMillis :: "u64 \<Rightarrow> unit_config \<Rightarrow> unit_config" where
  "timeoutMillis millis = timeoutNanos (millis * 1000000)"

definition timeoutSeconds :: "u64 \<Rightarrow> unit_config \<Rightarrow> unit_config" where
  "timeoutSeconds seconds = timeoutNanos (seconds * 1000000000)"

definition memoryBytesLimit :: "u64 \<Rightarrow> unit_config \<Rightarrow> unit_config" where
  "memoryBytesLimit bytes c = c\<lparr>u_bytes_limit := bytes\<rparr>"

definition memoryBlocksLimit :: "u64 \<Rightarrow> unit_config \<Rightarrow> unit_config" where
  "memoryBlocksLimit blocks c = c\<lparr>u_blocks_limit := blocks\<rparr>"

definition ignoreMemoryLeak :: "bool \<Rightarrow> unit_config \<Rightarrow> unit_config" where
  "ignoreMemoryLeak val c = c\<lparr>u_ignore_leak := val\<rparr>"

definition inProcess :: "bool \<Rightarrow> unit_config \<Rightarrow> unit_config" where
  "inProcess val c = c\<lparr>u_in_process := val\<rparr>"

definition unit_input :: "string \<Rightarrow> unit_config \<Rightarrow> unit_config" where
  "unit_input inp c = c\<lparr>u_input := map char_byte inp\<rparr>"

definition resourceSnapshotBodyOnly :: "bool \<Rightarrow> unit_config \<Rightarrow> unit_config" where
  "resourceSnapshotBodyOnly val c = c\<lparr>u_body_only := val\<rparr>"

section \<open>The function run in the sandbox\<close>

type_synonym child_state = "sandbox \<times> unit_run"

definition set_status :: "status \<Rightarrow> unit_run \<Rightarrow> unit_run" where
  "set_status st u = u\<lparr>u_base := (u_base u)\<lparr>r_status := st\<rparr>\<rparr>"

definition add_errors :: "string list \<Rightarrow> unit_run \<Rightarrow> unit_run" where
  "add_errors es u = u\<lparr>u_base := (u_base u)\<lparr>r_errors := r_errors (u_base u) @ es\<rparr>\<rparr>"

text \<open>\<^verbatim>\<open>err\<close>: the message is added with the sandbox locked.\<close>

definition logError :: "string \<Rightarrow> child_state \<Rightarrow> child_state" where
  "logError msg c = (sb_unlock (sb_lock (fst c)), add_errors [msg] (snd c))"

text \<open>\<^verbatim>\<open>timeOf\<close>: the time a function took, or what it threw. A function that is not set takes no time.\<close>

definition timeOf :: "user_fn option \<Rightarrow> child_state \<Rightarrow> (exc + u64) \<times> child_state" where
  "timeOf f c =
    (case f of
       None \<Rightarrow> (Inr 0, c)
     | Some f \<Rightarrow>
         (case f (fst c) of ((e, t, errs), s) \<Rightarrow>
            (case e of None \<Rightarrow> Inr t | Some e \<Rightarrow> Inl e, (s, add_errors errs (snd c)))))"

definition time_into :: "(u64 \<Rightarrow> unit_run \<Rightarrow> unit_run) \<Rightarrow> user_fn option \<Rightarrow> child_state \<Rightarrow> exc option \<times> child_state" where
  "time_into store f c =
    (case timeOf f c of
       (Inl e, c) \<Rightarrow> (Some e, c)
     | (Inr t, c) \<Rightarrow> (None, (fst c, store t (snd c))))"

definition snapshot :: "child_state \<Rightarrow> child_state" where
  "snapshot c =
    (case resourceSnapshot (r_resources (u_base (snd c))) (fst c) of
       (sn, s) \<Rightarrow> (s, (snd c)\<lparr>u_base := (u_base (snd c))\<lparr>r_resources := sn\<rparr>\<rparr>))"

text \<open>Statements in sequence; an exception ends the function.\<close>

definition after :: "('c \<Rightarrow> exc option \<times> 'c) \<Rightarrow> ('c \<Rightarrow> exc option \<times> 'c) \<Rightarrow> 'c \<Rightarrow> exc option \<times> 'c" where
  "after f g c = (case f c of (None, c) \<Rightarrow> g c | (Some e, c) \<Rightarrow> (Some e, c))"

definition plain :: "('c \<Rightarrow> 'c) \<Rightarrow> 'c \<Rightarrow> exc option \<times> 'c" where
  "plain f c = (None, f c)"

definition unit_func :: "(sandbox \<Rightarrow> sandbox) \<Rightarrow> unit_config \<Rightarrow> user_code \<Rightarrow> child_state \<Rightarrow> exc option \<times> child_state" where
  "unit_func configure cfg code =
     after (plain (\<lambda>(s, u). (configure s, set_status FAIL u)))
    (after (plain (if \<not> u_body_only cfg then snapshot else id))
    (after (time_into (\<lambda>t u. u\<lparr>u_init_time := t\<rparr>) (uc_init code))
    (after (plain (if u_body_only cfg then snapshot else id))
    (after (time_into (\<lambda>t u. u\<lparr>u_body_time := t\<rparr>) (uc_body code))
    (after (plain (if u_body_only cfg then snapshot else id))
    (after (time_into (\<lambda>t u. u\<lparr>u_complete_time := t\<rparr>) (uc_complete code))
    (after (plain (if \<not> u_body_only cfg then snapshot else id))
           (plain (\<lambda>(s, u). (s, set_status PASS u))))))))))"

definition unit_configure :: "sandbox \<Rightarrow> sandbox" where
  "unit_configure s = disableFaultyNetwork s"

section \<open>The checks\<close>

text \<open>\<open>rep\<close> is the printing of addresses and stacks for the tracker's report.\<close>

type_synonym report_printers = "(addr \<Rightarrow> string) \<times> (call_stack \<Rightarrow> string)"

definition check_leak :: "report_printers \<Rightarrow> unit_config \<Rightarrow> child_state \<Rightarrow> child_state" where
  "check_leak rep cfg c =
    (let r = r_resources (u_base (snd c)) in
     if \<not> u_ignore_leak cfg \<and> q_size (rs_allocate r) > q_size (rs_deallocate r) then
       (case memoryReport (fst rep) (snd rep) (fst c) of (text, s) \<Rightarrow>
          logError (''WARNING - possible memory leak detected: ''
              @ formatSize (q_size (rs_allocate r) - q_size (rs_deallocate r)) @ '' (''
              @ show_u64 (q_count (rs_allocate r) - q_count (rs_deallocate r))
              @ '' block(s)) difference.'' @ text)
            (s, set_status PASS_WITH_MEMORY_LEAK (snd c)))
     else c)"

definition check_bytes :: "unit_config \<Rightarrow> child_state \<Rightarrow> child_state" where
  "check_bytes cfg c =
    (if q_size (rs_max (r_resources (u_base (snd c)))) > u_bytes_limit cfg then
       logError (''WARNING - exceeded memory limit of '' @ formatSize (u_bytes_limit cfg) @ '' bytes'')
         (fst c, set_status MEMORY_LIMIT_EXCEEDED (snd c))
     else c)"

definition check_blocks :: "unit_config \<Rightarrow> child_state \<Rightarrow> child_state" where
  "check_blocks cfg c =
    (if q_count (rs_max (r_resources (u_base (snd c)))) > u_blocks_limit cfg then
       logError (''WARNING - exceeded memory limit of '' @ show_u64 (u_blocks_limit cfg) @ '' blocks'')
         (fst c, set_status MEMORY_LIMIT_EXCEEDED (snd c))
     else c)"

definition checkMemoryLeak :: "report_printers \<Rightarrow> unit_config \<Rightarrow> child_state \<Rightarrow> child_state" where
  "checkMemoryLeak rep cfg c = check_blocks cfg (check_bytes cfg (check_leak rep cfg c))"

definition checkTimeout :: "unit_config \<Rightarrow> u64 \<Rightarrow> child_state \<Rightarrow> child_state" where
  "checkTimeout cfg time c =
    (if time > u_timeout cfg then
       logError (''Exceeded timeout of '' @ formatDuration (dbl_of_u64 (u_timeout cfg)))
         (fst c, set_status TIMEOUT (snd c))
     else c)"

text \<open>The two checks that \<^verbatim>\<open>_driverRun\<close> makes.\<close>

definition run_checks :: "report_printers \<Rightarrow> unit_config \<Rightarrow> child_state \<Rightarrow> child_state" where
  "run_checks rep cfg c = checkTimeout cfg (u_body_time (snd c)) (checkMemoryLeak rep cfg c)"

section \<open>The result message\<close>

text \<open>
  \<^verbatim>\<open>m << _usedResources\<close> copies the object: a byte for the flag, seven bytes of padding (the argument
  \<open>pad\<close>), then the ten counters. \<^verbatim>\<open>Status\<close> has the width of an \<^verbatim>\<open>int\<close>.
\<close>

definition quantity_bytes :: "quantity \<Rightarrow> u8 list" where
  "quantity_bytes q = word_bytes (q_size q) @ word_bytes (q_count q)"

definition snapshot_bytes :: "u8 list \<Rightarrow> resource_snapshot \<Rightarrow> u8 list" where
  "snapshot_bytes pad r =
    [if rs_initialized r then 1 else 0] @ pad
    @ quantity_bytes (rs_allocate r) @ quantity_bytes (rs_deallocate r) @ quantity_bytes (rs_max r)
    @ quantity_bytes (rs_send r) @ quantity_bytes (rs_receive r)"

definition bytes_quantity :: "u8 list \<Rightarrow> quantity" where
  "bytes_quantity bs = \<lparr>q_size = bytes_word (take 8 bs), q_count = bytes_word (take 8 (drop 8 bs))\<rparr>"

definition bytes_snapshot :: "u8 list \<Rightarrow> resource_snapshot" where
  "bytes_snapshot bs =
    \<lparr>rs_initialized = (hd bs \<noteq> 0), rs_allocate = bytes_quantity (drop 8 bs), rs_deallocate = bytes_quantity (drop 24 bs),
     rs_max = bytes_quantity (drop 40 bs), rs_send = bytes_quantity (drop 56 bs),
     rs_receive = bytes_quantity (drop 72 bs)\<rparr>"

definition shl_snapshot :: "(nat \<Rightarrow> u8) \<Rightarrow> u8 list \<Rightarrow> resource_snapshot \<Rightarrow> message \<Rightarrow> message option" where
  "shl_snapshot raw pad r m =
    map_option (\<lambda>m. m\<lparr>msg_pos := msg_pos m + 88\<rparr>)
      (msg_store (snapshot_bytes pad r) (msg_fit raw 88 m))"

definition shr_snapshot :: "message \<Rightarrow> (resource_snapshot \<times> message) option" where
  "shr_snapshot m = map_option (\<lambda>(bs, m). (bytes_snapshot bs, m)) (msg_get 88 m)"

definition shl_status :: "(nat \<Rightarrow> u8) \<Rightarrow> status \<Rightarrow> message \<Rightarrow> message option" where
  "shl_status raw st m = shl_word raw (of_nat (status_code st) :: u32) m"

text \<open>A number that is no enumerator's is \<open>None\<close>.\<close>

definition status_of_code :: "nat \<Rightarrow> status option" where
  "status_of_code n = find (\<lambda>st. status_code st = n)
    [PASS, SKIP, PASS_WITH_MEMORY_LEAK, MEMORY_LIMIT_EXCEEDED, TOO_SLOW, TIMEOUT, FAIL, PENDING]"

definition shr_status :: "message \<Rightarrow> (status \<times> message) option" where
  "shr_status m =
    (case shr_word m of
       None \<Rightarrow> None
     | Some (w :: u32, m) \<Rightarrow> map_option (\<lambda>st. (st, m)) (status_of_code (unat w)))"

definition shl_errors :: "(nat \<Rightarrow> u8) \<Rightarrow> string list \<Rightarrow> message \<Rightarrow> message option" where
  "shl_errors raw = shl_list raw (shl_string raw)"

definition shr_errors :: "message \<Rightarrow> (string list \<times> message) option" where
  "shr_errors = shr_list shr_string"

definition put_result :: "(nat \<Rightarrow> u8) \<Rightarrow> u8 list \<Rightarrow> unit_run \<Rightarrow> message \<Rightarrow> message option" where
  "put_result raw pad u m =
    do {
      m \<leftarrow> shl_status raw (r_status (u_base u)) m;
      m \<leftarrow> shl_snapshot raw pad (r_resources (u_base u)) m;
      m \<leftarrow> shl_errors raw (r_errors (u_base u)) m;
      m \<leftarrow> shl_word raw (u_init_time u) m;
      m \<leftarrow> shl_word raw (u_body_time u) m;
      shl_word raw (u_complete_time u) m
    }"

definition get_result :: "unit_run \<Rightarrow> message \<Rightarrow> unit_run option" where
  "get_result u m =
    do {
      (st, m) \<leftarrow> shr_status m;
      (r, m) \<leftarrow> shr_snapshot m;
      (es, m) \<leftarrow> shr_errors m;
      (t1, m) \<leftarrow> shr_word m;
      (t2, m) \<leftarrow> shr_word m;
      (t3, m) \<leftarrow> shr_word m;
      Some (u\<lparr>u_base := (u_base u)\<lparr>r_status := st, r_resources := r, r_errors := es\<rparr>,
              u_init_time := t1, u_body_time := t2, u_complete_time := t3\<rparr>)
    }"

section \<open>Running a unit test\<close>

definition unit_onComplete :: "(nat \<Rightarrow> u8) \<Rightarrow> u8 list \<Rightarrow> report_printers \<Rightarrow> unit_config \<Rightarrow> message \<Rightarrow> child_state \<Rightarrow>
    (message \<times> child_state) option" where
  "unit_onComplete raw pad rep cfg m c =
    (let c = run_checks rep cfg c
     in map_option (\<lambda>m. (m, c)) (put_result raw pad (snd c) m))"

definition unit_callbacks :: "unit_run callbacks" where
  "unit_callbacks =
    \<lparr>cb_success = (\<lambda>m u. get_result u m),
     cb_error = (\<lambda>e u. add_errors [e] (set_status FAIL u))\<rparr>"

definition unit_child :: "(nat \<Rightarrow> u8) \<Rightarrow> u8 list \<Rightarrow> report_printers \<Rightarrow> unit_config \<Rightarrow> user_code \<Rightarrow> child_state \<Rightarrow>
    (u8 list \<times> child_state) option" where
  "unit_child raw pad rep cfg code =
    child_thread raw (unit_func unit_configure cfg code) (unit_onComplete raw pad rep cfg)"

text \<open>The timeout of the run is at least two seconds.\<close>

definition run_timeout :: "unit_config \<Rightarrow> u64" where
  "run_timeout cfg = (if u_timeout cfg < 2000000000 then 2000000000 else u_timeout cfg)"

text \<open>What the run leaves in the object: the captured output, and the timeout when it was not finished.\<close>

definition unit_finish :: "unit_run parent \<times> u8 list \<times> u8 list \<times> descs \<Rightarrow> bool \<Rightarrow> unit_run" where
  "unit_finish r fin =
    (case r of (p, out, err, d) \<Rightarrow>
       let u = (p_state p)\<lparr>u_out := out, u_err := err\<rparr>
       in if fin then u else set_status TIMEOUT u)"

text \<open>
  \<^verbatim>\<open>_driverRun\<close>. The parent works on its own copy of the object when it forks, and on the one the
  function has changed otherwise (\<open>u_child\<close>).
\<close>

definition unit_driverRun ::
  "(nat \<Rightarrow> u8) \<Rightarrow> nat \<Rightarrow> (nat \<Rightarrow> nat \<Rightarrow> nat) \<Rightarrow> nat \<Rightarrow> (descs \<Rightarrow> descs) \<Rightarrow> unit_config \<Rightarrow> wait_answer list \<Rightarrow>
    poll_answer list \<Rightarrow> unit_run \<Rightarrow> unit_run \<Rightarrow> descs \<Rightarrow> (unit_run \<times> descs) run_outcome" where
  "unit_driverRun raw fuel accept cap child cfg ws as u_child u d =
    (let fork = (\<not> u_in_process cfg) in
     case sandbox_run raw fuel accept cap child unit_callbacks fork (run_timeout cfg) (u_input cfg) ws as
            (\<lparr>p_state = (if fork then u else u_child), p_calls = []\<rparr>) d of
       Run_undefined \<Rightarrow> Run_undefined
     | Run_waits (p, out, err, d) \<Rightarrow> Run_waits (p_state p, d)
     | Run_ends fin r \<Rightarrow> Run_ends fin (unit_finish r fin, snd (snd (snd r))))"

section \<open>The report\<close>

definition hasMemoryReport :: "resource_snapshot \<Rightarrow> bool" where
  "hasMemoryReport r \<longleftrightarrow> q_size (rs_allocate r) > 0 \<or> q_size (rs_deallocate r) > 0"

definition quantity_json :: "string \<Rightarrow> string \<Rightarrow> quantity \<Rightarrow> string" where
  "quantity_json name unit q =
    [DQ] @ name @ [DQ] @ '': {''
    @ ''\<newline>  '' @ [DQ] @ ''size'' @ [DQ] @ '': '' @ show_u64 (q_size q)
    @ '',\<newline>  '' @ [DQ] @ unit @ [DQ] @ '': '' @ show_u64 (q_count q)
    @ ''\<newline>}''"

definition memory_json :: "resource_snapshot \<Rightarrow> string" where
  "memory_json r =
    (if q_size (rs_allocate r) > 0 then
       quantity_json ''allocated'' ''blocks'' (rs_allocate r)
       @ (if q_size (rs_deallocate r) > 0 \<or> q_size (rs_max r) > 0 then '',\<newline>'' else [])
     else [])
    @ (if q_size (rs_deallocate r) > 0 then
         quantity_json ''freed'' ''blocks'' (rs_deallocate r)
         @ (if q_size (rs_max r) > 0 then '',\<newline>'' else [])
       else [])
    @ (if q_size (rs_max r) > 0 then quantity_json ''max'' ''blocks'' (rs_max r) else [])"

definition time_item :: "string \<Rightarrow> u64 \<Rightarrow> string" where
  "time_item name t = [DQ] @ name @ [DQ] @ '': '' @ formatDurationJSON (dbl_of_u64 t)"

text \<open>The object \<^verbatim>\<open>time\<close>, with the entries between the body's and the cleanup's (none for a unit test).\<close>

definition time_json :: "string \<Rightarrow> unit_run \<Rightarrow> string" where
  "time_json between u =
    [DQ] @ ''time'' @ [DQ] @ '': {''
    @ (if u_init_time u > 0 then ''\<newline>  '' @ time_item ''initialization'' (u_init_time u) @ '','' else [])
    @ ''\<newline>  '' @ time_item ''body'' (u_body_time u) @ between
    @ (if u_complete_time u \<noteq> 0 then '',\<newline>  '' @ time_item ''cleanup'' (u_complete_time u) else [])
    @ ''\<newline>}''"

definition errors_json :: "unit_run \<Rightarrow> string" where
  "errors_json u =
    (if r_errors (u_base u) \<noteq> [] then errorReport (r_errors (u_base u)) @ '',\<newline>'' else [])"

definition memory_part :: "unit_run \<Rightarrow> string" where
  "memory_part u =
    (if hasMemoryReport (r_resources (u_base u)) then
       '',\<newline>'' @ [DQ] @ ''memory'' @ [DQ] @ '': {\<newline>'' @ indent (memory_json (r_resources (u_base u))) 2 @ ''\<newline>}''
     else [])"

definition stream_part :: "string \<Rightarrow> u8 list \<Rightarrow> string" where
  "stream_part name bs =
    (if length bs > 0 then '',\<newline>'' @ [DQ] @ name @ [DQ] @ '': \<newline>'' @ indent (jsonify (map byte_char bs)) 2 else [])"

definition unit_report :: "unit_run \<Rightarrow> string" where
  "unit_report u =
    errors_json u @ time_json [] u @ memory_part u
    @ stream_part ''stdout'' (u_out u) @ stream_part ''stderr'' (u_err u)"

end
