(* ===== verification/Unit_Test_Props.thy ===== *)
theory Unit_Test_Props
  imports Unit_Test Sandbox_Run_Props
begin

text \<open>
  What a unit test's run means: the status and errors its checks give, and that the driver ends with
  exactly the result the child computed, with the error that stopped it, or with the timeout.
\<close>

section \<open>The result message\<close>

lemma length_quantity_bytes [simp]: "length (quantity_bytes q) = 16"
  by (simp add: quantity_bytes_def size_of_def)

lemma bytes_quantity_bytes: "bytes_quantity (quantity_bytes q @ x) = q"
  by (cases q) (simp add: bytes_quantity_def quantity_bytes_def size_of_def bytes_word_bytes)

lemma length_snapshot_bytes: "length pad = 7 \<Longrightarrow> length (snapshot_bytes pad r) = 88"
  by (simp add: snapshot_bytes_def)

lemma drop_quantity: "drop (16 + n) (quantity_bytes q @ x) = drop n x"
  by simp

lemma bytes_snapshot_bytes:
  assumes "length pad = 7"
  shows "bytes_snapshot (snapshot_bytes pad r) = r"
proof -
  let ?qs = "quantity_bytes (rs_allocate r) @ quantity_bytes (rs_deallocate r) @ quantity_bytes (rs_max r)
    @ quantity_bytes (rs_send r) @ quantity_bytes (rs_receive r) @ []"
  have bytes: "snapshot_bytes pad r = ((if rs_initialized r then 1 else 0) # pad) @ ?qs"
    by (simp add: snapshot_bytes_def)
  have "drop (8 + n) ((x # pad) @ ?qs) = drop n ?qs" for n x
    unfolding drop_append by (simp add: assms)
  then have "drop (8 + n) (snapshot_bytes pad r) = drop n ?qs" for n
    unfolding bytes by blast
  from this [of 0] this [of 16] this [of 32] this [of 48] this [of 64]
  have "drop 8 (snapshot_bytes pad r) = ?qs"
    "drop 24 (snapshot_bytes pad r) = quantity_bytes (rs_deallocate r) @ quantity_bytes (rs_max r)
      @ quantity_bytes (rs_send r) @ quantity_bytes (rs_receive r) @ []"
    "drop 40 (snapshot_bytes pad r) = quantity_bytes (rs_max r) @ quantity_bytes (rs_send r) @ quantity_bytes (rs_receive r) @ []"
    "drop 56 (snapshot_bytes pad r) = quantity_bytes (rs_send r) @ quantity_bytes (rs_receive r) @ []"
    "drop 72 (snapshot_bytes pad r) = quantity_bytes (rs_receive r) @ []"
    using drop_quantity [of 0] drop_quantity [of 16] drop_quantity [of 32] drop_quantity [of 48] by simp_all
  moreover have "hd (snapshot_bytes pad r) = (if rs_initialized r then 1 else 0)"
    by (simp add: bytes)
  ultimately show ?thesis
    unfolding bytes_snapshot_def by (simp only: bytes_quantity_bytes) simp
qed

interpretation snapshot: field "shl_snapshot raw pad" shr_snapshot "snapshot_bytes pad" "\<lambda>r. 1112" "\<lambda>r. length pad = 7"
  for raw pad
proof
  fix r b m
  assume pad: "length pad = 7" and "msg_ok (b + 1112) m"
  then have "msg_ok (b + 88 + 1024) m"
    by (simp add: add.assoc)
  with pad show "\<exists>m'. shl_snapshot raw pad r m = Some m' \<and> msg_ok b m' \<and> written m' = written m @ snapshot_bytes pad r"
    unfolding shl_snapshot_def
    using store_appends [of b 88 m "snapshot_bytes pad r" raw] by (simp only: length_snapshot_bytes) simp
next
  fix r b m x
  assume "length pad = 7" "msg_ok b m" "unread m = snapshot_bytes pad r @ x"
  then show "shr_snapshot m = Some (r, m\<lparr>msg_pos := msg_pos m + length (snapshot_bytes pad r)\<rparr>)"
    using get_bytes [of m "snapshot_bytes pad r" x b]
    by (simp add: shr_snapshot_def length_snapshot_bytes bytes_snapshot_bytes)
qed

definition status_bytes :: "status \<Rightarrow> u8 list" where
  "status_bytes st = word_bytes (of_nat (status_code st) :: u32)"

lemma status_code_small: "status_code st < 8"
  by (cases st) simp_all

lemma status_of_code: "status_of_code (status_code st) = Some st"
  by (cases st) (simp_all add: status_of_code_def)

interpretation status: field "shl_status raw" shr_status status_bytes "\<lambda>st. 1028" "\<lambda>st. True"
  for raw
proof
  fix st b m
  assume "msg_ok (b + 1028) m"
  then show "\<exists>m'. shl_status raw st m = Some m' \<and> msg_ok b m' \<and> written m' = written m @ status_bytes st"
    using word.put_appends [where x = "of_nat (status_code st) :: u32" and b = b and m = m and raw = raw]
    by (simp add: shl_status_def status_bytes_def size_of_def)
next
  fix st b m x
  assume a: "msg_ok b m" "unread m = status_bytes st @ x"
  have "unat (of_nat (status_code st) :: u32) = status_code st"
    using status_code_small [of st] by (simp add: unat_of_nat take_bit_nat_eq_self)
  then show "shr_status m = Some (st, m\<lparr>msg_pos := msg_pos m + length (status_bytes st)\<rparr>)"
    using word.get_reads [where x = "of_nat (status_code st) :: u32" and b = b and m = m and r = x] a
    by (simp add: shr_status_def status_bytes_def status_of_code)
qed

text \<open>A pair of fields is a field: the messages of results are such pairs.\<close>

definition put_pair :: "('a \<Rightarrow> message \<Rightarrow> message option) \<Rightarrow> ('b \<Rightarrow> message \<Rightarrow> message option) \<Rightarrow>
    'a \<times> 'b \<Rightarrow> message \<Rightarrow> message option" where
  "put_pair p q xy m = Option.bind (p (fst xy) m) (q (snd xy))"

definition get_pair :: "(message \<Rightarrow> ('a \<times> message) option) \<Rightarrow> (message \<Rightarrow> ('b \<times> message) option) \<Rightarrow>
    message \<Rightarrow> (('a \<times> 'b) \<times> message) option" where
  "get_pair g h m = Option.bind (g m) (\<lambda>(x, m). map_option (\<lambda>(y, m). ((x, y), m)) (h m))"

lemma field_pair:
  assumes a: "field p g enc cost valid" and b: "field q h enc' cost' valid'"
  shows "field (put_pair p q) (get_pair g h) (\<lambda>(x, y). enc x @ enc' y) (\<lambda>(x, y). cost x + cost' y) (\<lambda>(x, y). valid x \<and> valid' y)"
proof (rule field.intro, goal_cases)
  case (1 xy b' m)
  then have "valid (fst xy)" "msg_ok ((b' + cost' (snd xy)) + cost (fst xy)) m"
    by (auto simp: algebra_simps split: prod.splits)
  from field.put_appends [OF a this] obtain m1 where m1: "p (fst xy) m = Some m1" "msg_ok (b' + cost' (snd xy)) m1"
      "written m1 = written m @ enc (fst xy)"
    by blast
  have "valid' (snd xy)"
    using 1 by auto
  from field.put_appends [OF b this m1(2)] show ?case
    by (auto simp: put_pair_def m1(1,3) split: prod.splits)
next
  case (2 xy b' m r)
  then have v: "valid (fst xy)" "valid' (snd xy)" and u: "unread m = enc (fst xy) @ enc' (snd xy) @ r"
    by (auto split: prod.splits)
  from field.get_reads [OF a v(1) 2(2) u] field.get_reads [OF b v(2) advance_ok [OF u 2(2)] unread_advance [OF u]]
  show ?case
    by (simp add: get_pair_def add.assoc split: prod.splits)
qed

definition time_cost :: "u64 \<Rightarrow> nat" where
  "time_cost t = 1032"

lemma time_field [intro]: "field (shl_word raw) shr_word (\<lambda>t :: u64. word_bytes t) time_cost (\<lambda>_. True)"
  using word.field_axioms [where raw = raw and 'a = 64] by (simp add: time_cost_def [abs_def] size_of_def)

text \<open>The result of a test: its status, resources and errors, then its three times.\<close>

definition errors_cost :: "string list \<Rightarrow> nat" where
  "errors_cost = list_cost (\<lambda>s. length (string_bytes s) + 1024)"

definition errors_sendable :: "string list \<Rightarrow> bool" where
  "errors_sendable es \<longleftrightarrow> list_valid (\<lambda>s. NUL \<notin> set s) es \<and> errors_cost es < 2 ^ 61"

lemma errors_field [intro]: "field (shl_errors raw) shr_errors (list_bytes string_bytes) errors_cost (list_valid (\<lambda>s. NUL \<notin> set s))"
  unfolding shl_errors_def shr_errors_def errors_cost_def by (rule strings.field_axioms)

definition result_bytes :: "u8 list \<Rightarrow> unit_run \<Rightarrow> u8 list" where
  "result_bytes pad u =
    status_bytes (r_status (u_base u)) @ snapshot_bytes pad (r_resources (u_base u))
    @ list_bytes string_bytes (r_errors (u_base u))
    @ word_bytes (u_init_time u) @ word_bytes (u_body_time u) @ word_bytes (u_complete_time u)"

lemma put_result_appends:
  assumes es: "errors_sendable (r_errors (u_base u))" and pad: "length pad = 7"
    and ok: "msg_ok (0 + (5236 + errors_cost (r_errors (u_base u)))) m"
  shows "\<exists>m'. put_result raw pad u m = Some m' \<and> msg_ok 0 m' \<and> written m' = written m @ result_bytes pad u"
proof -
  let ?x = "(r_status (u_base u), r_resources (u_base u), r_errors (u_base u), u_init_time u, u_body_time u, u_complete_time u)"
  have eq: "put_result raw pad u m = put_pair (shl_status raw) (put_pair (shl_snapshot raw pad) (put_pair (shl_errors raw)
      (put_pair (shl_word raw) (put_pair (shl_word raw) (shl_word raw))))) ?x m"
    by (simp add: put_result_def put_pair_def [abs_def])
  note result_fields = field_pair [OF status.field_axioms [of raw] field_pair [OF snapshot.field_axioms [of raw pad]
    field_pair [OF errors_field [of raw] field_pair [OF time_field [of raw] field_pair [OF time_field [of raw] time_field [of raw]]]]]]
  with eq show ?thesis
    using field.put_appends [OF result_fields, where x = ?x and b = 0 and m = m] assms
    by (simp add: errors_sendable_def time_cost_def result_bytes_def add.commute add.left_commute)
qed

text \<open>What the message carries from the child's object to the parent's.\<close>

definition transmitted :: "unit_run \<Rightarrow> unit_run \<Rightarrow> unit_run" where
  "transmitted u v =
    u\<lparr>u_base := (u_base u)\<lparr>r_status := r_status (u_base v), r_resources := r_resources (u_base v),
        r_errors := r_errors (u_base v)\<rparr>,
      u_init_time := u_init_time v, u_body_time := u_body_time v, u_complete_time := u_complete_time v\<rparr>"

lemma get_result_reads:
  assumes es: "errors_sendable (r_errors (u_base v))" and pad: "length pad = 7"
    and ok: "msg_ok 0 m" and un: "unread m = result_bytes pad v @ x"
  shows "get_result u m = Some (transmitted u v)"
proof -
  let ?x = "(r_status (u_base v), r_resources (u_base v), r_errors (u_base v), u_init_time v, u_body_time v, u_complete_time v)"
  have eq: "get_result u m = map_option (\<lambda>((st, r, es, t1, t2, t3), m). u\<lparr>u_base := (u_base u)\<lparr>r_status := st,
        r_resources := r, r_errors := es\<rparr>, u_init_time := t1, u_body_time := t2, u_complete_time := t3\<rparr>)
      (get_pair shr_status (get_pair shr_snapshot (get_pair shr_errors (get_pair shr_word (get_pair shr_word shr_word)))) m)"
    unfolding get_result_def get_pair_def by (simp split: Option.bind_split option.split)
  note result_fields = field_pair [OF status.field_axioms [of raw] field_pair [OF snapshot.field_axioms [of raw pad]
    field_pair [OF errors_field [of raw] field_pair [OF time_field [of raw] field_pair [OF time_field [of raw] time_field [of raw]]]]]]
  with eq show ?thesis
    using field.get_reads [OF result_fields, where x = ?x and b = 0 and m = m and r = x] assms
    by (simp add: errors_sendable_def result_bytes_def transmitted_def)
qed

section \<open>The verdict\<close>

text \<open>The checks in the order of their precedence: the last one that applies decides.\<close>

definition leaks :: "unit_config \<Rightarrow> resource_snapshot \<Rightarrow> bool" where
  "leaks cfg r \<longleftrightarrow> \<not> u_ignore_leak cfg \<and> q_size (rs_deallocate r) < q_size (rs_allocate r)"

definition over_bytes :: "unit_config \<Rightarrow> resource_snapshot \<Rightarrow> bool" where
  "over_bytes cfg r \<longleftrightarrow> u_bytes_limit cfg < q_size (rs_max r)"

definition over_blocks :: "unit_config \<Rightarrow> resource_snapshot \<Rightarrow> bool" where
  "over_blocks cfg r \<longleftrightarrow> u_blocks_limit cfg < q_count (rs_max r)"

definition memory_verdict :: "unit_config \<Rightarrow> resource_snapshot \<Rightarrow> status \<Rightarrow> status" where
  "memory_verdict cfg r st =
    (if over_bytes cfg r \<or> over_blocks cfg r then MEMORY_LIMIT_EXCEEDED
     else if leaks cfg r then PASS_WITH_MEMORY_LEAK else st)"

definition unit_verdict :: "unit_config \<Rightarrow> resource_snapshot \<Rightarrow> u64 \<Rightarrow> status \<Rightarrow> status" where
  "unit_verdict cfg r time st = (if time > u_timeout cfg then TIMEOUT else memory_verdict cfg r st)"

lemma set_status_simps [simp]:
  "r_status (u_base (set_status st u)) = st" "r_resources (u_base (set_status st u)) = r_resources (u_base u)"
  "r_errors (u_base (set_status st u)) = r_errors (u_base u)"
  "u_init_time (set_status st u) = u_init_time u" "u_body_time (set_status st u) = u_body_time u"
  "u_complete_time (set_status st u) = u_complete_time u"
  by (simp_all add: set_status_def)

lemma logError_simps [simp]:
  "r_status (u_base (snd (logError e c))) = r_status (u_base (snd c))"
  "r_resources (u_base (snd (logError e c))) = r_resources (u_base (snd c))"
  "r_errors (u_base (snd (logError e c))) = r_errors (u_base (snd c)) @ [e]"
  "u_init_time (snd (logError e c)) = u_init_time (snd c)"
  "u_body_time (snd (logError e c)) = u_body_time (snd c)"
  "u_complete_time (snd (logError e c)) = u_complete_time (snd c)"
  by (simp_all add: logError_def add_errors_def)

text \<open>What each check does to the object, with the message it adds.\<close>

definition checked :: "bool \<Rightarrow> status \<Rightarrow> child_state \<Rightarrow> child_state \<Rightarrow> bool" where
  "checked fails st c c' \<longleftrightarrow>
     r_status (u_base (snd c')) = (if fails then st else r_status (u_base (snd c)))
   \<and> (\<exists>e. r_errors (u_base (snd c')) = r_errors (u_base (snd c)) @ (if fails then [e] else []))
   \<and> r_resources (u_base (snd c')) = r_resources (u_base (snd c))
   \<and> u_init_time (snd c') = u_init_time (snd c) \<and> u_body_time (snd c') = u_body_time (snd c)
   \<and> u_complete_time (snd c') = u_complete_time (snd c) \<and> (\<not> fails \<longrightarrow> c' = c)"

lemma check_leak_checked: "checked (leaks cfg (r_resources (u_base (snd c)))) PASS_WITH_MEMORY_LEAK c (check_leak rep cfg c)"
  by (auto simp: checked_def check_leak_def leaks_def Let_def split: prod.splits)

lemma check_bytes_checked: "checked (over_bytes cfg (r_resources (u_base (snd c)))) MEMORY_LIMIT_EXCEEDED c (check_bytes cfg c)"
  by (simp add: checked_def check_bytes_def over_bytes_def)

lemma check_blocks_checked: "checked (over_blocks cfg (r_resources (u_base (snd c)))) MEMORY_LIMIT_EXCEEDED c (check_blocks cfg c)"
  by (simp add: checked_def check_blocks_def over_blocks_def)

lemma checkTimeout_checked: "checked (time > u_timeout cfg) TIMEOUT c (checkTimeout cfg time c)"
  by (simp add: checked_def checkTimeout_def)

lemma checked_trans_errors:
  assumes "checked f1 st1 c c1" and "checked f2 st2 c1 c2"
  shows "length (r_errors (u_base (snd c2))) = length (r_errors (u_base (snd c))) + of_bool f1 + of_bool f2"
  using assms by (auto simp: checked_def)

lemma checkMemoryLeak_verdict:
  fixes c :: child_state
  defines "r \<equiv> r_resources (u_base (snd c))"
  assumes "c' = checkMemoryLeak rep cfg c"
  shows "r_status (u_base (snd c')) = memory_verdict cfg r (r_status (u_base (snd c)))"
    and "\<exists>es. r_errors (u_base (snd c')) = r_errors (u_base (snd c)) @ es
      \<and> length es = of_bool (leaks cfg r) + of_bool (over_bytes cfg r) + of_bool (over_blocks cfg r)"
    and "r_resources (u_base (snd c')) = r" "u_init_time (snd c') = u_init_time (snd c)"
      "u_body_time (snd c') = u_body_time (snd c)" "u_complete_time (snd c') = u_complete_time (snd c)"
    and "\<not> leaks cfg r \<Longrightarrow> \<not> over_bytes cfg r \<Longrightarrow> \<not> over_blocks cfg r \<Longrightarrow> c' = c"
proof -
  define c1 c2 where "c1 = check_leak rep cfg c" and "c2 = check_bytes cfg c1"
  have k: "checked (leaks cfg r) PASS_WITH_MEMORY_LEAK c c1"
      "checked (over_bytes cfg (r_resources (u_base (snd c1)))) MEMORY_LIMIT_EXCEEDED c1 c2"
      "checked (over_blocks cfg (r_resources (u_base (snd c2)))) MEMORY_LIMIT_EXCEEDED c2 c'"
    using check_leak_checked [of cfg c rep] check_bytes_checked [of cfg c1] check_blocks_checked [of cfg c2]
    by (simp_all add: r_def c1_def c2_def assms(2) checkMemoryLeak_def)
  have res: "r_resources (u_base (snd c1)) = r" "r_resources (u_base (snd c2)) = r"
    using k(1,2) by (simp_all add: checked_def r_def)
  note k = k [unfolded res]
  show "r_status (u_base (snd c')) = memory_verdict cfg r (r_status (u_base (snd c)))"
    using k by (simp add: checked_def memory_verdict_def)
  show "\<exists>es. r_errors (u_base (snd c')) = r_errors (u_base (snd c)) @ es
      \<and> length es = of_bool (leaks cfg r) + of_bool (over_bytes cfg r) + of_bool (over_blocks cfg r)"
    using k by (fastforce simp: checked_def)
  show "r_resources (u_base (snd c')) = r" "u_init_time (snd c') = u_init_time (snd c)"
      "u_body_time (snd c') = u_body_time (snd c)" "u_complete_time (snd c') = u_complete_time (snd c)"
    using k by (simp_all add: checked_def r_def)
  show "c' = c" if "\<not> leaks cfg r" "\<not> over_bytes cfg r" "\<not> over_blocks cfg r"
    using k that by (simp add: checked_def)
qed

lemma run_checks_verdict:
  "\<exists>es. r_status (u_base (snd (run_checks rep cfg c)))
      = unit_verdict cfg (r_resources (u_base (snd c))) (u_body_time (snd c)) (r_status (u_base (snd c)))
    \<and> r_errors (u_base (snd (run_checks rep cfg c))) = r_errors (u_base (snd c)) @ es
    \<and> length es = of_bool (leaks cfg (r_resources (u_base (snd c)))) + of_bool (over_bytes cfg (r_resources (u_base (snd c))))
        + of_bool (over_blocks cfg (r_resources (u_base (snd c)))) + of_bool (u_body_time (snd c) > u_timeout cfg)
    \<and> r_resources (u_base (snd (run_checks rep cfg c))) = r_resources (u_base (snd c))
    \<and> u_body_time (snd (run_checks rep cfg c)) = u_body_time (snd c)"
proof -
  define c1 where "c1 = checkMemoryLeak rep cfg c"
  note m = checkMemoryLeak_verdict [OF c1_def]
  have t: "checked (u_body_time (snd c) > u_timeout cfg) TIMEOUT c1 (run_checks rep cfg c)"
    unfolding run_checks_def c1_def by (rule checkTimeout_checked)
  obtain es where es: "r_errors (u_base (snd c1)) = r_errors (u_base (snd c)) @ es"
      "length es = of_bool (leaks cfg (r_resources (u_base (snd c)))) + of_bool (over_bytes cfg (r_resources (u_base (snd c))))
        + of_bool (over_blocks cfg (r_resources (u_base (snd c))))"
    using m(2) by blast
  obtain e where "r_errors (u_base (snd (run_checks rep cfg c)))
      = r_errors (u_base (snd c1)) @ (if u_body_time (snd c) > u_timeout cfg then [e] else [])"
    using t by (auto simp: checked_def)
  then show ?thesis
    using t m(1,3,5) es
    by (intro exI [of _ "es @ (if u_body_time (snd c) > u_timeout cfg then [e] else [])"])
       (simp add: checked_def unit_verdict_def)
qed

text \<open>The checks decide the result: a body over its time limit is TIMEOUT, else one whose peak was above a
  limit MEMORY_LIMIT_EXCEEDED, else one that freed less than it allocated (and must not)
  PASS_WITH_MEMORY_LEAK, else the status stays; the object gets one message for every check that
  failed, and the measurements are not touched.\<close>

theorem checks_decide:
  "\<exists>es. r_status (u_base (snd (run_checks rep cfg c)))
      = unit_verdict cfg (r_resources (u_base (snd c))) (u_body_time (snd c)) (r_status (u_base (snd c)))
    \<and> r_errors (u_base (snd (run_checks rep cfg c))) = r_errors (u_base (snd c)) @ es
    \<and> length es = of_bool (leaks cfg (r_resources (u_base (snd c)))) + of_bool (over_bytes cfg (r_resources (u_base (snd c))))
        + of_bool (over_blocks cfg (r_resources (u_base (snd c)))) + of_bool (u_body_time (snd c) > u_timeout cfg)
    \<and> r_resources (u_base (snd (run_checks rep cfg c))) = r_resources (u_base (snd c))
    \<and> u_body_time (snd (run_checks rep cfg c)) = u_body_time (snd c)"
  by (rule run_checks_verdict)

section \<open>From the child's run to the driver's result\<close>

lemma length_strings: "length (list_bytes string_bytes es) \<le> list_cost (\<lambda>s. length (string_bytes s) + 1024) es"
proof -
  have "length (concat (map string_bytes es)) \<le> sum_list (map (\<lambda>s. length (string_bytes s) + 1024) es)"
    by (induction es) auto
  then show ?thesis
    by (simp add: list_bytes_def list_cost_def size_of_def)
qed

lemma length_result_bytes:
  assumes "errors_sendable (r_errors (u_base u))" and "length pad = 7"
  shows "length (result_bytes pad u) < 2 ^ 62"
  using length_strings [of "r_errors (u_base u)"] assms
  by (simp add: result_bytes_def errors_sendable_def errors_cost_def length_snapshot_bytes status_bytes_def size_of_def)

lemma unit_func_passes:
  assumes "unit_func configure cfg code c = (None, c1)"
  shows "r_status (u_base (snd c1)) = PASS"
  using assms by (auto simp: unit_func_def after_def plain_def split: prod.splits option.splits)

lemma unit_onComplete_checks:
  "unit_onComplete raw pad rep cfg m c
    = map_option (\<lambda>m. (m, run_checks rep cfg c)) (put_result raw pad (snd (run_checks rep cfg c)) m)"
  by (simp add: unit_onComplete_def Let_def)

text \<open>The child's message is a frame of its result.\<close>

lemma unit_child_sends:
  assumes "unit_func unit_configure cfg code (on_sandbox sb_enter c) = (None, c1)"
    and c2: "c2 = run_checks rep cfg (on_sandbox sb_exit c1)"
    and es: "errors_sendable (r_errors (u_base (snd c2)))" and pad: "length pad = 7"
  shows "unit_child raw pad rep cfg code c = Some (frame COMPLETE (result_bytes pad (snd c2)), c2)"
  unfolding unit_child_def
proof (rule child_result_sent [where ?c1.0 = c1])
  show "unit_func unit_configure cfg code (on_sandbox sb_enter c) = (None, c1)"
    by (rule assms)
next
  fix m
  assume "msg_ok (0 + (5236 + errors_cost (r_errors (u_base (snd c2))))) m"
  from put_result_appends [OF es pad this, where raw = raw]
  show "\<exists>m'. unit_onComplete raw pad rep cfg m (on_sandbox sb_exit c1) = Some (m', c2) \<and> msg_ok 0 m'
      \<and> written m' = written m @ result_bytes pad (snd c2)"
    by (auto simp: unit_onComplete_checks c2 [symmetric])
qed (use es in \<open>simp add: errors_sendable_def\<close>)

text \<open>The parent handles such a frame with the success callback.\<close>

lemma result_frame_handled:
  assumes "errors_sendable (r_errors (u_base v))" and "length pad = 7"
    and "\<forall>a \<in> set answers. positive_answer a" and "9 + length (result_bytes pad v) \<le> length answers"
  shows "parent_loop raw unit_callbacks fork timeout ws (Connection answers (frame COMPLETE (result_bytes pad v)) # as) p
    = (let p1 = p_call Call_success (p\<lparr>p_state := transmitted (p_state p) v\<rparr>)
       in if fork then wait_loop unit_callbacks timeout True ws p1 else Run_ends True p1)"
  using get_result_reads [OF assms(1,2)]
  by (intro success_frame_handled [OF _ assms(3,4) length_result_bytes [OF assms(1,2)]]) (simp add: unit_callbacks_def)

text \<open>What a forked run of a test leaves, from the end of the parent's loop.\<close>

definition run_start :: "'s \<Rightarrow> 's parent" where
  "run_start s = \<lparr>p_state = s, p_calls = []\<rparr>"

lemma unit_driverRun_ends:
  assumes "\<not> u_in_process cfg" and "sandbox_stdio fuel accept cap (u_input cfg) d = Some (st, d1)"
    and "parent_loop raw unit_callbacks True (run_timeout cfg) ws as (run_start u) = Run_ends fin p"
  shows "\<exists>out err d2. unit_driverRun raw fuel accept cap child cfg ws as v u d = Run_ends fin (
      (if fin then p_state p else set_status TIMEOUT (p_state p))\<lparr>u_out := out, u_err := err\<rparr>, d2)"
proof -
  obtain out err d2 where "unsandbox_stdio raw st [] [] (child d1) = (out, err, d2)"
    by (metis prod.collapse)
  then have "unit_driverRun raw fuel accept cap child cfg ws as v u d
      = Run_ends fin (unit_finish (p, out, err, d2) fin, d2)"
    using assms(1,3) unfolding unit_driverRun_def sandbox_run_def assms(2) by (simp add: run_start_def)
  moreover have "unit_finish (p, out, err, d2) fin
      = (if fin then p_state p else set_status TIMEOUT (p_state p))\<lparr>u_out := out, u_err := err\<rparr>"
    by (simp add: unit_finish_def set_status_def)
  ultimately show ?thesis
    by (intro exI) auto
qed

text \<open>C7. A test whose functions return normally ends, in the driver, with exactly what its process found,
  however long the driver polled before the message and however the message was cut up: the status is
  PASS unless a check says otherwise, the resources, errors and times are those of the child, and the
  rest of the object is the driver's own.\<close>

theorem unit_result_delivered:
  assumes "unit_func unit_configure cfg code (on_sandbox sb_enter c) = (None, c1)"
    and "c2 = run_checks rep cfg (on_sandbox sb_exit c1)"
    and "errors_sendable (r_errors (u_base (snd c2)))" and "length pad = 7"
    and "\<not> u_in_process cfg" and "sandbox_stdio fuel accept cap (u_input cfg) d = Some (st, d1)"
    and "\<forall>a \<in> set answers. positive_answer a" and "9 + length (result_bytes pad (snd c2)) \<le> length answers"
    and "\<forall>el \<in> set els. el \<le> run_timeout cfg"
  shows "\<exists>bytes out err d2. unit_child raw pad rep cfg code c = Some (bytes, c2)
    \<and> unit_driverRun raw' fuel accept cap child cfg (Ended # ws) (map No_connection els @ Connection answers bytes # as) v u d
      = Run_ends True ((transmitted u (snd c2))\<lparr>u_out := out, u_err := err\<rparr>, d2)
    \<and> r_status (u_base (transmitted u (snd c2)))
      = unit_verdict cfg (r_resources (u_base (snd c1))) (u_body_time (snd c1)) PASS"
proof -
  let ?bytes = "frame COMPLETE (result_bytes pad (snd c2))"
  have loop: "parent_loop raw' unit_callbacks True (run_timeout cfg) (Ended # ws)
      (map No_connection els @ Connection answers ?bytes # as) (run_start u)
      = Run_ends True (p_call Call_reap (p_call Call_success (run_start (transmitted u (snd c2)))))"
    unfolding parent_polls [OF assms(9)] result_frame_handled [OF assms(3,4,7,8)]
    by (simp add: run_start_def)
  have "p_state (p_call Call_reap (p_call Call_success (run_start (transmitted u (snd c2))))) = transmitted u (snd c2)"
    by (simp add: run_start_def)
  then obtain out err d2 where "unit_driverRun raw' fuel accept cap child cfg (Ended # ws)
      (map No_connection els @ Connection answers ?bytes # as) v u d
      = Run_ends True ((transmitted u (snd c2))\<lparr>u_out := out, u_err := err\<rparr>, d2)"
    using unit_driverRun_ends [OF assms(5,6) loop, of child v] by auto
  moreover have "r_status (u_base (snd c2)) = unit_verdict cfg (r_resources (u_base (snd c1))) (u_body_time (snd c1)) PASS"
    using run_checks_verdict [of rep cfg "on_sandbox sb_exit c1"] unit_func_passes [OF assms(1)]
    by (auto simp: assms(2) on_sandbox_def)
  ultimately show ?thesis
    using unit_child_sends [OF assms(1-4), of raw] by (auto simp: transmitted_def)
qed

text \<open>A test without functions, on trackers that start with it.\<close>

definition no_code :: user_code where
  "no_code = \<lparr>uc_init = None, uc_body = None, uc_complete = None\<rparr>"

definition start_state :: child_state where
  "start_state = (sandbox_init (memory_init (\<lambda>_. 0) (\<lambda>_. 0)) network_init, unit_run_init)"

lemma no_code_run:
  obtains c1 where "unit_func unit_configure unit_config_init no_code (on_sandbox sb_enter start_state) = (None, c1)"
    and "run_checks rep unit_config_init (on_sandbox sb_exit c1) = on_sandbox sb_exit c1"
    and "r_errors (u_base (snd c1)) = []"
    and "unit_verdict unit_config_init (r_resources (u_base (snd c1))) (u_body_time (snd c1)) PASS = PASS"
proof -
  obtain c1 where c1: "unit_func unit_configure unit_config_init no_code (on_sandbox sb_enter start_state) = (None, c1)"
      "r_errors (u_base (snd c1)) = []" "u_body_time (snd c1) = 0" "r_status (u_base (snd c1)) = PASS"
      "q_size (rs_allocate (r_resources (u_base (snd c1)))) = 0" 
    by (simp add: unit_func_def unit_config_init_def no_code_def start_state_def on_sandbox_def after_def plain_def
        timeOf_def time_into_def unit_configure_def snapshot_def resourceSnapshot_def set_status_def sb_enter_def sandbox_init_def
        sb_track_def disableFaultyNetwork_def memory_init_def reinitialize_def memory_fields_def mem_track_activity_def
        reset_max_allocation_def unit_run_init_def run_state_init_def snapshot_init_def quantity_zero_def Let_def)
  have verdict: "\<not> leaks unit_config_init (r_resources (u_base (snd c1)))"
      "\<not> over_bytes unit_config_init (r_resources (u_base (snd c1)))"
      "\<not> over_blocks unit_config_init (r_resources (u_base (snd c1)))"
    using c1(5) by (simp_all add: leaks_def over_bytes_def over_blocks_def unit_config_init_def not_less)
  show thesis
  proof (rule that [OF c1(1) _ c1(2)])
    show "run_checks rep unit_config_init (on_sandbox sb_exit c1) = on_sandbox sb_exit c1"
      using checkMemoryLeak_verdict(7) [OF refl, of unit_config_init "on_sandbox sb_exit c1" rep] verdict c1(3)
      by (simp add: run_checks_def checkTimeout_def unit_config_init_def on_sandbox_def)
    show "unit_verdict unit_config_init (r_resources (u_base (snd c1))) (u_body_time (snd c1)) PASS = PASS"
      using verdict c1(3) by (simp add: unit_verdict_def memory_verdict_def unit_config_init_def)
  qed
qed

lemma sample_stdio:
  obtains st d1 where "sandbox_stdio 2 min 65536 (u_input unit_config_init) sample_descs = Some (st, d1)"
proof -
  have "writeFully 2 min 65536 [] [] = Some []" "fd_get (d_table sample_descs) 0 = Some (Ext 0)"
      "fd_get (d_table sample_descs) 1 = Some (Ext 1)" "fd_get (d_table sample_descs) 2 = Some (Ext 2)"
    by (simp_all add: numeral_2_eq_2 sample_descs_def fd_get_def)
  from sandbox_stdio_redirects [OF this(2-4,1)] have "\<exists>st d1. sandbox_stdio 2 min 65536 [] sample_descs = Some (st, d1)"
    by (elim exE conjE) (rule exI, rule exI, assumption)
  then show thesis
    using that by (auto simp: unit_config_init_def)
qed

theorem unit_result_delivered_witness:
  "\<exists>bytes c2 out err d2 u'. unit_child (\<lambda>_. 0) (replicate 7 0) (\<lambda>_. [], \<lambda>_. []) unit_config_init no_code start_state = Some (bytes, c2)
    \<and> unit_driverRun (\<lambda>_. 0) 2 min 65536 id unit_config_init [Ended]
        [No_connection 5, Connection (replicate 2000 (Ready 9)) bytes] unit_run_init unit_run_init sample_descs
      = Run_ends True (u'\<lparr>u_out := out, u_err := err\<rparr>, d2) \<and> r_status (u_base u') = PASS"
proof -
  obtain c1 where c1: "unit_func unit_configure unit_config_init no_code (on_sandbox sb_enter start_state) = (None, c1)"
      "run_checks (\<lambda>_. [], \<lambda>_. []) unit_config_init (on_sandbox sb_exit c1) = on_sandbox sb_exit c1"
      "r_errors (u_base (snd c1)) = []"
      "unit_verdict unit_config_init (r_resources (u_base (snd c1))) (u_body_time (snd c1)) PASS = PASS"
    by (rule no_code_run)
  have es: "errors_sendable (r_errors (u_base (snd (on_sandbox sb_exit c1))))"
    by (simp add: on_sandbox_def c1(3) errors_sendable_def errors_cost_def list_cost_def list_valid_def)
  have len: "9 + length (result_bytes (replicate 7 0) (snd (on_sandbox sb_exit c1))) \<le> length (replicate 2000 (Ready 9))"
    by (simp add: result_bytes_def length_snapshot_bytes status_bytes_def on_sandbox_def c1(3) list_bytes_def size_of_def)
  obtain st d1 where st: "sandbox_stdio 2 min 65536 (u_input unit_config_init) sample_descs = Some (st, d1)"
    by (rule sample_stdio)
  have "\<not> u_in_process unit_config_init" "\<forall>a \<in> set (replicate 2000 (Ready 9)). positive_answer a"
      "\<forall>el \<in> set [5]. el \<le> run_timeout unit_config_init" "length (replicate 7 (0 :: u8)) = 7"
    by (simp_all add: unit_config_init_def positive_answer_def run_timeout_def)
  from unit_result_delivered [OF c1(1) c1(2) [symmetric] es this(4,1) st this(2) len this(3),
      where raw = "\<lambda>_. 0" and raw' = "\<lambda>_. 0" and child = id and ws = "[]" and as = "[]" and u = unit_run_init and v = unit_run_init]
  show ?thesis
    unfolding c1(4) by (simp only: list.map append.simps) blast
qed

text \<open>What a function threw is what the driver reports of the test.\<close>

lemma unit_thrown_reported:
  assumes "unit_func unit_configure cfg code (on_sandbox sb_enter c) = (Some e, c1)" and "length (exc_text e) < 2 ^ 60"
    and "\<not> u_in_process cfg" and "sandbox_stdio fuel accept cap (u_input cfg) d = Some (st, d1)"
    and "\<forall>a \<in> set answers. positive_answer a" and "10 + length (exc_text e) \<le> length answers"
    and "\<forall>el \<in> set els. el \<le> run_timeout cfg"
  shows "\<exists>bytes out err d2. unit_child raw pad rep cfg code c = Some (bytes, on_sandbox sb_exitAll c1)
    \<and> unit_driverRun raw' fuel accept cap child cfg (Ended # ws) (map No_connection els @ Connection answers bytes # as) v u d
      = Run_ends True ((add_errors [exc_text e] (set_status FAIL u))\<lparr>u_out := out, u_err := err\<rparr>, d2)"
proof -
  let ?bytes = "frame ERROR (string_bytes (exc_text e))"
  have len: "length (exc_text e) < 2 ^ 61"
    using assms(2) by simp
  have arrives: "frame_arrives answers (2 + length (exc_text e))"
    using assms(6) by (intro frame_arrives_positive [OF assms(5)]) simp
  have thrown: "parent_loop raw' unit_callbacks True (run_timeout cfg) (Ended # ws)
      (map No_connection els @ Connection answers ?bytes # as) (run_start u)
      = Run_ends True (p_call Call_reap (p_error unit_callbacks (exc_text e) (run_start u)))"
    unfolding parent_polls [OF assms(7)] error_frame_handled [OF arrives exc_text_no_nul len, where r = "[]", unfolded append_Nil2]
    by simp
  have "p_state (p_call Call_reap (p_error unit_callbacks (exc_text e) (run_start u))) = add_errors [exc_text e] (set_status FAIL u)"
    by (simp add: run_start_def unit_callbacks_def)
  with unit_driverRun_ends [OF assms(3,4) thrown, of child v]
  have t: "\<exists>out err d2. unit_driverRun raw' fuel accept cap child cfg (Ended # ws) (map No_connection els @ Connection answers ?bytes # as) v u d
      = Run_ends True ((add_errors [exc_text e] (set_status FAIL u))\<lparr>u_out := out, u_err := err\<rparr>, d2)"
    by simp
  have "send_error raw (exc_text e) = Some ?bytes"
    using assms(2) by (intro send_error_frame exc_text_no_nul) simp
  then have "unit_child raw pad rep cfg code c = Some (?bytes, on_sandbox sb_exitAll c1)"
    using assms(1) by (simp add: unit_child_def child_thread_def)
  with t show ?thesis
    by blast
qed

text \<open>C21. When one of a test's functions throws, the driver's object becomes FAIL with the text of the exception
  as its one new error: errors the test had logged before it threw, its resources and its times are
  lost, and no check is made. When the child stays silent past the timeout, the object becomes TIMEOUT with
  that one error.\<close>

theorem unit_failure_reported:
  assumes "unit_func unit_configure cfg code (on_sandbox sb_enter c) = (Some e, c1)" and "length (exc_text e) < 2 ^ 60"
    and "\<not> u_in_process cfg" and "sandbox_stdio fuel accept cap (u_input cfg) d = Some (st, d1)"
    and "\<forall>a \<in> set answers. positive_answer a" and "10 + length (exc_text e) \<le> length answers"
    and "\<forall>el \<in> set els. el \<le> run_timeout cfg" and "el > run_timeout cfg"
  shows "\<exists>bytes out err d2 out' err' d3. unit_child raw pad rep cfg code c = Some (bytes, on_sandbox sb_exitAll c1)
    \<and> unit_driverRun raw' fuel accept cap child cfg (Ended # ws) (map No_connection els @ Connection answers bytes # as) v u d
      = Run_ends True ((add_errors [exc_text e] (set_status FAIL u))\<lparr>u_out := out, u_err := err\<rparr>, d2)
    \<and> unit_driverRun raw' fuel accept cap child cfg ws' (map No_connection els @ No_connection el # as') v u d
      = Run_ends False ((set_status TIMEOUT (add_errors [''Exceeded timeout of '' @ formatDuration (dbl_of_u64 (run_timeout cfg))] u))
          \<lparr>u_out := out', u_err := err'\<rparr>, d3)"
proof -
  let ?late = "''Exceeded timeout of '' @ formatDuration (dbl_of_u64 (run_timeout cfg))"
  have silent: "parent_loop raw' unit_callbacks True (run_timeout cfg) ws' (map No_connection els @ No_connection el # as') (run_start u)
      = Run_ends False (p_error unit_callbacks ?late (p_call Call_reap (p_call Call_kill (run_start u))))"
    unfolding parent_polls [OF assms(7)] using assms(8) by simp
  have "set_status TIMEOUT (p_state (p_error unit_callbacks ?late (p_call Call_reap (p_call Call_kill (run_start u)))))
      = set_status TIMEOUT (add_errors [?late] u)"
    by (simp add: run_start_def unit_callbacks_def set_status_def add_errors_def)
  with unit_driverRun_ends [OF assms(3,4) silent, of child v]
  have "\<exists>out err d2. unit_driverRun raw' fuel accept cap child cfg ws' (map No_connection els @ No_connection el # as') v u d
      = Run_ends False ((set_status TIMEOUT (add_errors [?late] u))\<lparr>u_out := out, u_err := err\<rparr>, d2)"
    by simp
  with unit_thrown_reported [OF assms(1-7), of raw pad rep raw' child ws as v u]
  show ?thesis
    by blast
qed

text \<open>A body that logs an error and then throws.\<close>

definition throwing_code :: user_code where
  "throwing_code = no_code\<lparr>uc_init := Some (\<lambda>s. ((Some (Exc_sandbox ''bad''), 0, [''first'']), s))\<rparr>"

lemma c_str_bad: "c_str ''bad'' = ''bad''"
  by (simp add: c_str_def)

theorem unit_failure_reported_witness:
  "\<exists>bytes c2 u' d2 u'' d3. unit_child (\<lambda>_. 0) [] (\<lambda>_. [], \<lambda>_. []) unit_config_init throwing_code start_state = Some (bytes, c2)
    \<and> r_errors (u_base (snd c2)) = [''first'']
    \<and> unit_driverRun (\<lambda>_. 0) 2 min 65536 id unit_config_init [Ended] [Connection (replicate 20 (Ready 9)) bytes]
        unit_run_init unit_run_init sample_descs = Run_ends True (u', d2)
    \<and> r_errors (u_base u') = [''bad''] \<and> r_status (u_base u') = FAIL
    \<and> unit_driverRun (\<lambda>_. 0) 2 min 65536 id unit_config_init [] [No_connection 20000000000]
        unit_run_init unit_run_init sample_descs = Run_ends False (u'', d3)
    \<and> r_status (u_base u'') = TIMEOUT"
proof -
  obtain c1 where c1: "unit_func unit_configure unit_config_init throwing_code (on_sandbox sb_enter start_state)
      = (Some (Exc_sandbox ''bad''), c1)" "r_errors (u_base (snd c1)) = [''first'']"
    by (simp add: unit_func_def unit_config_init_def throwing_code_def no_code_def start_state_def on_sandbox_def after_def
        plain_def timeOf_def time_into_def snapshot_def set_status_def add_errors_def unit_run_init_def run_state_init_def
        split: prod.splits)
  obtain st d1 where st: "sandbox_stdio 2 min 65536 (u_input unit_config_init) sample_descs = Some (st, d1)"
    by (rule sample_stdio)
  have "length (exc_text (Exc_sandbox ''bad'')) < 2 ^ 60" "\<not> u_in_process unit_config_init"
      "\<forall>a \<in> set (replicate 20 (Ready 9)). positive_answer a"
      "10 + length (exc_text (Exc_sandbox ''bad'')) \<le> length (replicate 20 (Ready 9))"
      "\<forall>el \<in> set []. el \<le> run_timeout unit_config_init" "20000000000 > run_timeout unit_config_init"
    by (simp_all add: unit_config_init_def positive_answer_def run_timeout_def c_str_def)
  from unit_failure_reported [OF c1(1) this(1,2) st this(3-6), where raw = "\<lambda>_. 0" and raw' = "\<lambda>_. 0" and child = id
      and ws = "[]" and as = "[]" and ws' = "[]" and as' = "[]" and u = unit_run_init and v = unit_run_init and pad = "[]"
      and rep = "(\<lambda>_. [], \<lambda>_. [])"]
  obtain bytes out err d2 out' err' d3 where r:
      "unit_child (\<lambda>_. 0) [] (\<lambda>_. [], \<lambda>_. []) unit_config_init throwing_code start_state = Some (bytes, on_sandbox sb_exitAll c1)"
      "unit_driverRun (\<lambda>_. 0) 2 min 65536 id unit_config_init [Ended] [Connection (replicate 20 (Ready 9)) bytes]
        unit_run_init unit_run_init sample_descs
        = Run_ends True ((add_errors [''bad''] (set_status FAIL unit_run_init))\<lparr>u_out := out, u_err := err\<rparr>, d2)"
      "unit_driverRun (\<lambda>_. 0) 2 min 65536 id unit_config_init [] [No_connection 20000000000]
        unit_run_init unit_run_init sample_descs
        = Run_ends False ((set_status TIMEOUT (add_errors [''Exceeded timeout of '' @ formatDuration (dbl_of_u64 (run_timeout unit_config_init))]
            unit_run_init))\<lparr>u_out := out', u_err := err'\<rparr>, d3)"
    by (elim exE conjE) (rule that, simp_all only: list.map append.simps exc_text.simps c_str_bad)
  show ?thesis
  proof (intro exI conjI)
    show "r_errors (u_base (snd (on_sandbox sb_exitAll c1))) = [''first'']"
      using c1(2) by (simp add: on_sandbox_def)
    show "unit_driverRun (\<lambda>_. 0) 2 min 65536 id unit_config_init [] [No_connection 20000000000]
        unit_run_init unit_run_init sample_descs
      = Run_ends False ((set_status TIMEOUT (add_errors [''Exceeded timeout of '' @ formatDuration (dbl_of_u64 (run_timeout unit_config_init))]
            unit_run_init))\<lparr>u_out := out', u_err := err'\<rparr>, d3)"
      by (rule r)
  qed (rule r(1), rule r(2), simp_all add: add_errors_def set_status_def unit_run_init_def run_state_init_def)
qed

end
