(* ===== verification/Derived_Test.thy ===== *)
theory Derived_Test
  imports Unit_Test_Props
begin

text \<open>
  What the two subclasses of unit tests share: an object is the base class's with one measured time of its
  own (\<^verbatim>\<open>_baselineTime\<close> of \<^verbatim>\<open>PerformanceTest\<close>, \<^verbatim>\<open>_workerBodyTime\<close> of \<^verbatim>\<open>DistributedUnitTest\<close>), and the base
  class's members work on its part.
\<close>

record derived_run =
  d_unit :: unit_run
  d_time :: u64

definition derived_run_init :: derived_run where
  "derived_run_init = \<lparr>d_unit = unit_run_init, d_time = 0\<rparr>"

type_synonym derived_state = "sandbox \<times> derived_run"

definition map_unit :: "(unit_run \<Rightarrow> unit_run) \<Rightarrow> derived_run \<Rightarrow> derived_run" where
  "map_unit f v = v\<lparr>d_unit := f (d_unit v)\<rparr>"

text \<open>A member of the base class, and a statement that may throw.\<close>

definition inherited :: "(child_state \<Rightarrow> child_state) \<Rightarrow> derived_state \<Rightarrow> derived_state" where
  "inherited f c = (case f (fst c, d_unit (snd c)) of (s, u) \<Rightarrow> (s, (snd c)\<lparr>d_unit := u\<rparr>))"

definition inherited_throws :: "(child_state \<Rightarrow> 'e \<times> child_state) \<Rightarrow> derived_state \<Rightarrow> 'e \<times> derived_state" where
  "inherited_throws f c = (case f (fst c, d_unit (snd c)) of (e, s, u) \<Rightarrow> (e, s, (snd c)\<lparr>d_unit := u\<rparr>))"

text \<open>A time that is measured and not kept, and one that becomes the object's own.\<close>

definition time_dropped :: "user_fn option \<Rightarrow> derived_state \<Rightarrow> exc option \<times> derived_state" where
  "time_dropped f = inherited_throws (time_into (\<lambda>t u. u) f)"

definition time_own :: "user_fn option \<Rightarrow> derived_state \<Rightarrow> exc option \<times> derived_state" where
  "time_own f c =
    (case inherited_throws (timeOf f) c of
       (Inl e, c) \<Rightarrow> (Some e, c)
     | (Inr t, c) \<Rightarrow> (None, (fst c, (snd c)\<lparr>d_time := t\<rparr>)))"

text \<open>What the error callback and a run that was not finished do.\<close>

definition derived_error :: "string \<Rightarrow> derived_run \<Rightarrow> derived_run" where
  "derived_error e = map_unit (\<lambda>u. add_errors [e] (set_status FAIL u))"

definition derived_finish :: "bool \<Rightarrow> derived_run \<Rightarrow> derived_run" where
  "derived_finish fin = map_unit (\<lambda>u. if fin then u else set_status TIMEOUT u)"

text \<open>
  A run with callbacks for such an object and the options \<^verbatim>\<open>fork\<close> only: no input, and the output captured is
  dropped with the options.
\<close>

definition derived_sandbox_run ::
  "(nat \<Rightarrow> u8) \<Rightarrow> nat \<Rightarrow> (nat \<Rightarrow> nat \<Rightarrow> nat) \<Rightarrow> nat \<Rightarrow> (descs \<Rightarrow> descs) \<Rightarrow> derived_run callbacks \<Rightarrow> unit_config \<Rightarrow>
    wait_answer list \<Rightarrow> poll_answer list \<Rightarrow> derived_run \<Rightarrow> derived_run \<Rightarrow> descs \<Rightarrow> (derived_run \<times> descs) run_outcome" where
  "derived_sandbox_run raw fuel accept cap child cb cfg ws as v_child v d =
    (let fork = (\<not> u_in_process cfg) in
     case sandbox_run raw fuel accept cap child cb fork (run_timeout cfg) [] ws as
            (\<lparr>p_state = (if fork then v else v_child), p_calls = []\<rparr>) d of
       Run_undefined \<Rightarrow> Run_undefined
     | Run_waits (p, out, err, d) \<Rightarrow> Run_waits (p_state p, d)
     | Run_ends fin (p, out, err, d) \<Rightarrow> Run_ends fin (derived_finish fin (p_state p), d))"

section \<open>How the base class's members act on such an object\<close>

lemma map_unit_simps [simp]:
  "d_unit (map_unit f v) = f (d_unit v)" "d_time (map_unit f v) = d_time v"
  by (simp_all add: map_unit_def)

lemma inherited_simps [simp]:
  "d_unit (snd (inherited f c)) = snd (f (fst c, d_unit (snd c)))" "d_time (snd (inherited f c)) = d_time (snd c)"
  "fst (inherited f c) = fst (f (fst c, d_unit (snd c)))"
  by (simp_all add: inherited_def split: prod.splits)

lemma time_dropped_keeps:
  assumes "time_dropped f c = (None, c1)"
  shows "r_status (u_base (d_unit (snd c1))) = r_status (u_base (d_unit (snd c)))"
    and "r_resources (u_base (d_unit (snd c1))) = r_resources (u_base (d_unit (snd c)))"
    and "u_body_time (d_unit (snd c1)) = u_body_time (d_unit (snd c))" and "d_time (snd c1) = d_time (snd c)"
  using assms
  by (auto simp: time_dropped_def inherited_throws_def time_into_def timeOf_def add_errors_def
      split: option.splits sum.splits prod.splits)

lemma time_own_keeps:
  assumes "time_own f c = (None, c1)"
  shows "r_status (u_base (d_unit (snd c1))) = r_status (u_base (d_unit (snd c)))"
    and "r_resources (u_base (d_unit (snd c1))) = r_resources (u_base (d_unit (snd c)))"
    and "u_body_time (d_unit (snd c1)) = u_body_time (d_unit (snd c))"
  using assms
  by (auto simp: time_own_def inherited_throws_def timeOf_def add_errors_def
      split: option.splits sum.splits prod.splits)

section \<open>A delivered result\<close>

lemma derived_run_delivered:
  assumes get: "\<And>m x. msg_ok 0 m \<Longrightarrow> unread m = body @ x \<Longrightarrow> cb_success cb m v = Some v'"
    and "\<not> u_in_process cfg" and "sandbox_stdio fuel accept cap [] d = Some (st, d1)"
    and "\<forall>a \<in> set answers. positive_answer a" and "9 + length body \<le> length answers" and "length body < 2 ^ 62"
    and "\<forall>el \<in> set els. el \<le> run_timeout cfg"
  shows "\<exists>d2. derived_sandbox_run raw fuel accept cap child cb cfg (Ended # ws)
      (map No_connection els @ Connection answers (frame COMPLETE body) # as) v_child v d = Run_ends True (v', d2)"
proof -
  have "parent_loop raw cb True (run_timeout cfg) (Ended # ws) (Connection answers (frame COMPLETE body) # as) (run_start v)
      = (let p1 = p_call Call_success ((run_start v)\<lparr>p_state := v'\<rparr>)
         in if True then wait_loop cb (run_timeout cfg) True (Ended # ws) p1 else Run_ends True p1)"
    by (rule success_frame_handled [OF _ assms(4-6)]) (simp add: run_start_def get)
  then have loop: "parent_loop raw cb True (run_timeout cfg) (Ended # ws)
      (map No_connection els @ Connection answers (frame COMPLETE body) # as) (run_start v)
      = Run_ends True (p_call Call_reap (p_call Call_success (run_start v')))"
    unfolding parent_polls [OF assms(7)] by (simp only: Let_def) (simp add: run_start_def)
  obtain out err d2 where un: "unsandbox_stdio raw st [] [] (child d1) = (out, err, d2)"
    by (metis prod.collapse)
  have "derived_sandbox_run raw fuel accept cap child cb cfg (Ended # ws)
      (map No_connection els @ Connection answers (frame COMPLETE body) # as) v_child v d
      = Run_ends True (derived_finish True (p_state (p_call Call_reap (p_call Call_success (run_start v')))), d2)"
    using assms(2) un loop unfolding derived_sandbox_run_def sandbox_run_def assms(3) by (simp add: run_start_def)
  then show ?thesis
    by (simp add: derived_finish_def map_unit_def run_start_def)
qed

end
