(* ===== verification/Performance_Test.thy ===== *)
theory Performance_Test
  imports Complex_Main Derived_Test Unit_Test_Props
begin

text \<open>
  Performance tests (\<^verbatim>\<open>include/dtest_core/performance_test.h\<close>, \<^verbatim>\<open>src/performance_test.cpp\<close>): the unit test's run,
  then a second sandboxed run that measures the baseline and judges the body against it. The margin ratio
  is a finite non-negative double, a fraction.
\<close>

section \<open>Model\<close>

record perf_config =
  pf_unit :: unit_config
  pf_margin :: u64
  pf_ratio :: frac

definition perf_config_init :: perf_config where
  "perf_config_init = \<lparr>pf_unit = unit_config_init, pf_margin = 1000000, pf_ratio = (0, 1)\<rparr>"

definition performanceMarginNanos :: "u64 \<Rightarrow> perf_config \<Rightarrow> perf_config" where
  "performanceMarginNanos nanos c = c\<lparr>pf_margin := nanos\<rparr>"

definition performanceMarginMicros :: "u64 \<Rightarrow> perf_config \<Rightarrow> perf_config" where
  "performanceMarginMicros micros = performanceMarginNanos (micros * 1000)"

definition performanceMarginMillis :: "u64 \<Rightarrow> perf_config \<Rightarrow> perf_config" where
  "performanceMarginMillis millis = performanceMarginNanos (millis * 1000000)"

definition performanceMargin :: "u64 \<Rightarrow> perf_config \<Rightarrow> perf_config" where
  "performanceMargin seconds = performanceMarginNanos (seconds * 1000000000)"

definition performanceMarginAsBaselineRatio :: "frac \<Rightarrow> perf_config \<Rightarrow> perf_config" where
  "performanceMarginAsBaselineRatio r c = c\<lparr>pf_ratio := r\<rparr>"

text \<open>
  The comparisons of \<^verbatim>\<open>_checkPerformance\<close>: integers with wrap-around, and doubles. Rounding a product below 1 to
  multiples of \<open>2 ^ -53\<close> does not change how it compares with an integer.
\<close>

definition too_slow :: "perf_config \<Rightarrow> u64 \<Rightarrow> u64 \<Rightarrow> bool" where
  "too_slow cfg body baseline =
    (if fst (pf_ratio cfg) = 0 then body + pf_margin cfg \<ge> baseline
     else (case (dbl_of_u64 baseline, pf_ratio cfg) of
             ((n, d), (a, b)) \<Rightarrow> frac_less (dbl (n * a, d * b)) (dbl_of_u64 body)))"

definition slow_message :: "perf_config \<Rightarrow> string" where
  "slow_message cfg =
    (if fst (pf_ratio cfg) = 0 then
       ''Failed to meet performance requirements with a margin of '' @ formatDuration (dbl_of_u64 (pf_margin cfg))
     else ''Failed to meet performance requirements of '' @ show_fixed 6 (pf_ratio cfg) @ '' of the baseline time'')"

definition checkPerformance :: "perf_config \<Rightarrow> derived_state \<Rightarrow> derived_state" where
  "checkPerformance cfg c =
    (if too_slow cfg (u_body_time (d_unit (snd c))) (d_time (snd c)) then
       inherited (\<lambda>(s, u). logError (slow_message cfg) (s, set_status TOO_SLOW u)) c
     else c)"

text \<open>The second function: the initialization, the baseline, the cleanup.\<close>

definition perf_func :: "user_code \<Rightarrow> user_fn option \<Rightarrow> derived_state \<Rightarrow> exc option \<times> derived_state" where
  "perf_func code baseline =
     after (plain (inherited (\<lambda>(s, u). (unit_configure s, u))))
    (after (time_dropped (uc_init code))
    (after (time_own baseline)
           (time_dropped (uc_complete code))))"

definition perf_put :: "(nat \<Rightarrow> u8) \<Rightarrow> derived_run \<Rightarrow> message \<Rightarrow> message option" where
  "perf_put raw v m =
    do {
      m \<leftarrow> shl_status raw (r_status (u_base (d_unit v))) m;
      m \<leftarrow> shl_errors raw (r_errors (u_base (d_unit v))) m;
      shl_word raw (d_time v) m
    }"

definition perf_get :: "derived_run \<Rightarrow> message \<Rightarrow> derived_run option" where
  "perf_get v m =
    do {
      (st, m) \<leftarrow> shr_status m;
      (es, m) \<leftarrow> shr_errors m;
      (t, m) \<leftarrow> shr_word m;
      Some ((map_unit (\<lambda>u. u\<lparr>u_base := (u_base u)\<lparr>r_status := st, r_errors := es\<rparr>\<rparr>) v)\<lparr>d_time := t\<rparr>)
    }"

definition perf_checks :: "report_printers \<Rightarrow> perf_config \<Rightarrow> derived_state \<Rightarrow> derived_state" where
  "perf_checks rep cfg c = checkPerformance cfg (inherited (checkMemoryLeak rep (pf_unit cfg)) c)"

definition perf_onComplete :: "(nat \<Rightarrow> u8) \<Rightarrow> report_printers \<Rightarrow> perf_config \<Rightarrow> message \<Rightarrow> derived_state \<Rightarrow>
    (message \<times> derived_state) option" where
  "perf_onComplete raw rep cfg m c =
    (let c = perf_checks rep cfg c in map_option (\<lambda>m. (m, c)) (perf_put raw (snd c) m))"

definition perf_callbacks :: "derived_run callbacks" where
  "perf_callbacks = \<lparr>cb_success = (\<lambda>m v. perf_get v m), cb_error = derived_error\<rparr>"

definition perf_child :: "(nat \<Rightarrow> u8) \<Rightarrow> report_printers \<Rightarrow> perf_config \<Rightarrow> user_code \<Rightarrow> user_fn option \<Rightarrow> derived_state \<Rightarrow>
    (u8 list \<times> derived_state) option" where
  "perf_child raw rep cfg code baseline = child_thread raw (perf_func code baseline) (perf_onComplete raw rep cfg)"

text \<open>
  \<^verbatim>\<open>_driverRun\<close>: the base class's run, then the second one on the object it left. What each child did to the
  object matters in the same process only (\<open>u_child\<close>; \<open>child_changes\<close> on the object of the first run).
\<close>

definition perf_driverRun ::
  "(nat \<Rightarrow> u8) \<Rightarrow> nat \<Rightarrow> (nat \<Rightarrow> nat \<Rightarrow> nat) \<Rightarrow> nat \<Rightarrow> (descs \<Rightarrow> descs) \<Rightarrow> (descs \<Rightarrow> descs) \<Rightarrow> perf_config \<Rightarrow>
    wait_answer list \<Rightarrow> poll_answer list \<Rightarrow> wait_answer list \<Rightarrow> poll_answer list \<Rightarrow>
    unit_run \<Rightarrow> (derived_run \<Rightarrow> derived_run) \<Rightarrow> derived_run \<Rightarrow> descs \<Rightarrow> (derived_run \<times> descs) run_outcome" where
  "perf_driverRun raw fuel accept cap child child' cfg ws as ws' as' u_child child_changes v d =
    (case unit_driverRun raw fuel accept cap child (pf_unit cfg) ws as u_child (d_unit v) d of
       Run_undefined \<Rightarrow> Run_undefined
     | Run_waits (u, d) \<Rightarrow> Run_waits (v\<lparr>d_unit := u\<rparr>, d)
     | Run_ends fin (u, d) \<Rightarrow>
         (let v = v\<lparr>d_unit := u\<rparr>
          in derived_sandbox_run raw fuel accept cap child' perf_callbacks (pf_unit cfg) ws' as' (child_changes v) v d))"

text \<open>The report has the baseline after the body, and no captured output.\<close>

definition perf_report :: "derived_run \<Rightarrow> string" where
  "perf_report v =
    errors_json (d_unit v)
    @ time_json ('',\<newline>  '' @ time_item ''baseline'' (d_time v)) (d_unit v)
    @ memory_part (d_unit v)"

section \<open>The second verdict\<close>

text \<open>
  When the body misses the requirement, over numbers: without a ratio, the sum of its time and the margin, which
  wraps around at \<open>2 ^ 64\<close>, is not below the baseline's time; with one, its time is above the product of the ratio and the
  baseline's time, each rounded to a double.
\<close>

definition frac_val :: "frac \<Rightarrow> real" where
  "frac_val r = of_nat (fst r) / of_nat (snd r)"

definition misses :: "perf_config \<Rightarrow> u64 \<Rightarrow> u64 \<Rightarrow> bool" where
  "misses cfg body baseline \<longleftrightarrow>
    (if fst (pf_ratio cfg) = 0 then unat baseline \<le> (unat body + unat (pf_margin cfg)) mod 2 ^ 64
     else frac_val (dbl_of_u64 body)
       > frac_val (dbl (fst (dbl_of_u64 baseline) * fst (pf_ratio cfg), snd (dbl_of_u64 baseline) * snd (pf_ratio cfg))))"

lemma dbl_positive: "0 < snd (dbl r)"
  by (cases r) (simp add: Let_def)

lemma frac_less_val: "0 < snd r \<Longrightarrow> 0 < snd q \<Longrightarrow> frac_less r q \<longleftrightarrow> frac_val r < frac_val q"
  by (cases r; cases q) (simp add: frac_val_def field_simps flip: of_nat_mult)

lemma too_slow_misses: "too_slow cfg body baseline \<longleftrightarrow> misses cfg body baseline"
proof (cases "fst (pf_ratio cfg) = 0")
  case True
  then show ?thesis
    by (simp add: too_slow_def misses_def word_le_nat_alt unat_word_ariths)
next
  case False
  then show ?thesis
    by (simp add: too_slow_def misses_def dbl_of_u64_def frac_less_val dbl_positive case_prod_unfold del: dbl.simps)
qed

definition perf_verdict :: "perf_config \<Rightarrow> resource_snapshot \<Rightarrow> u64 \<Rightarrow> u64 \<Rightarrow> status \<Rightarrow> status" where
  "perf_verdict cfg r body baseline st =
    (if misses cfg body baseline then TOO_SLOW else memory_verdict (pf_unit cfg) r st)"

lemma perf_checks_verdict:
  fixes c :: derived_state
  defines "u \<equiv> d_unit (snd c)"
  shows "r_status (u_base (d_unit (snd (perf_checks rep cfg c))))
      = perf_verdict cfg (r_resources (u_base u)) (u_body_time u) (d_time (snd c)) (r_status (u_base u))"
    and "\<exists>es. r_errors (u_base (d_unit (snd (perf_checks rep cfg c)))) = r_errors (u_base u) @ es
      \<and> length es = of_bool (leaks (pf_unit cfg) (r_resources (u_base u))) + of_bool (over_bytes (pf_unit cfg) (r_resources (u_base u)))
        + of_bool (over_blocks (pf_unit cfg) (r_resources (u_base u))) + of_bool (too_slow cfg (u_body_time u) (d_time (snd c)))"
    and "d_time (snd (perf_checks rep cfg c)) = d_time (snd c)"
proof -
  define c1 where "c1 = inherited (checkMemoryLeak rep (pf_unit cfg)) c"
  have u1: "d_unit (snd c1) = snd (checkMemoryLeak rep (pf_unit cfg) (fst c, u))" "d_time (snd c1) = d_time (snd c)"
    by (simp_all add: c1_def u_def)
  have checks: "perf_checks rep cfg c = checkPerformance cfg c1"
    by (simp add: perf_checks_def c1_def)
  note m = checkMemoryLeak_verdict [OF refl, where rep = rep and cfg = "pf_unit cfg" and c = "(fst c, u)", folded u1(1), unfolded snd_conv]
  show "r_status (u_base (d_unit (snd (perf_checks rep cfg c))))
      = perf_verdict cfg (r_resources (u_base u)) (u_body_time u) (d_time (snd c)) (r_status (u_base u))"
    using m(1,5) u1(2) by (simp add: checks checkPerformance_def perf_verdict_def too_slow_misses)
  show "d_time (snd (perf_checks rep cfg c)) = d_time (snd c)"
    using u1(2) by (simp add: checks checkPerformance_def)
  obtain es where es: "r_errors (u_base (d_unit (snd c1))) = r_errors (u_base u) @ es"
      "length es = of_bool (leaks (pf_unit cfg) (r_resources (u_base u))) + of_bool (over_bytes (pf_unit cfg) (r_resources (u_base u)))
        + of_bool (over_blocks (pf_unit cfg) (r_resources (u_base u)))"
    using m(2) by blast
  show "\<exists>es. r_errors (u_base (d_unit (snd (perf_checks rep cfg c)))) = r_errors (u_base u) @ es
      \<and> length es = of_bool (leaks (pf_unit cfg) (r_resources (u_base u))) + of_bool (over_bytes (pf_unit cfg) (r_resources (u_base u)))
        + of_bool (over_blocks (pf_unit cfg) (r_resources (u_base u))) + of_bool (too_slow cfg (u_body_time u) (d_time (snd c)))"
    using es m(5) u1(2)
    by (intro exI [of _ "es @ (if too_slow cfg (u_body_time u) (d_time (snd c)) then [slow_message cfg] else [])"])
       (simp add: checks checkPerformance_def)
qed

lemma perf_func_keeps:
  assumes "perf_func code baseline c = (None, c1)"
  shows "r_status (u_base (d_unit (snd c1))) = r_status (u_base (d_unit (snd c)))"
    and "r_resources (u_base (d_unit (snd c1))) = r_resources (u_base (d_unit (snd c)))"
    and "u_body_time (d_unit (snd c1)) = u_body_time (d_unit (snd c))"
proof -
  define c2 where "c2 = inherited (\<lambda>(s, u). (unit_configure s, u)) c"
  obtain c3 c4 where "time_dropped (uc_init code) c2 = (None, c3)" "time_own baseline c3 = (None, c4)"
      "time_dropped (uc_complete code) c4 = (None, c1)"
    using assms by (auto simp: perf_func_def after_def plain_def c2_def split: prod.splits option.splits)
  note keeps = time_dropped_keeps [OF this(1)] time_own_keeps [OF this(2)] time_dropped_keeps [OF this(3)]
  have "d_unit (snd c2) = d_unit (snd c)"
    by (simp add: c2_def split: prod.splits)
  with keeps show "r_status (u_base (d_unit (snd c1))) = r_status (u_base (d_unit (snd c)))"
    "r_resources (u_base (d_unit (snd c1))) = r_resources (u_base (d_unit (snd c)))"
    "u_body_time (d_unit (snd c1)) = u_body_time (d_unit (snd c))"
    by simp_all
qed

section \<open>The second message\<close>

definition perf_bytes :: "derived_run \<Rightarrow> u8 list" where
  "perf_bytes v = status_bytes (r_status (u_base (d_unit v))) @ list_bytes string_bytes (r_errors (u_base (d_unit v)))
    @ word_bytes (d_time v)"

definition perf_transmitted :: "derived_run \<Rightarrow> derived_run \<Rightarrow> derived_run" where
  "perf_transmitted v w =
    (map_unit (\<lambda>u. u\<lparr>u_base := (u_base u)\<lparr>r_status := r_status (u_base (d_unit w)),
        r_errors := r_errors (u_base (d_unit w))\<rparr>\<rparr>) v)\<lparr>d_time := d_time w\<rparr>"

lemma perf_put_appends:
  assumes "errors_sendable (r_errors (u_base (d_unit v)))"
    and ok: "msg_ok (0 + (2060 + errors_cost (r_errors (u_base (d_unit v))))) m"
  shows "\<exists>m'. perf_put raw v m = Some m' \<and> msg_ok 0 m' \<and> written m' = written m @ perf_bytes v"
proof -
  let ?x = "(r_status (u_base (d_unit v)), r_errors (u_base (d_unit v)), d_time v)"
  have eq: "perf_put raw v m = put_pair (shl_status raw) (put_pair (shl_errors raw) (shl_word raw)) ?x m"
    by (simp add: perf_put_def put_pair_def [abs_def])
  note fields = field_pair [OF status.field_axioms [of raw] field_pair [OF errors_field [of raw] time_field [of raw]]]
  show ?thesis
    unfolding eq using field.put_appends [OF fields, where x = ?x and b = 0 and m = m] assms
    by (simp add: errors_sendable_def time_cost_def perf_bytes_def add.commute add.left_commute)
qed

lemma perf_get_reads:
  assumes "errors_sendable (r_errors (u_base (d_unit w)))" and "msg_ok 0 m" and "unread m = perf_bytes w @ x"
  shows "perf_get v m = Some (perf_transmitted v w)"
proof -
  let ?x = "(r_status (u_base (d_unit w)), r_errors (u_base (d_unit w)), d_time w)"
  have eq: "perf_get v m = map_option (\<lambda>((st, es, t), m).
        (map_unit (\<lambda>u. u\<lparr>u_base := (u_base u)\<lparr>r_status := st, r_errors := es\<rparr>\<rparr>) v)\<lparr>d_time := t\<rparr>)
      (get_pair shr_status (get_pair shr_errors shr_word) m)"
    unfolding perf_get_def get_pair_def by (simp split: Option.bind_split option.split)
  note fields = field_pair [OF status.field_axioms [of raw] field_pair [OF errors_field [of raw] time_field [of raw]]]
  show ?thesis
    unfolding eq using field.get_reads [OF fields, where x = ?x and b = 0 and m = m and r = x] assms
    by (simp add: errors_sendable_def perf_bytes_def perf_transmitted_def)
qed

lemma length_perf_bytes:
  assumes "errors_sendable (r_errors (u_base (d_unit v)))"
  shows "length (perf_bytes v) < 2 ^ 62"
  using length_strings [of "r_errors (u_base (d_unit v))"] assms
  by (simp add: perf_bytes_def errors_sendable_def errors_cost_def status_bytes_def size_of_def)

lemma perf_child_sends:
  assumes "perf_func code baseline (on_sandbox sb_enter c) = (None, c1)"
    and c2: "c2 = perf_checks rep cfg (on_sandbox sb_exit c1)"
    and es: "errors_sendable (r_errors (u_base (d_unit (snd c2))))"
  shows "perf_child raw rep cfg code baseline c = Some (frame COMPLETE (perf_bytes (snd c2)), c2)"
  unfolding perf_child_def
proof (rule child_result_sent [where ?c1.0 = c1])
  fix m
  assume "msg_ok (0 + (2060 + errors_cost (r_errors (u_base (d_unit (snd c2)))))) m"
  from perf_put_appends [OF es this, where raw = raw]
  show "\<exists>m'. perf_onComplete raw rep cfg m (on_sandbox sb_exit c1) = Some (m', c2) \<and> msg_ok 0 m'
      \<and> written m' = written m @ perf_bytes (snd c2)"
    by (auto simp: perf_onComplete_def c2 [symmetric] Let_def)
qed (use es assms(1) in \<open>simp_all add: errors_sendable_def\<close>)

section \<open>The result of a performance test\<close>

text \<open>C31. A performance test that measures its baseline ends with the verdict of the second run: TOO_SLOW when the
  body's time of the first run misses the requirement, whatever the first run's status was: with the margin added it
  is not below the baseline's time, or it is above the given ratio of that time; else
  MEMORY_LIMIT_EXCEEDED or PASS_WITH_MEMORY_LEAK when the first run's resources say so, again whatever
  its status was; else the first run's status. The first run's times and resources stay.\<close>

theorem perf_result_delivered:
  assumes "unit_driverRun raw fuel accept cap child (pf_unit cfg) ws as u_child (d_unit v) d = Run_ends fin (u1, d1)"
    and "perf_func code baseline (on_sandbox sb_enter (s, v\<lparr>d_unit := u1\<rparr>)) = (None, c1)"
    and "c2 = perf_checks rep cfg (on_sandbox sb_exit c1)" and "errors_sendable (r_errors (u_base (d_unit (snd c2))))"
    and "\<not> u_in_process (pf_unit cfg)" and "sandbox_stdio fuel accept cap [] d1 = Some (st, d2)"
    and "\<forall>a \<in> set answers. positive_answer a" and "9 + length (perf_bytes (snd c2)) \<le> length answers"
    and "\<forall>el \<in> set els. el \<le> run_timeout (pf_unit cfg)"
  shows "\<exists>bytes v' d3. perf_child raw' rep cfg code baseline (s, v\<lparr>d_unit := u1\<rparr>) = Some (bytes, c2)
    \<and> perf_driverRun raw fuel accept cap child child' cfg ws as (Ended # ws') (map No_connection els @ Connection answers bytes # as')
        u_child changes v d = Run_ends True (v', d3)
    \<and> r_status (u_base (d_unit v')) = perf_verdict cfg (r_resources (u_base u1)) (u_body_time u1) (d_time (snd c1)) (r_status (u_base u1))
    \<and> r_resources (u_base (d_unit v')) = r_resources (u_base u1) \<and> u_body_time (d_unit v') = u_body_time u1
    \<and> d_time v' = d_time (snd c1)"
proof -
  let ?v = "v\<lparr>d_unit := u1\<rparr>" and ?w = "snd c2"
  let ?bytes = "frame COMPLETE (perf_bytes ?w)"
  have get: "cb_success perf_callbacks m ?v = Some (perf_transmitted ?v ?w)"
    if "msg_ok 0 m" "unread m = perf_bytes ?w @ x" for m x
    using perf_get_reads [OF assms(4) that] by (simp add: perf_callbacks_def)
  have "\<exists>d3. derived_sandbox_run raw fuel accept cap child' perf_callbacks (pf_unit cfg) (Ended # ws')
      (map No_connection els @ Connection answers ?bytes # as') (changes ?v) ?v d1 = Run_ends True (perf_transmitted ?v ?w, d3)"
    by (rule derived_run_delivered [OF _ assms(5-8) length_perf_bytes [OF assms(4)] assms(9)]) (rule get)
  then obtain d3 where d3: "perf_driverRun raw fuel accept cap child child' cfg ws as (Ended # ws')
      (map No_connection els @ Connection answers ?bytes # as') u_child changes v d = Run_ends True (perf_transmitted ?v ?w, d3)"
    using assms(1) by (auto simp: perf_driverRun_def Let_def)
  note keeps = perf_func_keeps [OF assms(2)] and verdict = perf_checks_verdict [of rep cfg "on_sandbox sb_exit c1"]
  have "r_status (u_base (d_unit (perf_transmitted ?v ?w)))
      = perf_verdict cfg (r_resources (u_base u1)) (u_body_time u1) (d_time (snd c1)) (r_status (u_base u1))"
    using verdict(1) keeps by (simp add: perf_transmitted_def assms(3) on_sandbox_def)
  moreover have "r_resources (u_base (d_unit (perf_transmitted ?v ?w))) = r_resources (u_base u1)
      \<and> u_body_time (d_unit (perf_transmitted ?v ?w)) = u_body_time u1 \<and> d_time (perf_transmitted ?v ?w) = d_time (snd c1)"
    using verdict(3) by (simp add: perf_transmitted_def assms(3) on_sandbox_def)
  ultimately show ?thesis
    by (rule_tac x = ?bytes in exI, rule_tac x = "perf_transmitted ?v ?w" in exI, rule_tac x = d3 in exI)
       (intro conjI perf_child_sends [OF assms(2-4)] d3; simp only:)
qed

text \<open>A test without functions whose first run is silent past its timeout: the descriptors are as before.\<close>

definition silent_run :: "unit_run \<Rightarrow> descs \<Rightarrow> bool" where
  "silent_run u d \<longleftrightarrow> unit_driverRun (\<lambda>_. 0) 2 min 65536 id unit_config_init [] [No_connection 20000000000]
     unit_run_init unit_run_init sample_descs = Run_ends False (u, d)"

lemma stdio_again:
  assumes t: "table d 0 = Some f0" "table d 1 = Some f1" "table d 2 = Some f2"
  obtains st d1 out err d2 st' d3 where "sandbox_stdio 2 min 65536 [] d = Some (st, d1)"
    and "unsandbox_stdio raw st [] [] d1 = (out, err, d2)" and "sandbox_stdio 2 min 65536 [] d2 = Some (st', d3)"
proof -
  have w: "writeFully 2 min 65536 [] [] = Some []"
    by (simp add: numeral_2_eq_2)
  obtain n d1 where a: "sandbox_stdio 2 min 65536 [] d
      = Some (\<lparr>saved_in = Some (op_s0 n), saved_out = Some (op_s1 n), saved_err = Some (op_s2 n),
               sandboxed_out = Some (op_r1 n), sandboxed_err = Some (op_r2 n)\<rparr>, d1)"
      "distinct (opened_list n)" "\<forall>i \<in> set (opened_list n). table d i = None"
      "table d1 = redirected n (length (d_pipes d)) (table d)" "d_pipes d1 = d_pipes d @ [[], [], []]"
    using sandbox_stdio_redirects [OF t w] by (elim exE conjE) (rule that)
  obtain d2 where b: "unsandbox_stdio raw \<lparr>saved_in = Some (op_s0 n), saved_out = Some (op_s1 n), saved_err = Some (op_s2 n),
      sandboxed_out = Some (op_r1 n), sandboxed_err = Some (op_r2 n)\<rparr> [] [] d1 = ([], [], d2)"
      "table d2 = (table d)(op_r0 n \<mapsto> Pipe_read (length (d_pipes d)), op_w1 n \<mapsto> Pipe_write (length (d_pipes d) + 1),
        op_w2 n \<mapsto> Pipe_write (length (d_pipes d) + 2))"
    using unsandbox_stdio_restores [OF t a(2-5) refl, of raw "[]" "[]"] by (elim exE conjE) (rule that)
  have "\<exists>g. table d2 i = Some g" if "table d i = Some f" for i f
    unfolding b(2) by (simp add: that)
  then obtain g0 g1 g2 where "table d2 0 = Some g0" "table d2 1 = Some g1" "table d2 2 = Some g2"
    using t by blast
  from sandbox_stdio_redirects [OF this w] obtain st' d3 where "sandbox_stdio 2 min 65536 [] d2 = Some (st', d3)"
    by (elim exE conjE) (rule that)
  with a(1) b(1) show thesis
    by (rule that)
qed

lemma silent_run_result:
  obtains u d st d' where "silent_run u d" and "sandbox_stdio 2 min 65536 [] d = Some (st, d')"
    and "r_status (u_base u) = TIMEOUT" and "r_resources (u_base u) = snapshot_init" and "u_body_time u = 0"
    and "r_errors (u_base u) = [''Exceeded timeout of '' @ formatDuration (dbl_of_u64 10000000000)]"
proof -
  have t: "table sample_descs 0 = Some (Ext 0)" "table sample_descs 1 = Some (Ext 1)" "table sample_descs 2 = Some (Ext 2)"
    by (simp_all add: sample_descs_def fd_get_def)
  obtain st d1 out err d2 st' d3 where d: "sandbox_stdio 2 min 65536 [] sample_descs = Some (st, d1)"
      "unsandbox_stdio (\<lambda>_. 0) st [] [] d1 = (out, err, d2)" "sandbox_stdio 2 min 65536 [] d2 = Some (st', d3)"
    by (rule stdio_again [OF t])
  let ?u = "(set_status TIMEOUT (add_errors [''Exceeded timeout of '' @ formatDuration (dbl_of_u64 10000000000)]
    (set_status FAIL unit_run_init)))\<lparr>u_out := out, u_err := err\<rparr>"
  have "silent_run ?u d2"
    unfolding silent_run_def unit_driverRun_def sandbox_run_def
    using d by (simp add: unit_config_init_def run_timeout_def unit_callbacks_def unit_finish_def set_status_def)
  from that [OF this d(3)] show thesis
    by (simp add: set_status_def add_errors_def unit_run_init_def run_state_init_def)
qed

lemma no_code_perf_run: "\<exists>s'. perf_func no_code None c = (None, (s', (snd c)\<lparr>d_time := 0\<rparr>))"
  by (cases c) (simp add: perf_func_def no_code_def after_def plain_def time_dropped_def time_own_def inherited_def
      inherited_throws_def time_into_def timeOf_def)

lemma replicate_2: "replicate 2 x = [x, x]"
  by (simp add: numeral_2_eq_2)

lemmas eval_duration = dbl_of_u64_def bit_len.simps formatDuration_def show_nat.simps char_of_def bit_0 replicate_2

text \<open>The checks of the second run on an object without resources and times.\<close>

lemma perf_checks_fresh:
  assumes "r_resources (u_base (d_unit (snd c))) = snapshot_init" and "u_body_time (d_unit (snd c)) = 0" and "d_time (snd c) = 0"
  shows "r_errors (u_base (d_unit (snd (perf_checks rep perf_config_init c))))
    = r_errors (u_base (d_unit (snd c))) @ [slow_message perf_config_init]"
proof -
  have r: "\<not> leaks unit_config_init snapshot_init" "\<not> over_bytes unit_config_init snapshot_init"
      "\<not> over_blocks unit_config_init snapshot_init"
    by (simp_all add: leaks_def over_bytes_def over_blocks_def unit_config_init_def snapshot_init_def quantity_zero_def)
  have "checkMemoryLeak rep unit_config_init (fst c, d_unit (snd c)) = (fst c, d_unit (snd c))"
    using checkMemoryLeak_verdict(7) [OF refl, of unit_config_init "(fst c, d_unit (snd c))" rep] r assms(1) by simp
  then show ?thesis
    using assms by (simp add: perf_checks_def checkPerformance_def inherited_def too_slow_def perf_config_init_def case_prod_unfold)
qed

theorem perf_result_delivered_witness:
  "\<exists>u1 d1 c2 bytes v' d3. silent_run u1 d1 \<and> r_status (u_base u1) = TIMEOUT
    \<and> perf_child (\<lambda>_. 0) (\<lambda>_. [], \<lambda>_. []) perf_config_init no_code None (fst start_state, derived_run_init\<lparr>d_unit := u1\<rparr>) = Some (bytes, c2)
    \<and> perf_driverRun (\<lambda>_. 0) 2 min 65536 id id perf_config_init [] [No_connection 20000000000] [Ended]
        [Connection (replicate 2000 (Ready 9)) bytes] unit_run_init id derived_run_init sample_descs = Run_ends True (v', d3)
    \<and> r_status (u_base (d_unit v')) = TOO_SLOW"
proof -
  obtain u1 d1 st d2 where u1: "silent_run u1 d1" and st: "sandbox_stdio 2 min 65536 [] d1 = Some (st, d2)"
      and fields: "r_status (u_base u1) = TIMEOUT" "r_resources (u_base u1) = snapshot_init" "u_body_time u1 = 0"
        "r_errors (u_base u1) = [''Exceeded timeout of '' @ formatDuration (dbl_of_u64 10000000000)]"
    by (rule silent_run_result)
  let ?v = "derived_run_init\<lparr>d_unit := u1\<rparr>"
  have first: "unit_driverRun (\<lambda>_. 0) 2 min 65536 id (pf_unit perf_config_init) [] [No_connection 20000000000]
      unit_run_init (d_unit derived_run_init) sample_descs = Run_ends False (u1, d1)"
    using u1 by (simp add: silent_run_def perf_config_init_def derived_run_init_def)
  obtain s1 where c1: "perf_func no_code None (on_sandbox sb_enter (fst start_state, ?v)) = (None, (s1, ?v\<lparr>d_time := 0\<rparr>))"
    using no_code_perf_run [of "on_sandbox sb_enter (fst start_state, ?v)"] by (auto simp: on_sandbox_def)
  let ?c2 = "perf_checks (\<lambda>_. [], \<lambda>_. []) perf_config_init (on_sandbox sb_exit (s1, ?v\<lparr>d_time := 0\<rparr>))"
  have "r_errors (u_base (d_unit (snd ?c2))) = r_errors (u_base u1) @ [slow_message perf_config_init]"
    by (subst perf_checks_fresh) (simp_all add: on_sandbox_def fields)
  also have "\<dots> = [''Exceeded timeout of 10.000 s'', ''Failed to meet performance requirements with a margin of 1.000 ms'']"
    unfolding fields(4) by (simp add: eval_duration slow_message_def perf_config_init_def)
  finally have errs: "r_errors (u_base (d_unit (snd ?c2)))
      = [''Exceeded timeout of 10.000 s'', ''Failed to meet performance requirements with a margin of 1.000 ms'']" .
  have es: "errors_sendable (r_errors (u_base (d_unit (snd ?c2))))"
    unfolding errs by (simp add: errors_sendable_def errors_cost_def list_cost_def list_valid_def string_bytes_def)
  have len: "9 + length (perf_bytes (snd ?c2)) \<le> length (replicate 2000 (Ready 9))"
    by (simp add: perf_bytes_def errs status_bytes_def list_bytes_def string_bytes_def size_of_def)
  have "\<not> u_in_process (pf_unit perf_config_init)" "\<forall>a \<in> set (replicate 2000 (Ready 9)). positive_answer a"
      "\<forall>el \<in> set []. el \<le> run_timeout (pf_unit perf_config_init)"
    by (simp_all add: perf_config_init_def unit_config_init_def positive_answer_def)
  from perf_result_delivered [where raw' = "\<lambda>_. 0" and child' = id and ws' = "[]" and as' = "[]" and changes = id,
      OF first c1 refl es this(1) st this(2) len this(3)]
  obtain bytes v' d3 where r: "perf_child (\<lambda>_. 0) (\<lambda>_. [], \<lambda>_. []) perf_config_init no_code None (fst start_state, ?v) = Some (bytes, ?c2)"
      "perf_driverRun (\<lambda>_. 0) 2 min 65536 id id perf_config_init [] [No_connection 20000000000] [Ended]
        [Connection (replicate 2000 (Ready 9)) bytes] unit_run_init id derived_run_init sample_descs = Run_ends True (v', d3)"
      "r_status (u_base (d_unit v')) = perf_verdict perf_config_init (r_resources (u_base u1)) (u_body_time u1) 0 TIMEOUT"
    by (elim exE conjE) (rule that, simp_all add: fields(1))
  have "perf_verdict perf_config_init (r_resources (u_base u1)) (u_body_time u1) 0 TIMEOUT = TOO_SLOW"
    by (simp add: perf_verdict_def misses_def perf_config_init_def)
  with u1 fields(1) r show ?thesis
    by (intro exI conjI) (assumption | simp)+
qed


text \<open>So the second run can hide what the first one found: a body that exceeded its time limit and leaked
  is TIMEOUT after the checks of the first run and PASS_WITH_MEMORY_LEAK after those of the second,
  with the leak reported twice; and a test that failed or timed out before its body's time was
  recorded becomes TOO_SLOW when the baseline takes no longer than the margin.\<close>

theorem perf_hides_first_result:
  assumes "leaks (pf_unit cfg) (r_resources (u_base u))" and "\<not> over_bytes (pf_unit cfg) (r_resources (u_base u))"
    and "\<not> over_blocks (pf_unit cfg) (r_resources (u_base u))" and "u_timeout (pf_unit cfg) < u_body_time u"
    and "\<not> too_slow cfg (u_body_time u) baseline" and "fst (pf_ratio cfg) = 0" and "short \<le> pf_margin cfg"
    and "u_body_time u_failed = 0"
  shows "\<exists>c c' es. c = snd (run_checks rep (pf_unit cfg) (s, u)) \<and> r_status (u_base c) = TIMEOUT
    \<and> c' = d_unit (snd (perf_checks rep' cfg (s', \<lparr>d_unit = c, d_time = baseline\<rparr>)))
    \<and> r_status (u_base c') = PASS_WITH_MEMORY_LEAK
    \<and> r_errors (u_base c') = r_errors (u_base u) @ es \<and> length es = 3
    \<and> r_status (u_base (d_unit (snd (perf_checks rep'' cfg (s'', \<lparr>d_unit = u_failed, d_time = short\<rparr>))))) = TOO_SLOW"
proof -
  define c where "c = snd (run_checks rep (pf_unit cfg) (s, u))"
  define c' where "c' = d_unit (snd (perf_checks rep' cfg (s', \<lparr>d_unit = c, d_time = baseline\<rparr>)))"
  obtain es where c: "r_status (u_base c) = TIMEOUT" "r_errors (u_base c) = r_errors (u_base u) @ es" "length es = 2"
      "r_resources (u_base c) = r_resources (u_base u)" "u_body_time c = u_body_time u"
    using run_checks_verdict [of rep "pf_unit cfg" "(s, u)"] assms(1-4) by (auto simp: c_def unit_verdict_def)
  note second = perf_checks_verdict [of rep' cfg "(s', \<lparr>d_unit = c, d_time = baseline\<rparr>)"]
  have "r_status (u_base c') = PASS_WITH_MEMORY_LEAK"
    using second(1) c(4,5) assms(1-3,5) by (simp add: c'_def perf_verdict_def memory_verdict_def flip: too_slow_misses)
  moreover obtain es' where "r_errors (u_base c') = r_errors (u_base c) @ es'" "length es' = 1"
    using second(2) c(4,5) assms(1-3,5) by (auto simp: c'_def)
  moreover have "too_slow cfg 0 short"
    using assms(6,7) by (simp add: too_slow_def)
  then have "r_status (u_base (d_unit (snd (perf_checks rep'' cfg (s'', \<lparr>d_unit = u_failed, d_time = short\<rparr>))))) = TOO_SLOW"
    using perf_checks_verdict(1) [of rep'' cfg "(s'', \<lparr>d_unit = u_failed, d_time = short\<rparr>)"] assms(8)
    by (simp add: perf_verdict_def flip: too_slow_misses)
  ultimately show ?thesis
    using c(1-3)
    by - (rule exI [of _ c], rule exI [of _ c'], rule exI [of _ "es @ es'"], simp add: c_def c'_def)
qed

theorem perf_hides_first_result_witness:
  "\<exists>u c. r_status (u_base c) = TIMEOUT \<and> c = snd (run_checks (\<lambda>_. [], \<lambda>_. []) unit_config_init (fst start_state, u))
    \<and> r_status (u_base (d_unit (snd (perf_checks (\<lambda>_. [], \<lambda>_. []) perf_config_init (fst start_state, \<lparr>d_unit = c, d_time = 30000000000\<rparr>)))))
      = PASS_WITH_MEMORY_LEAK"
proof -
  let ?r = "snapshot_init\<lparr>rs_allocate := \<lparr>q_size = 64, q_count = 1\<rparr>\<rparr>"
  let ?u = "unit_run_init\<lparr>u_base := run_state_init\<lparr>r_resources := ?r\<rparr>, u_body_time := 20000000000\<rparr>"
  have u: "leaks (pf_unit perf_config_init) (r_resources (u_base ?u))" "\<not> over_bytes (pf_unit perf_config_init) (r_resources (u_base ?u))"
      "\<not> over_blocks (pf_unit perf_config_init) (r_resources (u_base ?u))" "u_timeout (pf_unit perf_config_init) < u_body_time ?u"
      "\<not> too_slow perf_config_init (u_body_time ?u) 30000000000" "fst (pf_ratio perf_config_init) = 0" "0 \<le> pf_margin perf_config_init"
      "u_body_time unit_run_init = 0"
    by (simp_all add: leaks_def over_bytes_def over_blocks_def too_slow_def perf_config_init_def unit_config_init_def
        snapshot_init_def quantity_zero_def unit_run_init_def)
  have "pf_unit perf_config_init = unit_config_init"
    by (simp add: perf_config_init_def)
  with perf_hides_first_result [OF u, of "(\<lambda>_. [], \<lambda>_. [])" "fst start_state" "(\<lambda>_. [], \<lambda>_. [])" "fst start_state"
      "(\<lambda>_. [], \<lambda>_. [])" "fst start_state"]
  show ?thesis
    by auto
qed

end
