(* ===== verification/Distributed_Test.thy ===== *)
theory Distributed_Test
  imports Derived_Test
begin

text \<open>
  Distributed unit tests (\<^verbatim>\<open>include/dtest_core/distributed_unit_test.h\<close>,
  \<^verbatim>\<open>src/distributed_unit_test.cpp\<close>): the driver runs the base class's test with the subclass's
  configuration; a worker runs its own function in a sandbox and sends its result to its parent process.
\<close>

section \<open>Model\<close>

record dist_config =
  dt_unit :: unit_config
  dt_faulty :: bool
  dt_chance :: frac
  dt_hole :: u64

definition dist_config_init :: dist_config where
  "dist_config_init = \<lparr>dt_unit = unit_config_init, dt_faulty = False, dt_chance = (1, 1), dt_hole = 0\<rparr>"

text \<open>The product with \<^verbatim>\<open>1e6\<close> is one of doubles; it is converted back (undefined from \<open>2 ^ 64\<close> on).\<close>

definition faultyNetwork :: "frac \<Rightarrow> u64 \<Rightarrow> dist_config \<Rightarrow> dist_config" where
  "faultyNetwork chance millis c =
    c\<lparr>dt_faulty := True, dt_chance := chance, dt_hole := of_nat (dbl_mul_trunc millis (1000000, 1))\<rparr>"

definition set_workers :: "u16 \<Rightarrow> unit_run \<Rightarrow> unit_run" where
  "set_workers n u = u\<lparr>u_base := (u_base u)\<lparr>r_workers := n\<rparr>\<rparr>"

definition dist_configure :: "dist_config \<Rightarrow> sandbox \<Rightarrow> sandbox" where
  "dist_configure cfg s =
    (let s = unit_configure s in if dt_faulty cfg then enableFaultyNetwork (dt_chance cfg) (dt_hole cfg) s else s)"

text \<open>The driver's part of the test, with the virtual \<^verbatim>\<open>_configure\<close>.\<close>

definition dist_driver_child :: "(nat \<Rightarrow> u8) \<Rightarrow> u8 list \<Rightarrow> report_printers \<Rightarrow> dist_config \<Rightarrow> user_code \<Rightarrow> child_state \<Rightarrow>
    (u8 list \<times> child_state) option" where
  "dist_driver_child raw pad rep cfg code =
    child_thread raw (unit_func (dist_configure cfg) (dt_unit cfg) code) (unit_onComplete raw pad rep (dt_unit cfg))"

definition worker_func :: "dist_config \<Rightarrow> user_code \<Rightarrow> user_fn option \<Rightarrow> derived_state \<Rightarrow> exc option \<times> derived_state" where
  "worker_func cfg code body =
    (let body_only = u_body_only (dt_unit cfg) in
     after (plain (inherited (\<lambda>(s, u). (dist_configure cfg s, set_status FAIL u))))
    (after (plain (if \<not> body_only then inherited snapshot else id))
    (after (time_dropped (uc_init code))
    (after (plain (if body_only then inherited snapshot else id))
    (after (time_own body)
    (after (plain (if body_only then inherited snapshot else id))
    (after (time_dropped (uc_complete code))
    (after (plain (if \<not> body_only then inherited snapshot else id))
           (plain (inherited (\<lambda>(s, u). (s, set_status PASS u))))))))))))"

definition worker_put :: "(nat \<Rightarrow> u8) \<Rightarrow> u8 list \<Rightarrow> derived_run \<Rightarrow> message \<Rightarrow> message option" where
  "worker_put raw pad v m =
    do {
      m \<leftarrow> shl_status raw (r_status (u_base (d_unit v))) m;
      m \<leftarrow> shl_snapshot raw pad (r_resources (u_base (d_unit v))) m;
      m \<leftarrow> shl_errors raw (r_errors (u_base (d_unit v))) m;
      shl_word raw (d_time v) m
    }"

definition worker_get :: "derived_run \<Rightarrow> message \<Rightarrow> derived_run option" where
  "worker_get v m =
    do {
      (st, m) \<leftarrow> shr_status m;
      (r, m) \<leftarrow> shr_snapshot m;
      (es, m) \<leftarrow> shr_errors m;
      (t, m) \<leftarrow> shr_word m;
      Some ((map_unit (\<lambda>u. u\<lparr>u_base := (u_base u)\<lparr>r_status := st, r_resources := r, r_errors := es\<rparr>\<rparr>) v)\<lparr>d_time := t\<rparr>)
    }"

text \<open>The checks are those of the base class: the time judged is \<^verbatim>\<open>_bodyTime\<close>.\<close>

definition worker_onComplete :: "(nat \<Rightarrow> u8) \<Rightarrow> u8 list \<Rightarrow> report_printers \<Rightarrow> dist_config \<Rightarrow> message \<Rightarrow> derived_state \<Rightarrow>
    (message \<times> derived_state) option" where
  "worker_onComplete raw pad rep cfg m c =
    (let c = inherited (run_checks rep (dt_unit cfg)) c
     in map_option (\<lambda>m. (m, c)) (worker_put raw pad (snd c) m))"

definition worker_callbacks :: "derived_run callbacks" where
  "worker_callbacks = \<lparr>cb_success = (\<lambda>m v. worker_get v m), cb_error = derived_error\<rparr>"

definition worker_child :: "(nat \<Rightarrow> u8) \<Rightarrow> u8 list \<Rightarrow> report_printers \<Rightarrow> dist_config \<Rightarrow> user_code \<Rightarrow> user_fn option \<Rightarrow>
    derived_state \<Rightarrow> (u8 list \<times> derived_state) option" where
  "worker_child raw pad rep cfg code body = child_thread raw (worker_func cfg code body) (worker_onComplete raw pad rep cfg)"

definition workerRun ::
  "(nat \<Rightarrow> u8) \<Rightarrow> nat \<Rightarrow> (nat \<Rightarrow> nat \<Rightarrow> nat) \<Rightarrow> nat \<Rightarrow> (descs \<Rightarrow> descs) \<Rightarrow> dist_config \<Rightarrow> wait_answer list \<Rightarrow> poll_answer list \<Rightarrow>
    derived_run \<Rightarrow> derived_run \<Rightarrow> descs \<Rightarrow> (derived_run \<times> descs) run_outcome" where
  "workerRun raw fuel accept cap child cfg ws as v_child v d =
    derived_sandbox_run raw fuel accept cap child worker_callbacks (dt_unit cfg) ws as v_child v d"

section \<open>The report\<close>

definition hasNetworkReport :: "resource_snapshot \<Rightarrow> bool" where
  "hasNetworkReport r \<longleftrightarrow> q_count (rs_send r) > 0 \<or> q_count (rs_receive r) > 0"

definition networkReport :: "resource_snapshot \<Rightarrow> string" where
  "networkReport r =
    (if q_count (rs_send r) > 0 then
       quantity_json ''send'' ''count'' (rs_send r)
       @ (if q_count (rs_receive r) > 0 then '',\<newline>'' else [])
     else [])
    @ (if q_count (rs_receive r) > 0 then quantity_json ''receive'' ''count'' (rs_receive r) else [])"

definition network_part :: "unit_run \<Rightarrow> string" where
  "network_part u =
    (if hasNetworkReport (r_resources (u_base u)) then
       '',\<newline>'' @ [DQ] @ ''network'' @ [DQ] @ '': {\<newline>'' @ indent (networkReport (r_resources (u_base u))) 2 @ ''\<newline>}''
     else [])"

definition dist_report :: "bool \<Rightarrow> derived_run \<Rightarrow> string" where
  "dist_report driver v =
    (if driver then unit_report (d_unit v)
     else
       errors_json (d_unit v)
       @ [DQ] @ ''time'' @ [DQ] @ '': {'' @ ''\<newline>  '' @ time_item ''body'' (d_time v) @ ''\<newline>}''
       @ memory_part (d_unit v))
    @ network_part (d_unit v)"

section \<open>A worker's result\<close>

definition worker_bytes :: "u8 list \<Rightarrow> derived_run \<Rightarrow> u8 list" where
  "worker_bytes pad v = status_bytes (r_status (u_base (d_unit v))) @ snapshot_bytes pad (r_resources (u_base (d_unit v)))
    @ list_bytes string_bytes (r_errors (u_base (d_unit v))) @ word_bytes (d_time v)"

definition worker_transmitted :: "derived_run \<Rightarrow> derived_run \<Rightarrow> derived_run" where
  "worker_transmitted v w =
    (map_unit (\<lambda>u. u\<lparr>u_base := (u_base u)\<lparr>r_status := r_status (u_base (d_unit w)),
        r_resources := r_resources (u_base (d_unit w)), r_errors := r_errors (u_base (d_unit w))\<rparr>\<rparr>) v)\<lparr>d_time := d_time w\<rparr>"

lemma worker_put_appends:
  assumes "errors_sendable (r_errors (u_base (d_unit v)))" and "length pad = 7"
    and ok: "msg_ok (0 + (3172 + errors_cost (r_errors (u_base (d_unit v))))) m"
  shows "\<exists>m'. worker_put raw pad v m = Some m' \<and> msg_ok 0 m' \<and> written m' = written m @ worker_bytes pad v"
proof -
  let ?x = "(r_status (u_base (d_unit v)), r_resources (u_base (d_unit v)), r_errors (u_base (d_unit v)), d_time v)"
  have eq: "worker_put raw pad v m = put_pair (shl_status raw) (put_pair (shl_snapshot raw pad) (put_pair (shl_errors raw) (shl_word raw))) ?x m"
    by (simp add: worker_put_def put_pair_def [abs_def])
  note fields = field_pair [OF status.field_axioms [of raw] field_pair [OF snapshot.field_axioms [of raw pad]
    field_pair [OF errors_field [of raw] time_field [of raw]]]]
  show ?thesis
    unfolding eq using field.put_appends [OF fields, where x = ?x and b = 0 and m = m] assms
    by (simp add: errors_sendable_def time_cost_def worker_bytes_def add.commute add.left_commute)
qed

lemma worker_get_reads:
  assumes "errors_sendable (r_errors (u_base (d_unit w)))" and "length pad = 7"
    and "msg_ok 0 m" and "unread m = worker_bytes pad w @ x"
  shows "worker_get v m = Some (worker_transmitted v w)"
proof -
  let ?x = "(r_status (u_base (d_unit w)), r_resources (u_base (d_unit w)), r_errors (u_base (d_unit w)), d_time w)"
  have eq: "worker_get v m = map_option (\<lambda>((st, r, es, t), m).
        (map_unit (\<lambda>u. u\<lparr>u_base := (u_base u)\<lparr>r_status := st, r_resources := r, r_errors := es\<rparr>\<rparr>) v)\<lparr>d_time := t\<rparr>)
      (get_pair shr_status (get_pair shr_snapshot (get_pair shr_errors shr_word)) m)"
    unfolding worker_get_def get_pair_def by (simp split: Option.bind_split option.split)
  note fields = field_pair [OF status.field_axioms [of raw] field_pair [OF snapshot.field_axioms [of raw pad]
    field_pair [OF errors_field [of raw] time_field [of raw]]]]
  show ?thesis
    unfolding eq using field.get_reads [OF fields, where x = ?x and b = 0 and m = m and r = x] assms
    by (simp add: errors_sendable_def worker_bytes_def worker_transmitted_def)
qed

lemma length_worker_bytes:
  assumes "errors_sendable (r_errors (u_base (d_unit v)))" and "length pad = 7"
  shows "length (worker_bytes pad v) < 2 ^ 62"
  using length_strings [of "r_errors (u_base (d_unit v))"] assms
  by (simp add: worker_bytes_def errors_sendable_def errors_cost_def length_snapshot_bytes status_bytes_def size_of_def)

lemma worker_child_sends:
  assumes "worker_func cfg code body (on_sandbox sb_enter c) = (None, c1)"
    and c2: "c2 = inherited (run_checks rep (dt_unit cfg)) (on_sandbox sb_exit c1)"
    and es: "errors_sendable (r_errors (u_base (d_unit (snd c2))))" and pad: "length pad = 7"
  shows "worker_child raw pad rep cfg code body c = Some (frame COMPLETE (worker_bytes pad (snd c2)), c2)"
  unfolding worker_child_def
proof (rule child_result_sent [where ?c1.0 = c1])
  fix m
  assume "msg_ok (0 + (3172 + errors_cost (r_errors (u_base (d_unit (snd c2)))))) m"
  from worker_put_appends [OF es pad this, where raw = raw]
  show "\<exists>m'. worker_onComplete raw pad rep cfg m (on_sandbox sb_exit c1) = Some (m', c2) \<and> msg_ok 0 m'
      \<and> written m' = written m @ worker_bytes pad (snd c2)"
    by (auto simp: worker_onComplete_def c2 [symmetric] Let_def)
qed (use es assms(1) in \<open>simp_all add: errors_sendable_def\<close>)

text \<open>The worker's function leaves the base class's body time as it was.\<close>

definition keeps_body_time :: "(derived_state \<Rightarrow> exc option \<times> derived_state) \<Rightarrow> bool" where
  "keeps_body_time f \<longleftrightarrow> (\<forall>c c'. f c = (None, c') \<longrightarrow> u_body_time (d_unit (snd c')) = u_body_time (d_unit (snd c)))"

lemma after_ends: "after f g c = (None, c') \<longleftrightarrow> (\<exists>c1. f c = (None, c1) \<and> g c1 = (None, c'))"
  by (auto simp: after_def split: prod.splits option.splits)

lemma keeps_after: "keeps_body_time f \<Longrightarrow> keeps_body_time g \<Longrightarrow> keeps_body_time (after f g)"
  by (auto simp: keeps_body_time_def after_ends)

lemma keeps_steps:
  "keeps_body_time (time_dropped f)" "keeps_body_time (time_own f)" "keeps_body_time (plain id)"
  "keeps_body_time (plain (inherited snapshot))" "keeps_body_time (plain (inherited (\<lambda>(s, u). (g s, set_status st u))))"
  by (auto simp: keeps_body_time_def plain_def snapshot_def time_dropped_keeps time_own_keeps case_prod_unfold)

lemma worker_func_result:
  assumes "worker_func cfg code body c = (None, c1)"
  shows "r_status (u_base (d_unit (snd c1))) = PASS" and "u_body_time (d_unit (snd c1)) = u_body_time (d_unit (snd c))"
proof -
  show "r_status (u_base (d_unit (snd c1))) = PASS"
    using assms by (auto simp: worker_func_def after_ends plain_def case_prod_unfold Let_def)
  have "keeps_body_time (worker_func cfg code body)"
    unfolding worker_func_def Let_def
    by (intro keeps_after keeps_steps) (simp_all add: keeps_steps keeps_steps(5) [where g = "\<lambda>s. s"])
  then show "u_body_time (d_unit (snd c1)) = u_body_time (d_unit (snd c))"
    unfolding keeps_body_time_def using assms by blast
qed

text \<open>C32. A worker's part that ends normally gives, in the process that runs the tests, the status that the memory
  checks and the base class's body time decide, the resources of the worker's function, and its time.
  The worker's own time is never compared with the limit: the time judged is \<^verbatim>\<open>_bodyTime\<close>, which a worker
  does not measure.\<close>

theorem worker_result_delivered:
  assumes "worker_func cfg code body (on_sandbox sb_enter (s, v)) = (None, c1)"
    and "c2 = inherited (run_checks rep (dt_unit cfg)) (on_sandbox sb_exit c1)"
    and "errors_sendable (r_errors (u_base (d_unit (snd c2))))" and "length pad = 7"
    and "\<not> u_in_process (dt_unit cfg)" and "sandbox_stdio fuel accept cap [] d = Some (st, d1)"
    and "\<forall>a \<in> set answers. positive_answer a" and "9 + length (worker_bytes pad (snd c2)) \<le> length answers"
    and "\<forall>el \<in> set els. el \<le> run_timeout (dt_unit cfg)"
  shows "\<exists>bytes v' d2. worker_child raw pad rep cfg code body (s, v) = Some (bytes, c2)
    \<and> workerRun raw' fuel accept cap child cfg (Ended # ws) (map No_connection els @ Connection answers bytes # as) v_child v d
      = Run_ends True (v', d2)
    \<and> r_status (u_base (d_unit v')) = unit_verdict (dt_unit cfg) (r_resources (u_base (d_unit (snd c1)))) (u_body_time (d_unit v)) PASS
    \<and> r_resources (u_base (d_unit v')) = r_resources (u_base (d_unit (snd c1))) \<and> d_time v' = d_time (snd c1)"
proof -
  let ?w = "snd c2"
  let ?bytes = "frame COMPLETE (worker_bytes pad ?w)" and ?v = "worker_transmitted v ?w"
  have get: "cb_success worker_callbacks m v = Some ?v" if "msg_ok 0 m" "unread m = worker_bytes pad ?w @ x" for m x
    using worker_get_reads [OF assms(3,4) that] by (simp add: worker_callbacks_def)
  have "\<exists>d2. workerRun raw' fuel accept cap child cfg (Ended # ws)
      (map No_connection els @ Connection answers ?bytes # as) v_child v d = Run_ends True (?v, d2)"
    unfolding workerRun_def
    by (rule derived_run_delivered [OF _ assms(5-8) length_worker_bytes [OF assms(3,4)] assms(9)]) (rule get)
  then obtain d2 where d2: "workerRun raw' fuel accept cap child cfg (Ended # ws)
      (map No_connection els @ Connection answers ?bytes # as) v_child v d = Run_ends True (?v, d2)" ..
  note ends = worker_func_result [OF assms(1)]
  have "r_status (u_base (d_unit ?v)) = unit_verdict (dt_unit cfg) (r_resources (u_base (d_unit (snd c1)))) (u_body_time (d_unit v)) PASS
      \<and> r_resources (u_base (d_unit ?v)) = r_resources (u_base (d_unit (snd c1))) \<and> d_time ?v = d_time (snd c1)"
    using run_checks_verdict [of rep "dt_unit cfg" "(sb_exit (fst c1), d_unit (snd c1))"] ends
    by (auto simp: worker_transmitted_def assms(2) on_sandbox_def)
  then show ?thesis
    by (rule_tac x = ?bytes in exI, rule_tac x = ?v in exI, rule_tac x = d2 in exI)
       (intro conjI worker_child_sends [OF assms(1-4)] d2; simp only:)
qed

text \<open>A worker that needs half a second more than its limit of one second.\<close>

definition late_config :: dist_config where
  "late_config = dist_config_init\<lparr>dt_unit := timeoutSeconds 1 unit_config_init\<rparr>"

definition late_body :: user_fn where
  "late_body s = ((None, 1500000000, []), s)"

lemma late_worker:
  obtains c1 where "worker_func late_config no_code (Some late_body) (on_sandbox sb_enter (fst start_state, derived_run_init)) = (None, c1)"
    and "inherited (run_checks rep (dt_unit late_config)) (on_sandbox sb_exit c1) = on_sandbox sb_exit c1"
    and "r_errors (u_base (d_unit (snd c1))) = []" and "d_time (snd c1) = 1500000000"
    and "unit_verdict (dt_unit late_config) (r_resources (u_base (d_unit (snd c1)))) 0 PASS = PASS"
proof -
  obtain c1 where c1: "worker_func late_config no_code (Some late_body) (on_sandbox sb_enter (fst start_state, derived_run_init)) = (None, c1)"
      "r_errors (u_base (d_unit (snd c1))) = []" "u_body_time (d_unit (snd c1)) = 0" "d_time (snd c1) = 1500000000"
      "q_size (rs_allocate (r_resources (u_base (d_unit (snd c1))))) = 0"
    by (simp add: worker_func_def late_config_def dist_config_init_def timeoutSeconds_def timeoutNanos_def unit_config_init_def
        no_code_def start_state_def on_sandbox_def after_def plain_def time_dropped_def time_own_def inherited_def
        inherited_throws_def timeOf_def time_into_def late_body_def add_errors_def dist_configure_def
        unit_configure_def snapshot_def resourceSnapshot_def set_status_def sb_enter_def sandbox_init_def
        sb_track_def disableFaultyNetwork_def memory_init_def reinitialize_def memory_fields_def mem_track_activity_def
        reset_max_allocation_def derived_run_init_def unit_run_init_def run_state_init_def snapshot_init_def quantity_zero_def Let_def)
  let ?r = "r_resources (u_base (d_unit (snd c1)))"
  have cfg: "u_bytes_limit (dt_unit late_config) = size_max" "u_blocks_limit (dt_unit late_config) = size_max"
    by (simp_all add: late_config_def timeoutSeconds_def timeoutNanos_def unit_config_init_def dist_config_init_def)
  have fine: "\<not> leaks (dt_unit late_config) ?r" "\<not> over_bytes (dt_unit late_config) ?r" "\<not> over_blocks (dt_unit late_config) ?r"
    using c1(5) by (simp_all add: leaks_def over_bytes_def over_blocks_def cfg not_less)
  have "checkMemoryLeak rep (dt_unit late_config) (sb_exit (fst c1), d_unit (snd c1)) = (sb_exit (fst c1), d_unit (snd c1))"
    using checkMemoryLeak_verdict(7) [OF refl, of "dt_unit late_config" "(sb_exit (fst c1), d_unit (snd c1))" rep] fine by simp
  then have "inherited (run_checks rep (dt_unit late_config)) (on_sandbox sb_exit c1) = on_sandbox sb_exit c1"
    using c1(3) by (simp add: inherited_def run_checks_def checkTimeout_def on_sandbox_def)
  moreover have "unit_verdict (dt_unit late_config) ?r 0 PASS = PASS"
    using fine by (simp add: unit_verdict_def memory_verdict_def)
  ultimately show thesis
    using c1 that by blast
qed

theorem worker_result_delivered_witness:
  "\<exists>bytes c2 v' d2. worker_child (\<lambda>_. 0) (replicate 7 0) (\<lambda>_. [], \<lambda>_. []) late_config no_code (Some late_body) (fst start_state, derived_run_init)
      = Some (bytes, c2)
    \<and> workerRun (\<lambda>_. 0) 2 min 65536 id late_config [Ended] [Connection (replicate 2000 (Ready 9)) bytes]
        derived_run_init derived_run_init sample_descs = Run_ends True (v', d2)
    \<and> r_status (u_base (d_unit v')) = PASS \<and> u_timeout (dt_unit late_config) < d_time v'"
proof -
  obtain c1 where c1: "worker_func late_config no_code (Some late_body) (on_sandbox sb_enter (fst start_state, derived_run_init)) = (None, c1)"
      "inherited (run_checks (\<lambda>_. [], \<lambda>_. []) (dt_unit late_config)) (on_sandbox sb_exit c1) = on_sandbox sb_exit c1"
      "r_errors (u_base (d_unit (snd c1))) = []" "d_time (snd c1) = 1500000000"
      "unit_verdict (dt_unit late_config) (r_resources (u_base (d_unit (snd c1)))) 0 PASS = PASS"
    by (rule late_worker)
  have es: "errors_sendable (r_errors (u_base (d_unit (snd (on_sandbox sb_exit c1)))))"
    by (simp add: on_sandbox_def c1(3) errors_sendable_def errors_cost_def list_cost_def list_valid_def)
  have len: "9 + length (worker_bytes (replicate 7 0) (snd (on_sandbox sb_exit c1))) \<le> length (replicate 2000 (Ready 9))"
    by (simp add: worker_bytes_def length_snapshot_bytes status_bytes_def on_sandbox_def c1(3) list_bytes_def size_of_def)
  obtain st d1 where st: "sandbox_stdio 2 min 65536 [] sample_descs = Some (st, d1)"
    using sample_stdio by (auto simp: unit_config_init_def)
  have cfg: "\<not> u_in_process (dt_unit late_config)" "\<forall>a \<in> set (replicate 2000 (Ready 9)). positive_answer a"
      "\<forall>el \<in> set []. el \<le> run_timeout (dt_unit late_config)" "length (replicate 7 (0 :: u8)) = 7"
      "u_timeout (dt_unit late_config) = 1000000000"
    by (simp_all add: late_config_def timeoutSeconds_def timeoutNanos_def unit_config_init_def dist_config_init_def positive_answer_def)
  from worker_result_delivered [where raw = "\<lambda>_. 0" and raw' = "\<lambda>_. 0" and child = id and ws = "[]" and as = "[]" and v_child = derived_run_init,
      OF c1(1) c1(2) [symmetric] es cfg(4,1) st cfg(2) len cfg(3), unfolded list.map append.simps]
  obtain bytes v' d2 where r: "worker_child (\<lambda>_. 0) (replicate 7 0) (\<lambda>_. [], \<lambda>_. []) late_config no_code (Some late_body)
        (fst start_state, derived_run_init) = Some (bytes, on_sandbox sb_exit c1)"
      "workerRun (\<lambda>_. 0) 2 min 65536 id late_config [Ended] [Connection (replicate 2000 (Ready 9)) bytes]
        derived_run_init derived_run_init sample_descs = Run_ends True (v', d2)"
      "r_status (u_base (d_unit v')) = unit_verdict (dt_unit late_config) (r_resources (u_base (d_unit (snd c1)))) (u_body_time (d_unit derived_run_init)) PASS"
      "d_time v' = d_time (snd c1)"
    by (elim exE conjE) (rule that; assumption)
  have "r_status (u_base (d_unit v')) = PASS" "u_timeout (dt_unit late_config) < d_time v'"
    using r(3,4) c1(4,5) cfg(5) by (simp_all add: derived_run_init_def unit_run_init_def)
  with r(1,2) show ?thesis
    by (intro exI conjI) assumption+
qed

end
