(* ===== verification/Contexts.thy ===== *)
theory Contexts
  imports Unit_Test
begin

text \<open>
  The contexts through which the driver and its workers talk (\<^verbatim>\<open>DriverContext\<close> and \<^verbatim>\<open>WorkerContext\<close> of
  \<^verbatim>\<open>include/dtest_core/test.h\<close> and \<^verbatim>\<open>src/test.cpp\<close>). What \<^verbatim>\<open>pollOrAccept\<close> and the kernel give next is a list of
  connections with their bytes; what is sent is kept in the state with its addressee. A use of a worker
  that is not in the table is undefined.
\<close>

section \<open>Waiting for events\<close>

text \<open>A connection with input: the kernel's answers to receiving, and the bytes on the stream.\<close>

datatype event = Conn "recv_answer list" "u8 list"

text \<open>What a handler does with a message: it goes on with a result, ends the process, or is undefined.\<close>

datatype ('r, 'd) handled = Handled 'r 'd | Exits 'd | Undefined

datatype ('r, 'd) event_end = Event 'r 'd "event list" | Event_waits 'd | Event_exits 'd | Event_undefined

text \<open>The loop that the three \<^verbatim>\<open>_waitFor...Event\<close> functions share; a connection that fails is disposed of.\<close>

fun wait_event :: "(nat \<Rightarrow> u8) \<Rightarrow> (message \<Rightarrow> 'd \<Rightarrow> ('r, 'd) handled) \<Rightarrow> event list \<Rightarrow> 'd \<Rightarrow> ('r, 'd) event_end" where
  "wait_event raw h [] d = Event_waits d"
| "wait_event raw h (Conn answers stream # evs) d =
    (case msg_recv raw answers stream (message_new raw DEFAULT_BUFFER_SIZE) of
       (Recv_overrun, _) \<Rightarrow> Event_undefined
     | (Recv_pending, _) \<Rightarrow> Event_waits d
     | (Recv_failed, _) \<Rightarrow> wait_event raw h evs d
     | (Received m, _) \<Rightarrow>
         if \<not> msg_has m then wait_event raw h evs d
         else (case h m d of
                 Undefined \<Rightarrow> Event_undefined
               | Exits d \<Rightarrow> Event_exits d
               | Handled r d \<Rightarrow> Event r d evs))"

lemma wait_event_shorter: "wait_event raw h evs d = Event r d' evs' \<Longrightarrow> length evs' < length evs"
proof (induction evs)
  case (Cons ev evs)
  then show ?case
    by (cases ev) (auto split: prod.splits recv_outcome.splits if_splits handled.splits)
qed simp

text \<open>A loop that waits for one event after another until a condition holds; \<open>body\<close> uses the result.\<close>

datatype 'd loop_end = Loop_done 'd "event list" | Loop_waits 'd | Loop_exits 'd | Loop_undefined

function event_loop :: "(nat \<Rightarrow> u8) \<Rightarrow> (message \<Rightarrow> 'd \<Rightarrow> ('r, 'd) handled) \<Rightarrow> ('d \<Rightarrow> bool) \<Rightarrow> ('r \<Rightarrow> 'd \<Rightarrow> 'd option) \<Rightarrow>
    event list \<Rightarrow> 'd \<Rightarrow> 'd loop_end" where
  "event_loop raw h stop body evs d =
    (if stop d then Loop_done d evs
     else (case wait_event raw h evs d of
             Event_waits d \<Rightarrow> Loop_waits d
           | Event_exits d \<Rightarrow> Loop_exits d
           | Event_undefined \<Rightarrow> Loop_undefined
           | Event r d evs \<Rightarrow>
               (case body r d of
                  None \<Rightarrow> Loop_undefined
                | Some d \<Rightarrow> event_loop raw h stop body evs d)))"
  by pat_completeness auto
termination
  by (relation "measure (\<lambda>(raw, h, stop, body, evs, d). length evs)") (auto dest: wait_event_shorter)

declare event_loop.simps [simp del]

section \<open>Messages between the processes\<close>

datatype opcode = OP_NOP | OP_WORKER_STARTED | OP_RUN_TEST | OP_FINISHED_TEST | OP_NOTIFY | OP_TERMINATE | OP_USER_MESSAGE

fun op_code :: "opcode \<Rightarrow> u16" where
  "op_code OP_NOP = 0"
| "op_code OP_WORKER_STARTED = 1"
| "op_code OP_RUN_TEST = 2"
| "op_code OP_FINISHED_TEST = 3"
| "op_code OP_NOTIFY = 4"
| "op_code OP_TERMINATE = 5"
| "op_code OP_USER_MESSAGE = 6"

text \<open>A new message with an operation, filled by \<open>put\<close>, and the bytes it sends.\<close>

definition op_message :: "(nat \<Rightarrow> u8) \<Rightarrow> opcode \<Rightarrow> message option" where
  "op_message raw op = shl_word raw (op_code op) (message_new raw DEFAULT_BUFFER_SIZE)"

definition packet :: "(nat \<Rightarrow> u8) \<Rightarrow> opcode \<Rightarrow> (message \<Rightarrow> message option) \<Rightarrow> u8 list option" where
  "packet raw op put = map_option fst (Option.bind (Option.bind (op_message raw op) put) msg_send)"

text \<open>The operation and the worker a message names.\<close>

definition read_header :: "message \<Rightarrow> (u16 \<times> u32 \<times> message) option" where
  "read_header m =
    (case shr_word m of
       None \<Rightarrow> None
     | Some (op, m) \<Rightarrow> map_option (\<lambda>(i, m). (op, i, m)) (shr_word m))"

section \<open>The driver's side\<close>

record handle =
  h_id :: u32
  h_addr :: "u8 list"
  h_pid :: u32
  h_running :: bool
  h_notify :: u32
  h_done :: bool
  h_status :: status
  h_report :: string

definition handle_default :: handle where
  "handle_default = \<lparr>h_id = - 1, h_addr = [], h_pid = 0, h_running = False, h_notify = 0, h_done = False,
    h_status = PENDING, h_report = []\<rparr>"

definition handle_new :: "u32 \<Rightarrow> u32 \<Rightarrow> handle" where
  "handle_new i pid = handle_default\<lparr>h_id := i, h_pid := pid\<rparr>"

text \<open>\<^verbatim>\<open>operator=\<close> leaves the status and the report of the object it assigns to.\<close>

definition handle_assign :: "handle \<Rightarrow> handle \<Rightarrow> handle" where
  "handle_assign old rhs =
    old\<lparr>h_id := h_id rhs, h_addr := h_addr rhs, h_pid := h_pid rhs, h_running := h_running rhs,
      h_notify := h_notify rhs, h_done := h_done rhs\<rparr>"

text \<open>The copy constructor does not copy them either; the new object's are the default ones.\<close>

definition handle_copy :: "handle \<Rightarrow> handle" where
  "handle_copy rhs = handle_default\<lparr>h_id := h_id rhs, h_addr := h_addr rhs, h_pid := h_pid rhs, h_running := h_running rhs,
    h_notify := h_notify rhs, h_done := h_done rhs\<rparr>"

definition assign_at :: "u32 \<Rightarrow> handle \<Rightarrow> (u32, handle) umap \<Rightarrow> (u32, handle) umap" where
  "assign_at i w ws =
    um_set i (handle_assign (case um_find i ws of None \<Rightarrow> handle_default | Some old \<Rightarrow> old) w) ws"

record driver =
  dr_workers :: "(u32, handle) umap"
  dr_allocated :: "(u32, handle) umap"
  dr_messages :: "message list"
  dr_sent :: "(u32 \<times> u8 list) list"

definition driver_init :: driver where
  "driver_init = \<lparr>dr_workers = [], dr_allocated = [], dr_messages = [], dr_sent = []\<rparr>"

definition addWorker :: "u32 \<Rightarrow> driver \<Rightarrow> driver" where
  "addWorker i d = d\<lparr>dr_workers := assign_at i (handle_new i 0) (dr_workers d)\<rparr>"

text \<open>\<^verbatim>\<open>_spawnWorker\<close> in the parent, for the process identifier \<^verbatim>\<open>fork\<close> gave.\<close>

definition spawnWorker :: "u32 \<Rightarrow> driver \<Rightarrow> handle \<times> driver" where
  "spawnWorker pid d =
    (let i = of_nat (length (dr_workers d)) + 1; w = handle_new i pid
     in (w, d\<lparr>dr_workers := assign_at i w (dr_workers d)\<rparr>))"

text \<open>The handle is returned by value; a copy of it is the same handle, since it has no result yet.\<close>

lemma spawned_handle_copied: "handle_copy (fst (spawnWorker pid d)) = fst (spawnWorker pid d)"
  by (simp add: spawnWorker_def handle_copy_def handle_new_def handle_default_def Let_def)

text \<open>The handlers of the two kinds of events. A worker that is not in the table gives \<open>- 1\<close>.\<close>

definition super_handler :: "message \<Rightarrow> driver \<Rightarrow> (u32, driver) handled" where
  "super_handler m d =
    (case read_header m of
       None \<Rightarrow> Undefined
     | Some (op, i, m) \<Rightarrow>
         if op = op_code OP_WORKER_STARTED then
           (case um_find i (dr_workers d) of
              None \<Rightarrow> Handled (- 1) d
            | Some w \<Rightarrow>
                (case msg_get 16 m of
                   None \<Rightarrow> Undefined
                 | Some (a, m) \<Rightarrow>
                     Handled i (d\<lparr>dr_workers := um_set i (w\<lparr>h_addr := a, h_running := True\<rparr>) (dr_workers d)\<rparr>)))
         else if op = op_code OP_FINISHED_TEST then
           (case um_find i (dr_allocated d) of
              None \<Rightarrow> Handled (- 1) d
            | Some w \<Rightarrow>
                (case shr_status m of
                   None \<Rightarrow> Undefined
                 | Some (st, m) \<Rightarrow>
                     (case shr_string m of
                        None \<Rightarrow> Undefined
                      | Some (r, m) \<Rightarrow>
                          Handled i (d\<lparr>dr_allocated :=
                            um_set i (w\<lparr>h_done := True, h_status := st, h_report := r\<rparr>) (dr_allocated d)\<rparr>))))
         else Handled i d)"

definition driver_handler :: "message \<Rightarrow> driver \<Rightarrow> (u32, driver) handled" where
  "driver_handler m d =
    (case read_header m of
       None \<Rightarrow> Undefined
     | Some (op, i, m) \<Rightarrow>
         if op = op_code OP_NOTIFY then
           (case um_find i (dr_allocated d) of
              None \<Rightarrow> Handled (- 1) d
            | Some w \<Rightarrow> Handled i (d\<lparr>dr_allocated := um_set i (w\<lparr>h_notify := h_notify w + 1\<rparr>) (dr_allocated d)\<rparr>))
         else if op = op_code OP_USER_MESSAGE then Handled i (d\<lparr>dr_messages := dr_messages d @ [m]\<rparr>)
         else Handled i d)"

definition waitForSuperEvent :: "(nat \<Rightarrow> u8) \<Rightarrow> event list \<Rightarrow> driver \<Rightarrow> (u32, driver) event_end" where
  "waitForSuperEvent raw = wait_event raw super_handler"

definition waitForEvent :: "(nat \<Rightarrow> u8) \<Rightarrow> event list \<Rightarrow> driver \<Rightarrow> (u32, driver) event_end" where
  "waitForEvent raw = wait_event raw driver_handler"

text \<open>\<^verbatim>\<open>while (! cond) _waitForSuperEvent()\<close>, the result ignored.\<close>

definition super_until :: "(nat \<Rightarrow> u8) \<Rightarrow> (driver \<Rightarrow> bool) \<Rightarrow> event list \<Rightarrow> driver \<Rightarrow> driver loop_end" where
  "super_until raw stop = event_loop raw super_handler stop (\<lambda>r d. Some d)"

section \<open>Allocation\<close>

text \<open>\<open>pids\<close> are the answers of \<^verbatim>\<open>fork\<close>; \<open>None\<close> when there are not enough.\<close>

fun spawn_loop :: "u32 list \<Rightarrow> u16 \<Rightarrow> u32 list \<Rightarrow> driver \<Rightarrow> (u32 list \<times> driver) option" where
  "spawn_loop pids n spawned d =
    (if length (dr_workers d) < unat n then
       (case pids of
          [] \<Rightarrow> None
        | pid # pids \<Rightarrow>
            (let (w, d) = spawnWorker pid d
             in spawn_loop pids n (spawned @ [h_id w]) (d\<lparr>dr_workers := assign_at (h_id w) w (dr_workers d)\<rparr>)))
     else Some (spawned, d))"

declare spawn_loop.simps [simp del]

definition is_running :: "u32 \<Rightarrow> driver \<Rightarrow> bool" where
  "is_running i d \<longleftrightarrow> (case um_find i (dr_workers d) of None \<Rightarrow> False | Some w \<Rightarrow> h_running w)"

definition take_worker :: "u32 \<Rightarrow> driver \<Rightarrow> driver" where
  "take_worker i d =
    (case um_find i (dr_workers d) of
       None \<Rightarrow> d
     | Some w \<Rightarrow>
         (let w = w\<lparr>h_notify := 0, h_done := False\<rparr>
          in d\<lparr>dr_workers := um_set i w (dr_workers d), dr_allocated := assign_at (h_id w) w (dr_allocated d)\<rparr>))"

text \<open>The loop over the table; handlers do not change its keys.\<close>

fun take_loop :: "(nat \<Rightarrow> u8) \<Rightarrow> u32 list \<Rightarrow> u16 \<Rightarrow> event list \<Rightarrow> driver \<Rightarrow> driver loop_end" where
  "take_loop raw [] n evs d = Loop_done d evs"
| "take_loop raw (i # is) n evs d =
    (if n = 0 then Loop_done d evs
     else (case super_until raw (is_running i) evs d of
             Loop_done d evs \<Rightarrow> take_loop raw is (n - 1) evs (take_worker i d)
           | r \<Rightarrow> r))"

definition allocateWorkers :: "(nat \<Rightarrow> u8) \<Rightarrow> u32 list \<Rightarrow> u16 \<Rightarrow> event list \<Rightarrow> driver \<Rightarrow> (u32 list \<times> driver loop_end) option" where
  "allocateWorkers raw pids n evs d =
    (case spawn_loop pids n [] d of
       None \<Rightarrow> None
     | Some (spawned, d) \<Rightarrow> Some (spawned, take_loop raw (map fst (dr_workers d)) n evs d))"

section \<open>Commands to the workers\<close>

definition send_to :: "u32 \<Rightarrow> u8 list \<Rightarrow> driver \<Rightarrow> driver" where
  "send_to i bytes d = d\<lparr>dr_sent := dr_sent d @ [(i, bytes)]\<rparr>"

definition send_all :: "u8 list \<Rightarrow> driver \<Rightarrow> driver" where
  "send_all bytes d = fold (\<lambda>i. send_to i bytes) (map fst (dr_allocated d)) d"

definition run_packet :: "(nat \<Rightarrow> u8) \<Rightarrow> test \<Rightarrow> u8 list option" where
  "run_packet raw t =
    packet raw OP_RUN_TEST (\<lambda>m. Option.bind (shl_string raw (t_module t) m) (shl_string raw (t_name t)))"

definition driver_run :: "(nat \<Rightarrow> u8) \<Rightarrow> test \<Rightarrow> driver \<Rightarrow> driver option" where
  "driver_run raw t d = map_option (\<lambda>bytes. send_all bytes d) (run_packet raw t)"

definition driver_notify :: "(nat \<Rightarrow> u8) \<Rightarrow> driver \<Rightarrow> driver option" where
  "driver_notify raw d = map_option (\<lambda>bytes. send_all bytes d) (packet raw OP_NOTIFY Some)"

text \<open>\<^verbatim>\<open>terminate\<close> sends and waits for the process; a spawned worker that was not allocated has no socket.\<close>

fun deallocate_loop :: "(nat \<Rightarrow> u8) \<Rightarrow> u32 list \<Rightarrow> driver \<Rightarrow> driver option" where
  "deallocate_loop raw [] d = Some d"
| "deallocate_loop raw (i # is) d =
    (case (um_find i (dr_allocated d), packet raw OP_TERMINATE Some) of
       (Some w, Some bytes) \<Rightarrow> deallocate_loop raw is ((send_to i bytes d)\<lparr>dr_workers := um_erase i (dr_workers d)\<rparr>)
     | _ \<Rightarrow> None)"

definition deallocateWorkers :: "(nat \<Rightarrow> u8) \<Rightarrow> u32 list \<Rightarrow> driver \<Rightarrow> driver option" where
  "deallocateWorkers raw is d = map_option (\<lambda>d. d\<lparr>dr_allocated := []\<rparr>) (deallocate_loop raw is d)"

section \<open>Joining\<close>

definition is_done :: "u32 \<Rightarrow> driver \<Rightarrow> bool" where
  "is_done i d \<longleftrightarrow> (case um_find i (dr_allocated d) of None \<Rightarrow> False | Some w \<Rightarrow> h_done w)"

text \<open>What the test takes over from a worker.\<close>

definition collect :: "handle \<Rightarrow> run_state \<Rightarrow> run_state" where
  "collect w rs =
    rs\<lparr>r_status := (if h_status w > r_status rs then h_status w else r_status rs),
      r_child_status := r_child_status rs @ [h_status w],
      r_child_reports := r_child_reports rs @ [h_report w]\<rparr>"

fun join_loop :: "(nat \<Rightarrow> u8) \<Rightarrow> u32 list \<Rightarrow> event list \<Rightarrow> run_state \<Rightarrow> driver \<Rightarrow> (run_state \<times> driver) loop_end" where
  "join_loop raw [] evs rs d = Loop_done (rs, d) evs"
| "join_loop raw (i # is) evs rs d =
    (case super_until raw (is_done i) evs d of
       Loop_done d evs \<Rightarrow>
         (case um_find i (dr_allocated d) of
            None \<Rightarrow> Loop_undefined
          | Some w \<Rightarrow> join_loop raw is evs (collect w rs) d)
     | Loop_waits d \<Rightarrow> Loop_waits (rs, d)
     | Loop_exits d \<Rightarrow> Loop_exits (rs, d)
     | Loop_undefined \<Rightarrow> Loop_undefined)"

definition driver_join :: "(nat \<Rightarrow> u8) \<Rightarrow> event list \<Rightarrow> run_state \<Rightarrow> driver \<Rightarrow> (run_state \<times> driver) loop_end" where
  "driver_join raw evs rs d = join_loop raw (map fst (dr_allocated d)) evs rs d"

section \<open>What a test body calls on the driver\<close>

definition driver_createUserMessage :: "(nat \<Rightarrow> u8) \<Rightarrow> message option" where
  "driver_createUserMessage raw = op_message raw OP_USER_MESSAGE"

text \<open>The message is sent again to every worker; sending rewrites its header.\<close>

fun send_each :: "u32 list \<Rightarrow> message \<Rightarrow> driver \<Rightarrow> (message \<times> driver) option" where
  "send_each [] m d = Some (m, d)"
| "send_each (i # is) m d =
    (case msg_send m of None \<Rightarrow> None | Some (bytes, m) \<Rightarrow> send_each is m (send_to i bytes d))"

definition driver_sendUserMessage :: "message \<Rightarrow> driver \<Rightarrow> (message \<times> driver) option" where
  "driver_sendUserMessage m d = send_each (map fst (dr_allocated d)) m d"

text \<open>The first queued message, once there is one.\<close>

definition driver_getUserMessage :: "(nat \<Rightarrow> u8) \<Rightarrow> event list \<Rightarrow> driver \<Rightarrow> (message option \<times> driver) loop_end" where
  "driver_getUserMessage raw evs d =
    (case event_loop raw driver_handler (\<lambda>d. dr_messages d \<noteq> []) (\<lambda>r d. Some d) evs d of
       Loop_done d evs \<Rightarrow> Loop_done (Some (hd (dr_messages d)), d\<lparr>dr_messages := tl (dr_messages d)\<rparr>) evs
     | Loop_waits d \<Rightarrow> Loop_waits (None, d)
     | Loop_exits d \<Rightarrow> Loop_exits (None, d)
     | Loop_undefined \<Rightarrow> Loop_undefined)"

text \<open>\<^verbatim>\<open>wait\<close>: the workers pulled so far are part of the loop's state.\<close>

type_synonym wait_state = "driver \<times> u32 list"

definition pull :: "u32 \<Rightarrow> handle \<Rightarrow> wait_state \<Rightarrow> wait_state" where
  "pull i w s =
    ((fst s)\<lparr>dr_allocated := um_set i (w\<lparr>h_notify := h_notify w - 1\<rparr>) (dr_allocated (fst s))\<rparr>, snd s @ [h_id w])"

fun pull_loop :: "nat \<Rightarrow> u32 list \<Rightarrow> wait_state \<Rightarrow> wait_state" where
  "pull_loop n [] s = s"
| "pull_loop n (i # is) s =
    (if length (snd s) = n then s
     else
       (case um_find i (dr_allocated (fst s)) of
          None \<Rightarrow> pull_loop n is s
        | Some w \<Rightarrow> pull_loop n is (if h_notify w > 0 then pull i w s else s)))"

definition wait_handler :: "message \<Rightarrow> wait_state \<Rightarrow> (u32, wait_state) handled" where
  "wait_handler m s =
    (case driver_handler m (fst s) of
       Handled r d \<Rightarrow> Handled r (d, snd s)
     | Exits d \<Rightarrow> Exits (d, snd s)
     | Undefined \<Rightarrow> Undefined)"

definition wait_body :: "u32 \<Rightarrow> wait_state \<Rightarrow> wait_state option" where
  "wait_body i s =
    (if i = - 1 then Some s
     else
       (case um_find i (dr_allocated (fst s)) of
          None \<Rightarrow> None
        | Some w \<Rightarrow> Some (if h_notify w > 0 \<and> h_id w \<notin> set (snd s) then pull i w s else s)))"

definition driver_wait :: "(nat \<Rightarrow> u8) \<Rightarrow> u32 \<Rightarrow> event list \<Rightarrow> driver \<Rightarrow> wait_state loop_end" where
  "driver_wait raw n evs d =
    (let k = (if n = - 1 then length (dr_allocated d) else unat n);
         s = pull_loop k (map fst (dr_allocated d)) (d, [])
     in event_loop raw wait_handler (\<lambda>s. length (snd s) = k) wait_body evs s)"

section \<open>The worker's side\<close>

record worker =
  k_id :: u32
  k_notify :: u32
  k_messages :: "message list"
  k_in_test :: bool
  k_reports :: "u8 list list"
  k_sent :: "u8 list list"

definition worker_init :: worker where
  "worker_init = \<lparr>k_id = - 1, k_notify = 0, k_messages = [], k_in_test = False, k_reports = [], k_sent = []\<rparr>"

text \<open>\<^verbatim>\<open>_start\<close>: the worker's identifier and the address of its socket go to the driver.\<close>

definition worker_start :: "(nat \<Rightarrow> u8) \<Rightarrow> u8 list \<Rightarrow> u32 \<Rightarrow> worker \<Rightarrow> worker option" where
  "worker_start raw addr i k =
    map_option (\<lambda>bytes. k\<lparr>k_id := i, k_reports := k_reports k @ [bytes]\<rparr>)
      (packet raw OP_WORKER_STARTED (\<lambda>m. Option.bind (shl_word raw i m) (msg_put raw addr)))"

definition finished_packet :: "(nat \<Rightarrow> u8) \<Rightarrow> u32 \<Rightarrow> status \<Rightarrow> string \<Rightarrow> u8 list option" where
  "finished_packet raw i st r =
    packet raw OP_FINISHED_TEST (\<lambda>m. Option.bind (shl_word raw i m) (\<lambda>m. Option.bind (shl_status raw st m) (shl_string raw r)))"

text \<open>\<open>run\<close> is \<^verbatim>\<open>_run\<close> of the copied test: its status and report, and what it does to the context.\<close>

definition run_command :: "(nat \<Rightarrow> u8) \<Rightarrow> (string, test list) umap \<Rightarrow> (test \<Rightarrow> worker \<Rightarrow> (status \<times> string) \<times> worker) \<Rightarrow>
    message \<Rightarrow> worker \<Rightarrow> worker option" where
  "run_command raw tests run m k =
    (if k_in_test k then Some k
     else
       (let k = k\<lparr>k_in_test := True\<rparr> in
        case shr_string m of
          None \<Rightarrow> None
        | Some (md, m) \<Rightarrow>
            (case shr_string m of
               None \<Rightarrow> None
             | Some (name, m) \<Rightarrow>
                 (case find (\<lambda>t. t_name t = name) (module_tests md tests) of
                    None \<Rightarrow> Some (k\<lparr>k_in_test := False\<rparr>)
                  | Some t \<Rightarrow>
                      (case run t k of ((st, r), k) \<Rightarrow>
                         map_option (\<lambda>bytes. k\<lparr>k_reports := k_reports k @ [bytes], k_in_test := False\<rparr>)
                           (finished_packet raw (k_id k) st r))))))"

definition worker_handler :: "(nat \<Rightarrow> u8) \<Rightarrow> (string, test list) umap \<Rightarrow> (test \<Rightarrow> worker \<Rightarrow> (status \<times> string) \<times> worker) \<Rightarrow>
    message \<Rightarrow> worker \<Rightarrow> (unit, worker) handled" where
  "worker_handler raw tests run m k =
    (case shr_word m of
       None \<Rightarrow> Undefined
     | Some (op :: u16, m) \<Rightarrow>
         if op = op_code OP_RUN_TEST then
           (case run_command raw tests run m k of None \<Rightarrow> Undefined | Some k \<Rightarrow> Handled () k)
         else if op = op_code OP_NOTIFY then Handled () (k\<lparr>k_notify := k_notify k + 1\<rparr>)
         else if op = op_code OP_TERMINATE then Exits k
         else if op = op_code OP_USER_MESSAGE then Handled () (k\<lparr>k_messages := k_messages k @ [m]\<rparr>)
         else Handled () k)"

text \<open>\<^verbatim>\<open>runWorker\<close> after \<^verbatim>\<open>_start\<close>: events until the process is told to end.\<close>

definition worker_main :: "(nat \<Rightarrow> u8) \<Rightarrow> (string, test list) umap \<Rightarrow> (test \<Rightarrow> worker \<Rightarrow> (status \<times> string) \<times> worker) \<Rightarrow>
    event list \<Rightarrow> worker \<Rightarrow> worker loop_end" where
  "worker_main raw tests run = event_loop raw (worker_handler raw tests run) (\<lambda>k. False) (\<lambda>r k. Some k)"

definition worker_createUserMessage :: "(nat \<Rightarrow> u8) \<Rightarrow> worker \<Rightarrow> message option" where
  "worker_createUserMessage raw k = Option.bind (op_message raw OP_USER_MESSAGE) (shl_word raw (k_id k))"

definition worker_sendUserMessage :: "message \<Rightarrow> worker \<Rightarrow> (message \<times> worker) option" where
  "worker_sendUserMessage m k =
    map_option (\<lambda>(bytes, m). (m, k\<lparr>k_sent := k_sent k @ [bytes]\<rparr>)) (msg_send m)"

definition worker_getUserMessage :: "(nat \<Rightarrow> u8) \<Rightarrow> (string, test list) umap \<Rightarrow> (test \<Rightarrow> worker \<Rightarrow> (status \<times> string) \<times> worker) \<Rightarrow>
    event list \<Rightarrow> worker \<Rightarrow> (message option \<times> worker) loop_end" where
  "worker_getUserMessage raw tests run evs k =
    (case event_loop raw (worker_handler raw tests run) (\<lambda>k. k_messages k \<noteq> []) (\<lambda>r k. Some k) evs k of
       Loop_done k evs \<Rightarrow> Loop_done (Some (hd (k_messages k)), k\<lparr>k_messages := tl (k_messages k)\<rparr>) evs
     | Loop_waits k \<Rightarrow> Loop_waits (None, k)
     | Loop_exits k \<Rightarrow> Loop_exits (None, k)
     | Loop_undefined \<Rightarrow> Loop_undefined)"

definition worker_notify :: "(nat \<Rightarrow> u8) \<Rightarrow> worker \<Rightarrow> worker option" where
  "worker_notify raw k =
    map_option (\<lambda>bytes. k\<lparr>k_sent := k_sent k @ [bytes]\<rparr>) (packet raw OP_NOTIFY (shl_word raw (k_id k)))"

definition worker_wait :: "(nat \<Rightarrow> u8) \<Rightarrow> (string, test list) umap \<Rightarrow> (test \<Rightarrow> worker \<Rightarrow> (status \<times> string) \<times> worker) \<Rightarrow>
    u32 \<Rightarrow> event list \<Rightarrow> worker \<Rightarrow> worker loop_end" where
  "worker_wait raw tests run n evs k =
    (let n = (if n = - 1 then 1 else n) in
     case event_loop raw (worker_handler raw tests run) (\<lambda>k. n \<le> k_notify k) (\<lambda>r k. Some k) evs k of
       Loop_done k evs \<Rightarrow> Loop_done (k\<lparr>k_notify := k_notify k - n\<rparr>) evs
     | r \<Rightarrow> r)"

end
