(* ===== verification/Contexts_Props.thy ===== *)
theory Contexts_Props
  imports Contexts Unit_Test_Props
begin

text \<open>
  What the exchange between the driver and its workers guarantees: notifications are neither lost nor
  counted twice, user messages come in order, and joining collects every worker's result and returns
  exactly when every worker reports.
\<close>

section \<open>Events and the loop over them\<close>

text \<open>The message an event carries; the other events are skipped.\<close>

fun event_msg :: "(nat \<Rightarrow> u8) \<Rightarrow> event \<Rightarrow> message option" where
  "event_msg raw (Conn answers stream) =
    (case msg_recv raw answers stream (message_new raw DEFAULT_BUFFER_SIZE) of
       (Received m, _) \<Rightarrow> if msg_has m then Some m else None
     | _ \<Rightarrow> None)"

text \<open>A connection that neither blocks within a message nor overruns the buffer.\<close>

fun event_clean :: "(nat \<Rightarrow> u8) \<Rightarrow> event \<Rightarrow> bool" where
  "event_clean raw (Conn answers stream) \<longleftrightarrow>
    (case fst (msg_recv raw answers stream (message_new raw DEFAULT_BUFFER_SIZE)) of
       Recv_pending \<Rightarrow> False | Recv_overrun \<Rightarrow> False | _ \<Rightarrow> True)"

lemma wait_event_first:
  assumes "wait_event raw h evs d = Event r d' evs'"
  obtains skipped ev m where "evs = skipped @ ev # evs'" and "\<forall>e \<in> set skipped. event_msg raw e = None"
    and "event_msg raw ev = Some m" and "h m d = Handled r d'"
proof -
  have "\<exists>skipped ev m. evs = skipped @ ev # evs' \<and> (\<forall>e \<in> set skipped. event_msg raw e = None)
      \<and> event_msg raw ev = Some m \<and> h m d = Handled r d'"
    using assms
  proof (induction evs)
    case (Cons ev evs)
    obtain answers stream where ev: "ev = Conn answers stream"
      by (cases ev)
    obtain res x where r: "msg_recv raw answers stream (message_new raw DEFAULT_BUFFER_SIZE) = (res, x)"
      by (metis prod.collapse)
    show ?case
    proof (cases "event_msg raw ev")
      case None
      then have "wait_event raw h evs d = Event r d' evs'"
        using Cons.prems r by (auto simp: ev split: recv_outcome.splits if_splits)
      from Cons.IH [OF this] obtain skipped ev' m where "evs = skipped @ ev' # evs'"
          "\<forall>e \<in> set skipped. event_msg raw e = None" "event_msg raw ev' = Some m" "h m d = Handled r d'"
        by blast
      with None show ?thesis
        by (intro exI [of _ "ev # skipped"] exI [of _ ev'] exI [of _ m]) simp
    next
      case (Some m)
      then have "h m d = Handled r d'" "evs = evs'"
        using Cons.prems r by (auto simp: ev split: recv_outcome.splits if_splits handled.splits)
      with Some show ?thesis
        by (intro exI [of _ "[]"] exI [of _ ev] exI [of _ m]) simp
    qed
  qed simp
  then show thesis
    using that by blast
qed

text \<open>Rule for loops: what every skipped and every handled event keeps holds at the end.\<close>

lemma event_loop_invariant:
  assumes "event_loop raw h stop body evs d = Loop_done d' evs'" and "I [] d"
    and skip: "\<And>used ev d. I used d \<Longrightarrow> event_msg raw ev = None \<Longrightarrow> I (used @ [ev]) d"
    and step: "\<And>used ev d m r d1 d2. I used d \<Longrightarrow> event_msg raw ev = Some m \<Longrightarrow> h m d = Handled r d1 \<Longrightarrow>
      body r d1 = Some d2 \<Longrightarrow> I (used @ [ev]) d2"
  obtains used where "evs = used @ evs'" and "I used d'" and "stop d'"
proof -
  have skips: "I (used @ skipped) d" if "\<forall>e \<in> set skipped. event_msg raw e = None" "I used d" for used skipped d
    using that
  proof (induction skipped arbitrary: used)
    case (Cons e skipped)
    then have "I (used @ [e]) d"
      by (intro skip) simp_all
    with Cons have "I ((used @ [e]) @ skipped) d"
      by (intro Cons.IH) simp_all
    then show ?case
      by simp
  qed simp
  have "\<exists>used'. evs = used' @ evs' \<and> I (used @ used') d' \<and> stop d'"
    if "event_loop raw h stop body evs d = Loop_done d' evs'" "I used d" for used
    using that
  proof (induction "length evs" arbitrary: evs d used rule: less_induct)
    case less
    show ?case
    proof (cases "stop d")
      case True
      then have "evs = evs'" "d = d'"
        using less.prems(1) by (simp_all add: event_loop.simps)
      with True less.prems(2) show ?thesis
        by (intro exI [of _ "[]"]) simp
    next
      case False
      then obtain r d1 d2 evs1 where w: "wait_event raw h evs d = Event r d1 evs1" and b: "body r d1 = Some d2"
          and l: "event_loop raw h stop body evs1 d2 = Loop_done d' evs'"
        using less.prems(1) by (subst (asm) event_loop.simps) (auto split: event_end.splits option.splits)
      obtain skipped ev m where e: "evs = skipped @ ev # evs1" "\<forall>e \<in> set skipped. event_msg raw e = None"
          "event_msg raw ev = Some m" "h m d = Handled r d1"
        by (rule wait_event_first [OF w])
      have "I ((used @ skipped) @ [ev]) d2"
        by (rule step [OF skips [OF e(2) less.prems(2)] e(3,4) b])
      moreover have "length evs1 < length evs"
        by (simp add: e(1))
      ultimately obtain used' where "evs1 = used' @ evs'" "I (((used @ skipped) @ [ev]) @ used') d'" "stop d'"
        using less.hyps l by blast
      then show ?thesis
        by (intro exI [of _ "skipped @ ev # used'"]) (simp add: e(1))
    qed
  qed
  from this [OF assms(1,2)] show thesis
    using that by auto
qed

section \<open>Notifications and user messages\<close>

text \<open>The operation and worker an event's message names.\<close>

definition event_header :: "(nat \<Rightarrow> u8) \<Rightarrow> event \<Rightarrow> (u16 \<times> u32 \<times> message) option" where
  "event_header raw ev = Option.bind (event_msg raw ev) read_header"

definition notified :: "(nat \<Rightarrow> u8) \<Rightarrow> u32 \<Rightarrow> event \<Rightarrow> bool" where
  "notified raw i ev \<longleftrightarrow> map_option (\<lambda>(op, j, m). (op, j)) (event_header raw ev) = Some (op_code OP_NOTIFY, i)"

definition notifications :: "(nat \<Rightarrow> u8) \<Rightarrow> u32 \<Rightarrow> event list \<Rightarrow> u32" where
  "notifications raw i evs = of_nat (length (filter (notified raw i) evs))"

definition user_message :: "(nat \<Rightarrow> u8) \<Rightarrow> event \<Rightarrow> message list" where
  "user_message raw ev =
    (case event_header raw ev of
       None \<Rightarrow> []
     | Some (op, i, m) \<Rightarrow> if op = op_code OP_USER_MESSAGE then [m] else [])"

definition user_messages :: "(nat \<Rightarrow> u8) \<Rightarrow> event list \<Rightarrow> message list" where
  "user_messages raw evs = concat (map (user_message raw) evs)"

lemma events_Nil [simp]: "notifications raw i [] = 0" "user_messages raw [] = []"
  by (simp_all add: notifications_def user_messages_def)

lemma events_snoc [simp]:
  "notifications raw i (evs @ [ev]) = notifications raw i evs + (if notified raw i ev then 1 else 0)"
  "user_messages raw [ev] = user_message raw ev"
  by (simp_all add: notifications_def user_messages_def)

lemma skipped_event: "event_msg raw ev = None \<Longrightarrow> \<not> notified raw i ev \<and> user_message raw ev = []"
  by (simp add: notified_def user_message_def event_header_def)

lemma user_messages_append [simp]: "user_messages raw (xs @ ys) = user_messages raw xs @ user_messages raw ys"
  by (simp add: user_messages_def)

text \<open>The notifications a worker has left, and the keys of the table.\<close>

definition pending :: "u32 \<Rightarrow> driver \<Rightarrow> u32" where
  "pending i d = (case um_find i (dr_allocated d) of None \<Rightarrow> 0 | Some w \<Rightarrow> h_notify w)"

abbreviation allocated_ids :: "driver \<Rightarrow> u32 list" where
  "allocated_ids d \<equiv> map fst (dr_allocated d)"

text \<open>Each worker is in the table under its own identifier.\<close>

definition table_ok :: "(u32, handle) umap \<Rightarrow> bool" where
  "table_ok ws \<longleftrightarrow> um_invar ws \<and> (\<forall>(i, w) \<in> set ws. h_id w = i)"

lemma um_find_key: "um_find i ws = Some w \<Longrightarrow> i \<in> set (map fst ws)"
  by (force simp: um_find_def dest: map_of_SomeD)

lemma keys_um_set: "um_find i ws = Some w \<Longrightarrow> map fst (um_set i v ws) = map fst ws"
  by (induction i v ws rule: um_set.induct) (auto simp: um_find_def split: if_splits)

lemma table_ok_set:
  assumes "table_ok ws" and "h_id v = i"
  shows "table_ok (um_set i v ws)"
proof -
  have "(j, w) \<in> set (um_set i v ws) \<Longrightarrow> (j, w) = (i, v) \<or> (j, w) \<in> set ws" for j w
    by (induction i v ws rule: um_set.induct) (auto split: if_splits)
  then have "\<forall>(j, w) \<in> set (um_set i v ws). h_id w = j"
    using assms by (fastforce simp: table_ok_def)
  with assms show ?thesis
    by (simp add: table_ok_def um_invar_set)
qed

lemma table_ok_id: "table_ok ws \<Longrightarrow> um_find i ws = Some w \<Longrightarrow> h_id w = i"
  by (force simp: table_ok_def um_find_def dest: map_of_SomeD)

lemma driver_handler_effect:
  assumes "driver_handler m d = Handled r d1" and "event_msg raw ev = Some m"
  shows "allocated_ids d1 = allocated_ids d" and "table_ok (dr_allocated d) \<Longrightarrow> table_ok (dr_allocated d1)"
    and "i \<in> set (allocated_ids d) \<Longrightarrow> pending i d1 = pending i d + (if notified raw i ev then 1 else 0)"
    and "dr_messages d1 = dr_messages d @ user_message raw ev"
proof -
  obtain op j m' where h: "read_header m = Some (op, j, m')"
    using assms(1) by (auto simp: driver_handler_def split: option.splits)
  then have ev: "event_header raw ev = Some (op, j, m')"
    by (simp add: event_header_def assms(2))
  have codes: "op_code OP_NOTIFY \<noteq> op_code OP_USER_MESSAGE"
    by simp
  note def = driver_handler_def h option.case prod.case
  show "allocated_ids d1 = allocated_ids d"
    using assms(1) by (auto simp: def keys_um_set split: option.splits if_splits)
  show "table_ok (dr_allocated d1)" if "table_ok (dr_allocated d)"
    using assms(1) that by (auto simp: def table_ok_set table_ok_id split: option.splits if_splits)
  show "pending i d1 = pending i d + (if notified raw i ev then 1 else 0)" if "i \<in> set (allocated_ids d)"
  proof -
    have "um_find i (dr_allocated d) \<noteq> None"
      using that by (simp add: um_find_def map_of_eq_None_iff)
    then show ?thesis
      using assms(1) codes
      by (auto simp: def notified_def ev pending_def um_find_set simp del: op_code.simps split: option.splits if_splits)
  qed
  show "dr_messages d1 = dr_messages d @ user_message raw ev"
    using assms(1) codes by (auto simp: def user_message_def ev simp del: op_code.simps split: option.splits if_splits)
qed

text \<open>C28. User messages come out of \<^verbatim>\<open>getUserMessage\<close> in the order in which they arrived, none is lost and none is
  invented: taking one removes exactly the head of the queue continued by the messages still to come,
  and the notifications received meanwhile are kept.\<close>

theorem user_messages_in_order:
  assumes "driver_getUserMessage raw evs d = Loop_done (res, d') evs'"
  shows "\<exists>used m. evs = used @ evs' \<and> res = Some m
    \<and> dr_messages d @ user_messages raw evs = m # dr_messages d' @ user_messages raw evs'
    \<and> (\<forall>i \<in> set (allocated_ids d). pending i d' = pending i d + notifications raw i used)"
proof -
  let ?I = "\<lambda>used d1. allocated_ids d1 = allocated_ids d \<and> dr_messages d1 = dr_messages d @ user_messages raw used
    \<and> (\<forall>i \<in> set (allocated_ids d). pending i d1 = pending i d + notifications raw i used)"
  obtain d1 where l: "event_loop raw driver_handler (\<lambda>d. dr_messages d \<noteq> []) (\<lambda>r d. Some d) evs d = Loop_done d1 evs'"
      and d': "res = Some (hd (dr_messages d1))" "d' = d1\<lparr>dr_messages := tl (dr_messages d1)\<rparr>"
    using assms by (auto simp: driver_getUserMessage_def split: loop_end.splits)
  obtain used where u: "evs = used @ evs'" "?I used d1" "dr_messages d1 \<noteq> []"
  proof (rule event_loop_invariant [OF l, where I = ?I])
    fix used ev d1
    assume "?I used d1" "event_msg raw ev = None"
    then show "?I (used @ [ev]) d1"
      by (simp add: skipped_event)
  next
    fix used ev d1 m r d2 d3
    assume i: "?I used d1" and m: "event_msg raw ev = Some m" "driver_handler m d1 = Handled r d2" "Some d2 = Some d3"
    note e = driver_handler_effect [OF m(2,1)]
    show "?I (used @ [ev]) d3"
      using i e(1,3,4) m(3) by simp
  qed simp_all
  have "pending i d' = pending i d1" for i
    by (simp add: d'(2) pending_def)
  then show ?thesis
    using u by (intro exI [of _ used] exI [of _ "hd (dr_messages d1)"]) (simp add: d' flip: append_assoc)
qed

section \<open>Waiting for notifications\<close>

definition wait_inv :: "(nat \<Rightarrow> u8) \<Rightarrow> driver \<Rightarrow> event list \<Rightarrow> wait_state \<Rightarrow> bool" where
  "wait_inv raw d used s \<longleftrightarrow>
     allocated_ids (fst s) = allocated_ids d \<and> table_ok (dr_allocated (fst s)) \<and> distinct (snd s)
   \<and> set (snd s) \<subseteq> set (allocated_ids d)
   \<and> (\<forall>i \<in> set (allocated_ids d). pending i (fst s) + of_bool (i \<in> set (snd s)) = pending i d + notifications raw i used)
   \<and> dr_messages (fst s) = dr_messages d @ user_messages raw used"

lemma wait_inv_pull:
  assumes "wait_inv raw d used s" and w: "um_find i (dr_allocated (fst s)) = Some w" and "i \<notin> set (snd s)"
  shows "wait_inv raw d used (pull i w s)"
proof -
  have i: "h_id w = i" "i \<in> set (allocated_ids d)"
    using assms(1) table_ok_id [OF _ w] um_find_key [OF w] by (auto simp: wait_inv_def)
  have "pending j (fst (pull i w s)) = (if j = i then pending i (fst s) - 1 else pending j (fst s))" for j
    by (simp add: pull_def pending_def um_find_set w)
  then show ?thesis
    using assms i by (auto simp: wait_inv_def pull_def keys_um_set [OF w] table_ok_set)
qed

lemma pull_loop_inv:
  "wait_inv raw d used s \<Longrightarrow> distinct is \<Longrightarrow> set is \<inter> set (snd s) = {} \<Longrightarrow> wait_inv raw d used (pull_loop n is s)"
proof (induction "is" arbitrary: s)
  case (Cons i "is")
  show ?case
  proof (cases "um_find i (dr_allocated (fst s))")
    case (Some w)
    have "wait_inv raw d used (pull i w s)"
      using Cons.prems by (intro wait_inv_pull Some) auto
    moreover have "h_id w = i"
      using Cons.prems(1) Some by (auto simp: wait_inv_def table_ok_id)
    then have "set is \<inter> set (snd (pull i w s)) = {}"
      using Cons.prems by (auto simp: pull_def)
    ultimately show ?thesis
      using Cons Some by simp
  qed (use Cons in simp)
qed simp


section \<open>Joining\<close>

text \<open>The worker, status and report of a message that ends a worker's test.\<close>

definition finished :: "(nat \<Rightarrow> u8) \<Rightarrow> event \<Rightarrow> (u32 \<times> status \<times> string) option" where
  "finished raw ev =
    (case event_header raw ev of
       None \<Rightarrow> None
     | Some (op, i, m) \<Rightarrow>
         if op = op_code OP_FINISHED_TEST then
           (case shr_status m of
              None \<Rightarrow> None
            | Some (st, m) \<Rightarrow> map_option (\<lambda>(r, m). (i, st, r)) (shr_string m))
         else None)"

lemma super_handler_effect:
  assumes "super_handler m d = Handled r d1" and "event_msg raw ev = Some m"
  shows "allocated_ids d1 = allocated_ids d"
    and "um_find i (dr_allocated d) = Some w \<Longrightarrow> um_find i (dr_allocated d1)
      = (case finished raw ev of
           None \<Rightarrow> Some w
         | Some (j, st, rp) \<Rightarrow> Some (if j = i then w\<lparr>h_done := True, h_status := st, h_report := rp\<rparr> else w))"
proof -
  obtain op j m' where h: "read_header m = Some (op, j, m')"
    using assms(1) by (auto simp: super_handler_def split: option.splits)
  then have ev: "event_header raw ev = Some (op, j, m')"
    by (simp add: event_header_def assms(2))
  have codes: "op_code OP_FINISHED_TEST \<noteq> op_code OP_WORKER_STARTED"
    by simp
  note def = super_handler_def h option.case prod.case
  show "allocated_ids d1 = allocated_ids d"
    using assms(1) by (auto simp: def keys_um_set simp del: op_code.simps split: option.splits if_splits prod.splits)
  show "um_find i (dr_allocated d1)
      = (case finished raw ev of
           None \<Rightarrow> Some w
         | Some (j, st, rp) \<Rightarrow> Some (if j = i then w\<lparr>h_done := True, h_status := st, h_report := rp\<rparr> else w))"
    if "um_find i (dr_allocated d) = Some w"
    using assms(1) codes that
    by (auto simp: def finished_def ev um_find_set simp del: op_code.simps split: option.splits if_splits prod.splits)
qed

text \<open>A result of a worker: the one it had when it was done before, or one that it has sent since.\<close>

definition reported :: "(nat \<Rightarrow> u8) \<Rightarrow> driver \<Rightarrow> event list \<Rightarrow> u32 \<Rightarrow> status \<times> string \<Rightarrow> bool" where
  "reported raw d evs i res \<longleftrightarrow>
     (\<exists>w. um_find i (dr_allocated d) = Some w \<and> h_done w \<and> res = (h_status w, h_report w))
   \<or> (\<exists>ev \<in> set evs. finished raw ev = Some (i, res))"

definition join_inv :: "(nat \<Rightarrow> u8) \<Rightarrow> driver \<Rightarrow> event list \<Rightarrow> driver \<Rightarrow> bool" where
  "join_inv raw d used d1 \<longleftrightarrow> allocated_ids d1 = allocated_ids d
   \<and> (\<forall>i w. um_find i (dr_allocated d1) = Some w \<longrightarrow> h_done w \<longrightarrow> reported raw d used i (h_status w, h_report w))"

lemma reported_more: "reported raw d used i res \<Longrightarrow> reported raw d (used @ evs) i res"
  by (auto simp: reported_def)

lemma join_inv_more: "join_inv raw d used d1 \<Longrightarrow> join_inv raw d (used @ evs) d1"
  by (auto simp: join_inv_def intro: reported_more)

lemma um_find_same_keys: "map fst ws = map fst vs \<Longrightarrow> um_find i ws = Some w \<Longrightarrow> \<exists>v. um_find i vs = Some v"
  by (metis um_find_def um_find_key map_of_eq_None_iff option.exhaust set_map)

lemma super_until_inv:
  assumes l: "super_until raw stop evs d1 = Loop_done d2 evs'" and i: "join_inv raw d used0 d1"
  obtains used where "evs = used @ evs'" and "join_inv raw d (used0 @ used) d2" and "stop d2"
proof (rule event_loop_invariant [OF l [unfolded super_until_def], where I = "\<lambda>used. join_inv raw d (used0 @ used)"])
  fix used ev d1
  assume "join_inv raw d (used0 @ used) d1"
  then show "join_inv raw d (used0 @ used @ [ev]) d1"
    using join_inv_more [of raw d "used0 @ used" d1 "[ev]"] by simp
next
  fix used ev d1 m r d2 d3
  assume i: "join_inv raw d (used0 @ used) d1" and m: "event_msg raw ev = Some m" "super_handler m d1 = Handled r d2" "Some d2 = Some d3"
  note e = super_handler_effect [OF m(2,1)]
  have "reported raw d (used0 @ used @ [ev]) j (h_status w, h_report w)"
    if w: "um_find j (dr_allocated d2) = Some w" "h_done w" for j w
  proof -
    obtain v where v: "um_find j (dr_allocated d1) = Some v"
      using um_find_same_keys [OF e(1) w(1)] ..
    show ?thesis
    proof (cases "\<exists>st rp. finished raw ev = Some (j, st, rp)")
      case True
      then show ?thesis
        using e(2) [OF v] w(1) by (auto simp: reported_def)
    next
      case False
      then have "w = v"
        using e(2) [OF v] w(1) by (auto split: option.splits if_splits)
      then show ?thesis
        using i v w(2) reported_more [of raw d "used0 @ used" j "(h_status w, h_report w)" "[ev]"] by (simp add: join_inv_def)
    qed
  qed
  then show "join_inv raw d (used0 @ used @ [ev]) d3"
    using i e(1) m(3) by (simp add: join_inv_def)
qed (use i that in auto)

fun collect_result :: "status \<times> string \<Rightarrow> run_state \<Rightarrow> run_state" where
  "collect_result (st, rp) rs =
    rs\<lparr>r_status := max (r_status rs) st, r_child_status := r_child_status rs @ [st], r_child_reports := r_child_reports rs @ [rp]\<rparr>"

lemma collect_collect_result: "collect w rs = collect_result (h_status w, h_report w) rs"
  by (simp add: collect_def max_def)

lemma fold_collect:
  "r_status (fold collect_result res rs) = fold (\<lambda>x st. max st (fst x)) res (r_status rs)"
  "r_child_status (fold collect_result res rs) = r_child_status rs @ map fst res"
  "r_child_reports (fold collect_result res rs) = r_child_reports rs @ map snd res"
  "r_errors (fold collect_result res rs) = r_errors rs"
  by (induction res arbitrary: rs) auto

lemma fold_max: "fold (\<lambda>x st. max st (f x)) xs st = Max (insert (st :: 'a :: linorder) (f ` set xs))"
proof (induction xs arbitrary: st)
  case (Cons x xs)
  show ?case
  proof (cases "xs = []")
    case False
    then show ?thesis
      by (simp add: Cons.IH max.assoc)
  qed simp
qed simp

lemma join_loop_collects:
  assumes "join_loop raw is evs rs d1 = Loop_done (rs', d') evs'" and "join_inv raw d used0 d1"
  shows "\<exists>used res. evs = used @ evs' \<and> join_inv raw d (used0 @ used) d' \<and> rs' = fold collect_result res rs
    \<and> list_all2 (reported raw d (used0 @ used)) is res"
  using assms
proof (induction "is" arbitrary: evs rs d1 used0)
  case Nil
  then show ?case
    by (intro exI [of _ "[]"]) simp
next
  case (Cons i "is")
  obtain d2 evs1 w where l: "super_until raw (is_done i) evs d1 = Loop_done d2 evs1"
      and w: "um_find i (dr_allocated d2) = Some w" and rest: "join_loop raw is evs1 (collect w rs) d2 = Loop_done (rs', d') evs'"
    using Cons.prems(1) by (auto split: loop_end.splits option.splits)
  obtain used1 where u1: "evs = used1 @ evs1" "join_inv raw d (used0 @ used1) d2" "is_done i d2"
    by (rule super_until_inv [OF l Cons.prems(2)])
  from Cons.IH [OF rest u1(2)] obtain used res where u: "evs1 = used @ evs'" "join_inv raw d ((used0 @ used1) @ used) d'"
      "rs' = fold collect_result res (collect w rs)" "list_all2 (reported raw d ((used0 @ used1) @ used)) is res"
    by blast
  have "reported raw d (used0 @ used1) i (h_status w, h_report w)"
    using u1(2,3) w by (simp add: join_inv_def is_done_def)
  then have "reported raw d ((used0 @ used1) @ used) i (h_status w, h_report w)"
    by (rule reported_more)
  with u show ?case
    by (intro exI [of _ "used1 @ used"] exI [of _ "(h_status w, h_report w) # res"])
       (simp add: u1(1) collect_collect_result)
qed

text \<open>C10. When joining returns, the test has got one result of every allocated worker, in the order of the
  table: a result that the worker sent (or had, when it was done before). The statuses and reports are
  appended to the test's lists and its status is the worst of its own and theirs.\<close>

theorem join_collects:
  assumes "driver_join raw evs rs d = Loop_done (rs', d') evs'"
  shows "\<exists>used res. evs = used @ evs' \<and> list_all2 (reported raw d used) (allocated_ids d) res
    \<and> r_status rs' = Max (insert (r_status rs) (fst ` set res))
    \<and> r_child_status rs' = r_child_status rs @ map fst res \<and> r_child_reports rs' = r_child_reports rs @ map snd res
    \<and> r_errors rs' = r_errors rs \<and> allocated_ids d' = allocated_ids d"
proof -
  have "join_inv raw d [] d"
    by (auto simp: join_inv_def reported_def)
  from join_loop_collects [OF assms [unfolded driver_join_def] this] obtain used res where
      "evs = used @ evs'" "join_inv raw d used d'" "rs' = fold collect_result res rs"
      "list_all2 (reported raw d used) (allocated_ids d) res"
    by auto
  then show ?thesis
    by (intro exI [of _ used] exI [of _ res]) (simp add: fold_collect fold_max join_inv_def)
qed

section \<open>When joining returns\<close>

text \<open>An event that the driver can read: no connection blocks within a message, and a message has the fields of its
  operation.\<close>

definition super_fine :: "(nat \<Rightarrow> u8) \<Rightarrow> event \<Rightarrow> bool" where
  "super_fine raw ev \<longleftrightarrow> event_clean raw ev \<and>
    (case event_msg raw ev of
       None \<Rightarrow> True
     | Some m \<Rightarrow>
         (case read_header m of
            None \<Rightarrow> False
          | Some (op, i, m) \<Rightarrow>
              (op = op_code OP_WORKER_STARTED \<longrightarrow> msg_get 16 m \<noteq> None)
            \<and> (op = op_code OP_FINISHED_TEST \<longrightarrow> finished raw ev \<noteq> None)))"

definition finishes :: "(nat \<Rightarrow> u8) \<Rightarrow> u32 \<Rightarrow> event \<Rightarrow> bool" where
  "finishes raw i ev \<longleftrightarrow> map_option fst (finished raw ev) = Some i"

definition due :: "(nat \<Rightarrow> u8) \<Rightarrow> event list \<Rightarrow> driver \<Rightarrow> u32 \<Rightarrow> bool" where
  "due raw evs d i \<longleftrightarrow> is_done i d \<or> (\<exists>ev \<in> set evs. finishes raw i ev)"

lemma fine_handled:
  assumes "super_fine raw ev" and "event_msg raw ev = Some m"
  obtains r d1 where "super_handler m d = Handled r d1"
proof -
  have "super_handler m d \<noteq> Undefined \<and> (\<forall>d1. super_handler m d \<noteq> Exits d1)"
    using assms
    by (auto simp: super_fine_def super_handler_def finished_def event_header_def simp del: op_code.simps split: option.splits if_splits)
  then show thesis
    using that by (cases "super_handler m d") auto
qed

lemma wait_event_returns:
  assumes "\<forall>ev \<in> set evs. super_fine raw ev" and "\<exists>ev \<in> set evs. event_msg raw ev \<noteq> None"
  shows "\<exists>r d1 evs1. wait_event raw super_handler evs d = Event r d1 evs1"
  using assms
proof (induction evs)
  case (Cons ev evs)
  obtain answers stream where ev: "ev = Conn answers stream"
    by (cases ev)
  obtain res x where r: "msg_recv raw answers stream (message_new raw DEFAULT_BUFFER_SIZE) = (res, x)"
    by (metis prod.collapse)
  have fine: "super_fine raw ev" "event_clean raw ev"
    using Cons.prems(1) by (simp_all add: super_fine_def)
  show ?case
  proof (cases "event_msg raw ev")
    case None
    then have "wait_event raw super_handler (ev # evs) d = wait_event raw super_handler evs d"
      using fine(2) r by (auto simp: ev split: recv_outcome.splits if_splits)
    then show ?thesis
      using Cons None by simp
  next
    case (Some m)
    obtain r1 d1 where "super_handler m d = Handled r1 d1"
      by (rule fine_handled [OF fine(1) Some])
    then show ?thesis
      using Some r by (auto simp: ev split: recv_outcome.splits if_splits)
  qed
qed simp

lemma is_done_step:
  assumes "super_handler m d = Handled r d1" and "event_msg raw ev = Some m" and "i \<in> set (allocated_ids d)"
  shows "is_done i d1 \<longleftrightarrow> is_done i d \<or> finishes raw i ev"
proof -
  obtain w where w: "um_find i (dr_allocated d) = Some w"
    using assms(3) by (metis um_find_def map_of_eq_None_iff option.exhaust set_map)
  then show ?thesis
    using super_handler_effect(2) [OF assms(1,2) w]
    by (auto simp: is_done_def finishes_def split: option.splits)
qed

lemma finishes_message: "finishes raw i ev \<Longrightarrow> event_msg raw ev \<noteq> None"
  by (cases "event_msg raw ev") (simp_all add: finishes_def finished_def event_header_def)

lemma super_until_due:
  assumes "super_until raw stop evs d = Loop_done d1 evs1"
  shows "allocated_ids d1 = allocated_ids d \<and> stop d1 \<and> (\<exists>used. evs = used @ evs1)
    \<and> (\<forall>i \<in> set (allocated_ids d). due raw evs1 d1 i \<longleftrightarrow> due raw evs d i)"
proof -
  let ?I = "\<lambda>used d1. allocated_ids d1 = allocated_ids d \<and> (\<forall>i \<in> set (allocated_ids d). is_done i d1 \<longleftrightarrow> due raw used d i)"
  obtain used where "evs = used @ evs1" "?I used d1" "stop d1"
  proof (rule event_loop_invariant [OF assms [unfolded super_until_def], where I = ?I])
    show "?I [] d"
      by (simp add: due_def)
  next
    fix used ev d1
    assume "?I used d1" "event_msg raw ev = None"
    then show "?I (used @ [ev]) d1"
      using finishes_message [of raw _ ev] by (auto simp: due_def)
  next
    fix used ev d1 m r d2 d3
    assume i: "?I used d1" and m: "event_msg raw ev = Some m" "super_handler m d1 = Handled r d2" "Some d2 = Some d3"
    then show "?I (used @ [ev]) d3"
      using is_done_step [OF m(2,1)] super_handler_effect(1) [OF m(2,1)] by (auto simp: due_def)
  qed
  then show ?thesis
    by (auto simp: due_def)
qed

lemma super_until_returns:
  assumes "\<forall>ev \<in> set evs. super_fine raw ev" and "i \<in> set (allocated_ids d)" and "due raw evs d i"
  shows "\<exists>d1 evs1. super_until raw (is_done i) evs d = Loop_done d1 evs1"
  using assms
proof (induction "length evs" arbitrary: evs d rule: less_induct)
  case less
  show ?case
  proof (cases "is_done i d")
    case True
    then show ?thesis
      by (simp add: super_until_def event_loop.simps)
  next
    case False
    then obtain ev where "ev \<in> set evs" "finishes raw i ev"
      using less.prems(3) by (auto simp: due_def)
    then obtain r d1 evs1 where w: "wait_event raw super_handler evs d = Event r d1 evs1"
      using wait_event_returns [OF less.prems(1)] finishes_message by blast
    obtain skipped ev m where e: "evs = skipped @ ev # evs1" "\<forall>e \<in> set skipped. event_msg raw e = None"
        "event_msg raw ev = Some m" "super_handler m d = Handled r d1"
      by (rule wait_event_first [OF w])
    have "due raw evs1 d1 i"
      using less.prems(3) is_done_step [OF e(4,3) less.prems(2)] e(2) finishes_message [of raw i]
      unfolding due_def e(1) by (metis Un_iff list.set_intros set_append set_ConsD)
    moreover have "i \<in> set (allocated_ids d1)"
      using less.prems(2) super_handler_effect(1) [OF e(4,3)] by simp
    moreover have "\<forall>ev \<in> set evs1. super_fine raw ev" "length evs1 < length evs"
      using less.prems(1) by (simp_all add: e(1))
    ultimately have "\<exists>d2 evs2. super_until raw (is_done i) evs1 d1 = Loop_done d2 evs2"
      using less.hyps by blast
    moreover have "super_until raw (is_done i) evs d = super_until raw (is_done i) evs1 d1"
      using False w by (simp add: super_until_def event_loop.simps [of raw super_handler "is_done i" _ evs])
    ultimately show ?thesis
      by simp
  qed
qed

lemma join_loop_returns:
  assumes "\<forall>ev \<in> set evs. super_fine raw ev" and "set is \<subseteq> set (allocated_ids d)"
  shows "(\<exists>r evs'. join_loop raw is evs rs d = Loop_done r evs') \<longleftrightarrow> (\<forall>i \<in> set is. due raw evs d i)"
  using assms
proof (induction "is" arbitrary: evs rs d)
  case (Cons i "is")
  show ?case
  proof (cases "\<exists>d1 evs1. super_until raw (is_done i) evs d = Loop_done d1 evs1")
    case False
    then have "\<not> due raw evs d i"
      using super_until_returns [OF Cons.prems(1), of i d] Cons.prems(2) by (meson list.set_intros(1) subsetD)
    moreover have "\<nexists>r evs'. join_loop raw (i # is) evs rs d = Loop_done r evs'"
      using False by (auto split: loop_end.splits)
    ultimately show ?thesis
      by simp
  next
    case True
    then obtain d1 evs1 where l: "super_until raw (is_done i) evs d = Loop_done d1 evs1"
      by blast
    note u = super_until_due [OF l]
    obtain w where w: "um_find i (dr_allocated d1) = Some w"
      using u by (auto simp: is_done_def split: option.splits)
    have "due raw evs1 d1 i"
      using u by (simp add: due_def)
    then have "due raw evs d i"
      using u Cons.prems(2) by auto
    have "\<forall>ev \<in> set evs1. super_fine raw ev" "set is \<subseteq> set (allocated_ids d1)"
      using Cons.prems u by auto
    from Cons.IH [OF this] have "(\<exists>r evs'. join_loop raw is evs1 (collect w rs) d1 = Loop_done r evs') \<longleftrightarrow> (\<forall>i \<in> set is. due raw evs1 d1 i)" .
    also have "\<dots> \<longleftrightarrow> (\<forall>i \<in> set is. due raw evs d i)"
      using u Cons.prems(2) by auto
    finally show ?thesis
      using \<open>due raw evs d i\<close> by (simp add: l w)
  qed
qed simp

text \<open>C27. Joining returns exactly when every allocated worker has reported or still reports the end of its test.
  A worker that never does, because it has died or because it does not know the test, keeps the driver
  waiting: the loop has no timeout.\<close>

theorem join_returns_iff:
  assumes "\<forall>ev \<in> set evs. super_fine raw ev"
  shows "(\<exists>r evs'. driver_join raw evs rs d = Loop_done r evs') \<longleftrightarrow>
    (\<forall>i \<in> set (allocated_ids d). is_done i d \<or> (\<exists>ev \<in> set evs. finishes raw i ev))"
  using join_loop_returns [OF assms, of "allocated_ids d" d rs] by (simp add: driver_join_def due_def)

section \<open>What one side sends the other reads\<close>

lemma packet_frame:
  assumes put: "\<And>m. msg_ok (0 + cost) m \<Longrightarrow> \<exists>m'. put m = Some m' \<and> msg_ok 0 m' \<and> written m' = written m @ body"
    and "cost < 2 ^ 63"
  shows "packet raw op put = Some (word_bytes (of_nat (8 + length (word_bytes (op_code op) @ body)) :: u64) @ word_bytes (op_code op) @ body)"
proof -
  let ?new = "message_new raw DEFAULT_BUFFER_SIZE"
  have "msg_ok ((0 + cost) + (size_of TYPE(16) + 1024)) ?new"
    using assms(2) by (intro new_message_ok) (simp add: size_of_def)
  from word.put_appends [OF _ this, where x = "op_code op" and raw = raw] obtain m1 where
      m1: "shl_word raw (op_code op) ?new = Some m1" "msg_ok (0 + cost) m1" "written m1 = written ?new @ word_bytes (op_code op)"
    by auto
  from put [OF m1(2)] obtain m2 where m2: "put m1 = Some m2" "msg_ok 0 m2" "written m2 = written m1 @ body"
    by blast
  have "written m2 = map raw [0..<8] @ (word_bytes (op_code op) @ body)"
    using m2(3) m1(3) new_message_ok(2) [of 0 raw] by simp
  from msg_send_frames [OF m2(2) this] obtain m3 where
      "msg_send m2 = Some (word_bytes (of_nat (8 + length (word_bytes (op_code op) @ body)) :: u64) @ word_bytes (op_code op) @ body, m3)"
    by auto
  then show ?thesis
    by (simp add: packet_def op_message_def m1(1) m2(1))
qed

text \<open>Such a frame, received in any pieces, gives the operation, the worker and the rest.\<close>

lemma frame_header:
  assumes "\<forall>a \<in> set answers. positive_answer a" and "14 + length rest \<le> length answers" and "length rest < 2 ^ 61"
  obtains m x where "event_header raw (Conn answers (word_bytes (of_nat (8 + length (word_bytes (op :: u16) @ word_bytes (i :: u32) @ rest)) :: u64)
      @ word_bytes op @ word_bytes i @ rest)) = Some (op, i, m)" and "msg_ok 0 m" and "unread m = rest @ x"
    and "event_clean raw (Conn answers (word_bytes (of_nat (8 + length (word_bytes (op :: u16) @ word_bytes (i :: u32) @ rest)) :: u64)
      @ word_bytes op @ word_bytes i @ rest))"
    and "event_msg raw (Conn answers (word_bytes (of_nat (8 + length (word_bytes (op :: u16) @ word_bytes (i :: u32) @ rest)) :: u64)
      @ word_bytes op @ word_bytes i @ rest)) \<noteq> None"
proof -
  let ?body = "word_bytes op @ word_bytes i @ rest"
  have len: "length ?body = 6 + length rest"
    by (simp add: size_of_def)
  have "msg_ok (length ?body + 1024) (message_new raw DEFAULT_BUFFER_SIZE)" "8 + length ?body \<le> length answers"
    unfolding len using assms(2,3) by (simp_all add: new_message_ok)
  from msg_recv_framed [OF assms(1) this(2,1), of raw "[]"] obtain m answers' x where
      m: "msg_recv raw answers (word_bytes (of_nat (8 + length ?body) :: u64) @ ?body) (message_new raw DEFAULT_BUFFER_SIZE) = (Received m, [], answers')"
        "msg_has m" "msg_ok 0 m" "unread m = ?body @ x"
    by auto
  let ?ev = "Conn answers (word_bytes (of_nat (8 + length ?body) :: u64) @ ?body)"
  have u1: "unread m = word_bytes op @ (word_bytes i @ rest @ x)"
    using m(4) by simp
  let ?m1 = "m\<lparr>msg_pos := msg_pos m + length (word_bytes op)\<rparr>"
  have r1: "shr_word m = Some (op, ?m1)"
    by (rule word.get_reads [OF _ m(3) u1]) simp
  note u2 = unread_advance [OF u1] and k1 = advance_ok [OF u1 m(3)]
  let ?m2 = "?m1\<lparr>msg_pos := msg_pos ?m1 + length (word_bytes i)\<rparr>"
  have r2: "shr_word ?m1 = Some (i, ?m2)"
    by (rule word.get_reads [OF _ k1 u2]) simp
  have "event_msg raw ?ev = Some m" "event_clean raw ?ev"
    using m(1,2) by simp_all
  then show thesis
    using that [of ?m2 x] unread_advance [OF u2] advance_ok [OF u2 k1] r1 r2
    by (simp add: event_header_def read_header_def)
qed

lemma worker_messages:
  assumes "\<forall>a \<in> set answers. positive_answer a" and "20 + length r \<le> length answers"
    and "NUL \<notin> set r" and "length r < 2 ^ 60"
  shows "\<exists>b1 b2. finished_packet raw i st r = Some b1 \<and> finished raw' (Conn answers b1) = Some (i, st, r) \<and> super_fine raw' (Conn answers b1)
    \<and> worker_notify raw k = Some (k\<lparr>k_sent := k_sent k @ [b2]\<rparr>) \<and> notified raw' (k_id k) (Conn answers b2)"
proof -
  have idf: "field (shl_word raw) shr_word (\<lambda>i :: u32. word_bytes i) (\<lambda>i. 1028) (\<lambda>i. True)"
    using word.field_axioms [where raw = raw and 'a = 32] by (simp add: size_of_def)
  note sf = field_pair [OF status.field_axioms [of raw] string.field_axioms [of raw]]
  note f = field_pair [OF idf sf]
  let ?rest = "status_bytes st @ string_bytes r"
  have len: "length ?rest = 5 + length r"
    by (simp add: status_bytes_def string_bytes_def size_of_def)
  let ?b1 = "word_bytes (of_nat (8 + length (word_bytes (op_code OP_FINISHED_TEST) @ word_bytes i @ ?rest)) :: u64)
    @ word_bytes (op_code OP_FINISHED_TEST) @ word_bytes i @ ?rest"
  have b1: "finished_packet raw i st r = Some ?b1"
    unfolding finished_packet_def
  proof (rule packet_frame)
    fix m
    assume "msg_ok (0 + (3081 + length r)) m"
    then show "\<exists>m'. Option.bind (shl_word raw i m) (\<lambda>m. Option.bind (shl_status raw st m) (shl_string raw r)) = Some m'
        \<and> msg_ok 0 m' \<and> written m' = written m @ word_bytes i @ ?rest"
      using field.put_appends [OF f, where x = "(i, st, r)" and b = 0 and m = m] assms(3)
      by (simp add: put_pair_def [abs_def] string_bytes_def add.commute add.left_commute)
  qed (use assms(4) in simp)
  have "14 + length ?rest \<le> length answers" "length ?rest < 2 ^ 61"
    unfolding len using assms(2,4) by simp_all
  from frame_header [OF assms(1) this, of raw' "op_code OP_FINISHED_TEST" i] obtain m x where
      h: "event_header raw' (Conn answers ?b1) = Some (op_code OP_FINISHED_TEST, i, m)" "msg_ok 0 m" "unread m = ?rest @ x"
        "event_clean raw' (Conn answers ?b1)" "event_msg raw' (Conn answers ?b1) \<noteq> None"
    by blast
  have "get_pair shr_status shr_string m = Some ((st, r), m\<lparr>msg_pos := msg_pos m + length ?rest\<rparr>)"
    using field.get_reads [OF sf, where x = "(st, r)" and b = 0 and m = m and r = x] h(2,3) assms(3) by simp
  then have fin: "finished raw' (Conn answers ?b1) = Some (i, st, r)"
    using h(1) by (auto simp: finished_def get_pair_def bind_eq_Some_conv)
  have "read_header (the (event_msg raw' (Conn answers ?b1))) = Some (op_code OP_FINISHED_TEST, i, m)"
    using h(1,5) by (auto simp: event_header_def)
  then have fine: "super_fine raw' (Conn answers ?b1)"
    using h(4,5) fin by (auto simp: super_fine_def simp del: event_msg.simps event_clean.simps)
  let ?b2 = "word_bytes (of_nat (8 + length (word_bytes (op_code OP_NOTIFY) @ word_bytes (k_id k) @ [])) :: u64)
    @ word_bytes (op_code OP_NOTIFY) @ word_bytes (k_id k) @ []"
  have "packet raw OP_NOTIFY (shl_word raw (k_id k)) = Some ?b2"
    unfolding append_Nil2
    by (rule packet_frame [where cost = 1028]) (use field.put_appends [OF idf] in auto)
  then have b2: "worker_notify raw k = Some (k\<lparr>k_sent := k_sent k @ [?b2]\<rparr>)"
    by (simp add: worker_notify_def)
  have "14 + length ([] :: u8 list) \<le> length answers" "length ([] :: u8 list) < 2 ^ 61"
    using assms(2) by simp_all
  from frame_header [OF assms(1) this, of raw' "op_code OP_NOTIFY" "k_id k"] have "notified raw' (k_id k) (Conn answers ?b2)"
    by (auto simp: notified_def)
  with b1 fin fine b2 show ?thesis
    by blast
qed

text \<open>The messages of a worker are read by the driver as they were meant, however their bytes are cut up: the
  end of a test gives the worker, the status and the report, and a notification is one of that worker.\<close>

theorem worker_messages_understood:
  assumes "\<forall>a \<in> set answers. positive_answer a" and "20 + length r \<le> length answers"
    and "NUL \<notin> set r" and "length r < 2 ^ 60"
  shows "\<exists>b1 b2. finished_packet raw i st r = Some b1 \<and> finished raw' (Conn answers b1) = Some (i, st, r) \<and> super_fine raw' (Conn answers b1)
    \<and> worker_notify raw k = Some (k\<lparr>k_sent := k_sent k @ [b2]\<rparr>) \<and> notified raw' (k_id k) (Conn answers b2)"
  by (rule worker_messages [OF assms])

section \<open>Examples\<close>

definition one_worker :: driver where
  "one_worker = driver_init\<lparr>dr_allocated := [(1, (handle_new 1 7)\<lparr>h_running := True\<rparr>)]\<rparr>"

definition worker_one :: worker where
  "worker_one = worker_init\<lparr>k_id := 1\<rparr>"

lemma ready_answers: "\<forall>a \<in> set (replicate 40 (Ready 3)). positive_answer a"
  by (simp add: positive_answer_def)

lemma example_messages:
  obtains b1 b2 where "finished_packet (\<lambda>_. 0) 1 FAIL ''bad'' = Some b1"
    and "finished (\<lambda>_. 0) (Conn (replicate 40 (Ready 3)) b1) = Some (1, FAIL, ''bad'')"
    and "super_fine (\<lambda>_. 0) (Conn (replicate 40 (Ready 3)) b1)"
    and "worker_notify (\<lambda>_. 0) worker_one = Some (worker_one\<lparr>k_sent := [b2]\<rparr>)" and "notified (\<lambda>_. 0) 1 (Conn (replicate 40 (Ready 3)) b2)"
  using worker_messages [OF ready_answers, of "''bad''" "\<lambda>_. 0" 1 FAIL "\<lambda>_. 0" worker_one]
  by (auto simp: worker_one_def worker_init_def)

theorem worker_messages_understood_witness:
  "\<exists>b1. finished_packet (\<lambda>_. 0) 1 FAIL ''bad'' = Some b1
    \<and> finished (\<lambda>_. 0) (Conn (replicate 40 (Ready 3)) b1) = Some (1, FAIL, ''bad'')"
  using worker_messages_understood [OF ready_answers, of "''bad''" "\<lambda>_. 0" 1 FAIL "\<lambda>_. 0" worker_one] by auto

lemma wait_event_message:
  "event_msg raw ev = Some m \<Longrightarrow> wait_event raw h (ev # evs) d
    = (case h m d of Undefined \<Rightarrow> Event_undefined | Exits d \<Rightarrow> Event_exits d | Handled r d \<Rightarrow> Event r d evs)"
  by (cases ev) (auto split: prod.splits recv_outcome.splits if_splits)


theorem user_messages_in_order_witness:
  "dr_messages (one_worker\<lparr>dr_messages := [message_new (\<lambda>_. 0) 64, message_new (\<lambda>_. 0) 32]\<rparr>)
    = message_new (\<lambda>_. 0) 64 # [message_new (\<lambda>_. 0) 32]
   \<and> (\<exists>d'. driver_getUserMessage (\<lambda>_. 0) [] (one_worker\<lparr>dr_messages := [message_new (\<lambda>_. 0) 64, message_new (\<lambda>_. 0) 32]\<rparr>)
     = Loop_done (Some (message_new (\<lambda>_. 0) 64), d') [] \<and> dr_messages d' = [message_new (\<lambda>_. 0) 32])"
proof -
  let ?d = "one_worker\<lparr>dr_messages := [message_new (\<lambda>_. 0) 64, message_new (\<lambda>_. 0) 32]\<rparr>"
  obtain d' where g: "driver_getUserMessage (\<lambda>_. 0) [] ?d = Loop_done (Some (message_new (\<lambda>_. 0) 64), d') []"
    by (simp add: driver_getUserMessage_def event_loop.simps)
  from user_messages_in_order [OF g] have "dr_messages d' = [message_new (\<lambda>_. 0) 32]"
    by auto
  with g show ?thesis
    by simp
qed

theorem join_returns_iff_witness:
  "\<exists>b. finished_packet (\<lambda>_. 0) 1 FAIL ''bad'' = Some b
    \<and> (\<exists>r evs'. driver_join (\<lambda>_. 0) [Conn (replicate 40 (Ready 3)) b] run_state_init one_worker = Loop_done r evs')
    \<and> (\<nexists>r evs'. driver_join (\<lambda>_. 0) [] run_state_init one_worker = Loop_done r evs')"
proof -
  obtain b where b: "finished_packet (\<lambda>_. 0) 1 FAIL ''bad'' = Some b"
      and f: "finished (\<lambda>_. 0) (Conn (replicate 40 (Ready 3)) b) = Some (1, FAIL, ''bad'')"
      and fine: "super_fine (\<lambda>_. 0) (Conn (replicate 40 (Ready 3)) b)"
    by (rule example_messages)
  have one: "allocated_ids one_worker = [1]" "\<not> is_done 1 one_worker"
    by (simp_all add: one_worker_def driver_init_def is_done_def handle_new_def handle_default_def um_find_def)
  from join_returns_iff [of "[Conn (replicate 40 (Ready 3)) b]" "\<lambda>_. 0" run_state_init one_worker]
    join_returns_iff [of "[]" "\<lambda>_. 0" run_state_init one_worker]
  show ?thesis
    using b f fine one by (simp add: finishes_def)
qed

theorem join_collects_witness:
  "\<exists>b rs' d' evs'. finished_packet (\<lambda>_. 0) 1 FAIL ''bad'' = Some b
    \<and> driver_join (\<lambda>_. 0) [Conn (replicate 40 (Ready 3)) b] run_state_init one_worker = Loop_done (rs', d') evs'
    \<and> r_child_status rs' = [FAIL] \<and> r_child_reports rs' = [''bad'']"
proof -
  obtain b where b: "finished_packet (\<lambda>_. 0) 1 FAIL ''bad'' = Some b"
      and f: "finished (\<lambda>_. 0) (Conn (replicate 40 (Ready 3)) b) = Some (1, FAIL, ''bad'')"
      and fine: "super_fine (\<lambda>_. 0) (Conn (replicate 40 (Ready 3)) b)"
    by (rule example_messages)
  let ?ev = "Conn (replicate 40 (Ready 3)) b"
  have one: "allocated_ids one_worker = [1]" "\<not> is_done 1 one_worker"
    by (simp_all add: one_worker_def driver_init_def is_done_def handle_new_def handle_default_def um_find_def)
  have "\<exists>r evs'. driver_join (\<lambda>_. 0) [?ev] run_state_init one_worker = Loop_done r evs'"
    using join_loop_returns [of "[?ev]" "\<lambda>_. 0" "[1]" one_worker run_state_init] fine f one
    by (simp add: driver_join_def due_def finishes_def)
  then obtain rs' d' evs' where j: "driver_join (\<lambda>_. 0) [?ev] run_state_init one_worker = Loop_done (rs', d') evs'"
    by (metis prod.collapse)
  from join_collects [OF j] obtain used res where u: "[?ev] = used @ evs'" "list_all2 (reported (\<lambda>_. 0) one_worker used) [1] res"
      "r_child_status rs' = map fst res" "r_child_reports rs' = map snd res"
    using one(1) by (auto simp: run_state_init_def)
  then obtain x where x: "res = [x]" "reported (\<lambda>_. 0) one_worker used 1 x"
    by (auto simp: list_all2_Cons1)
  have "set used \<subseteq> {?ev}"
    using arg_cong [OF u(1), of set] by auto
  then have "x = (FAIL, ''bad'')"
    using x(2) f one(2) by (auto simp: reported_def is_done_def)
  with b j u(3,4) x(1) show ?thesis
    by auto
qed

end
