(* ===== verification/Lazy.thy ===== *)
theory Lazy
  imports Containers
begin

text \<open>
  The lazily constructed objects of \<^verbatim>\<open>include/dtest_core/lazy.h\<close> over a store of objects. The
  constructor and destructor are the caller's functions on that store; an empty \<^verbatim>\<open>std::function\<close> is \<open>None\<close>, and
  calling it raises. The copy constructor (lines 35 to 38) is left out: it reads a member \<^verbatim>\<open>rhs.destructor\<close> that
  the class does not have, so no use of it compiles.
\<close>

section \<open>The store\<close>

record 'v store =
  st_next :: nat
  st_objs :: "(nat, 'v) umap"

definition st_new :: "'v \<Rightarrow> 'v store \<Rightarrow> nat \<times> 'v store" where
  "st_new v s = (st_next s, \<lparr>st_next = st_next s + 1, st_objs = um_set (st_next s) v (st_objs s)\<rparr>)"

text \<open>What an operation ends in: a value, an exception, or undefined behaviour.\<close>

datatype ('a, 's) ending = Yields 'a 's | Raises 's | Misuse

fun ending_bind :: "('a, 's) ending \<Rightarrow> ('a \<Rightarrow> 's \<Rightarrow> ('b, 's) ending) \<Rightarrow> ('b, 's) ending" where
  "ending_bind (Yields a s) f = f a s"
| "ending_bind (Raises s) f = Raises s"
| "ending_bind Misuse f = Misuse"

definition st_delete :: "nat \<Rightarrow> 'v store \<Rightarrow> (unit, 'v store) ending" where
  "st_delete p s =
    (case um_find p (st_objs s) of
       None \<Rightarrow> Misuse
     | Some _ \<Rightarrow> Yields () (s\<lparr>st_objs := um_erase p (st_objs s)\<rparr>))"

section \<open>Lazy objects\<close>

type_synonym 'v lazy_ctor = "'v store \<Rightarrow> (nat option, 'v store) ending"
type_synonym 'v lazy_dtor = "nat \<Rightarrow> 'v store \<Rightarrow> (unit, 'v store) ending"

record 'v lazy =
  lz_ctor :: "'v lazy_ctor option"
  lz_dtor :: "'v lazy_dtor option"
  lz_ptr :: "nat option"

definition lazy_object :: "nat option \<Rightarrow> 'v lazy" where
  "lazy_object p = \<lparr>lz_ctor = None, lz_dtor = None, lz_ptr = p\<rparr>"

definition lazy_make :: "'v lazy_ctor option \<Rightarrow> 'v lazy_dtor option \<Rightarrow> 'v lazy" where
  "lazy_make c d = \<lparr>lz_ctor = c, lz_dtor = d, lz_ptr = None\<rparr>"

text \<open>\<^verbatim>\<open>_lazyPtr\<close>; \<^verbatim>\<open>ptr()\<close> and \<^verbatim>\<open>operator->\<close> answer it, the other operators access the object through it.\<close>

definition lazyPtr :: "'v lazy \<Rightarrow> 'v store \<Rightarrow> (nat option \<times> 'v lazy, 'v store) ending" where
  "lazyPtr l s =
    (case lz_ptr l of
       Some p \<Rightarrow> Yields (Some p, l) s
     | None \<Rightarrow>
         (case lz_ctor l of
            None \<Rightarrow> Raises s
          | Some c \<Rightarrow> ending_bind (c s) (\<lambda>p s. Yields (p, l\<lparr>lz_ptr := p\<rparr>) s)))"

definition lazy_get :: "'v lazy \<Rightarrow> 'v store \<Rightarrow> (nat option \<times> 'v lazy, 'v store) ending" where
  "lazy_get l s = lazyPtr l s"

definition lazy_deref :: "'v lazy \<Rightarrow> 'v store \<Rightarrow> ('v \<times> 'v lazy, 'v store) ending" where
  "lazy_deref l s =
    ending_bind (lazyPtr l s) (\<lambda>(p, l) s.
      (case p of
         None \<Rightarrow> Misuse
       | Some p \<Rightarrow> (case um_find p (st_objs s) of None \<Rightarrow> Misuse | Some v \<Rightarrow> Yields (v, l) s)))"

definition initialized :: "'v lazy \<Rightarrow> bool" where
  "initialized l \<longleftrightarrow> lz_ptr l \<noteq> None"

text \<open>The move constructor: the new object and what is left of the source.\<close>

definition lazy_move :: "'v lazy \<Rightarrow> 'v lazy \<times> 'v lazy" where
  "lazy_move rhs =
    (\<lparr>lz_ctor = lz_ctor rhs, lz_dtor = lz_dtor rhs, lz_ptr = lz_ptr rhs\<rparr>, rhs\<lparr>lz_ptr := None\<rparr>)"

definition lazy_destroy :: "'v lazy \<Rightarrow> 'v store \<Rightarrow> (unit, 'v store) ending" where
  "lazy_destroy l s =
    (case lz_ptr l of
       None \<Rightarrow> Yields () s
     | Some p \<Rightarrow> (case lz_dtor l of Some d \<Rightarrow> d p s | None \<Rightarrow> st_delete p s))"

text \<open>
  What both assignments do with the old object: unlike the destructor they delete it also when a
  destructor function has just been called on it.
\<close>

definition lazy_drop :: "'v lazy \<Rightarrow> 'v store \<Rightarrow> (unit, 'v store) ending" where
  "lazy_drop l s =
    (case lz_ptr l of
       None \<Rightarrow> Yields () s
     | Some p \<Rightarrow>
         ending_bind (case lz_dtor l of Some d \<Rightarrow> d p s | None \<Rightarrow> Yields () s) (\<lambda>_ s. st_delete p s))"

definition lazy_copy_assign :: "'v lazy \<Rightarrow> 'v lazy \<Rightarrow> 'v store \<Rightarrow> ('v lazy, 'v store) ending" where
  "lazy_copy_assign l rhs s =
    ending_bind (lazy_drop l s) (\<lambda>_ s. Yields (l\<lparr>lz_ctor := lz_ctor rhs, lz_dtor := lz_dtor rhs\<rparr>) s)"

text \<open>Of two different objects; the second component is what is left of the source.\<close>

definition lazy_move_assign :: "'v lazy \<Rightarrow> 'v lazy \<Rightarrow> 'v store \<Rightarrow> ('v lazy \<times> 'v lazy, 'v store) ending" where
  "lazy_move_assign l rhs s =
    ending_bind (lazy_drop l s) (\<lambda>_ s.
      Yields (l\<lparr>lz_ctor := lz_ctor rhs, lz_dtor := lz_dtor rhs, lz_ptr := lz_ptr rhs\<rparr>, rhs\<lparr>lz_ptr := None\<rparr>) s)"

text \<open>A number of accesses to one object, with the pointers they were given.\<close>

fun lazy_gets :: "nat \<Rightarrow> 'v lazy \<Rightarrow> 'v store \<Rightarrow> (nat option list \<times> 'v lazy, 'v store) ending" where
  "lazy_gets 0 l s = Yields ([], l) s"
| "lazy_gets (Suc n) l s =
    ending_bind (lazy_get l s) (\<lambda>(p, l) s.
      ending_bind (lazy_gets n l s) (\<lambda>(ps, l) s. Yields (p # ps, l) s))"

text \<open>
  The macro \<^verbatim>\<open>lazy(type, name, initialValue, lazyValue)\<close> defines a variable and a function. \<open>eval\<close> evaluates
  the expression \<^verbatim>\<open>lazyValue\<close>.
\<close>

definition lazy_macro :: "'a \<Rightarrow> ('s \<Rightarrow> 'a \<times> 's) \<Rightarrow> 'a \<Rightarrow> 's \<Rightarrow> 'a \<times> 'a \<times> 's" where
  "lazy_macro initial eval var s =
    (case (if var = initial then eval s else (var, s)) of (var, s) \<Rightarrow> (var, var, s))"

section \<open>A program's lazy objects\<close>

text \<open>
  Objects are named by numbers. \<open>Lz_adopt\<close> is \<^verbatim>\<open>Lazy(new T(v))\<close>. An operation on an object that is not there,
  or the construction of one that is, does nothing.
\<close>

datatype 'v lazy_op =
  Lz_make nat "'v lazy_ctor option" "'v lazy_dtor option"
| Lz_adopt nat 'v
| Lz_access nat
| Lz_move nat nat
| Lz_destroy nat

record 'v lazies =
  lo_store :: "'v store"
  lo_objs :: "nat \<Rightarrow> 'v lazy option"

fun lazy_apply :: "'v lazy_op \<Rightarrow> 'v lazies \<Rightarrow> (unit, 'v lazies) ending" where
  "lazy_apply (Lz_make i c d) w =
    (case lo_objs w i of Some _ \<Rightarrow> Yields () w
     | None \<Rightarrow> Yields () (w\<lparr>lo_objs := (lo_objs w)(i := Some (lazy_make c d))\<rparr>))"
| "lazy_apply (Lz_adopt i v) w =
    (case lo_objs w i of Some _ \<Rightarrow> Yields () w
     | None \<Rightarrow> (case st_new v (lo_store w) of (p, s) \<Rightarrow>
         Yields () \<lparr>lo_store = s, lo_objs = (lo_objs w)(i := Some (lazy_object (Some p)))\<rparr>))"
| "lazy_apply (Lz_access i) w =
    (case lo_objs w i of None \<Rightarrow> Yields () w
     | Some l \<Rightarrow>
         (case lazy_deref l (lo_store w) of
            Yields (v, l) s \<Rightarrow> Yields () \<lparr>lo_store = s, lo_objs = (lo_objs w)(i := Some l)\<rparr>
          | Raises s \<Rightarrow> Raises (w\<lparr>lo_store := s\<rparr>)
          | Misuse \<Rightarrow> Misuse))"
| "lazy_apply (Lz_move i j) w =
    (case (lo_objs w i, lo_objs w j) of
       (None, Some rhs) \<Rightarrow>
         (case lazy_move rhs of (l, rhs) \<Rightarrow>
            Yields () (w\<lparr>lo_objs := (lo_objs w)(i := Some l, j := Some rhs)\<rparr>))
     | _ \<Rightarrow> Yields () w)"
| "lazy_apply (Lz_destroy i) w =
    (case lo_objs w i of None \<Rightarrow> Yields () w
     | Some l \<Rightarrow>
         (case lazy_destroy l (lo_store w) of
            Yields _ s \<Rightarrow> Yields () \<lparr>lo_store = s, lo_objs = (lo_objs w)(i := None)\<rparr>
          | Raises s \<Rightarrow> Raises (w\<lparr>lo_store := s\<rparr>)
          | Misuse \<Rightarrow> Misuse))"

text \<open>A program goes on after an exception, with the objects it has.\<close>

fun lazy_run :: "'v lazy_op list \<Rightarrow> 'v lazies \<Rightarrow> 'v lazies option" where
  "lazy_run [] w = Some w"
| "lazy_run (op # ops) w =
    (case lazy_apply op w of
       Yields _ w \<Rightarrow> lazy_run ops w
     | Raises w \<Rightarrow> lazy_run ops w
     | Misuse \<Rightarrow> None)"

section \<open>Ownership\<close>

text \<open>
  A constructor function that answers a new object or raises, and a destructor function that deletes its
  argument.
\<close>

definition allocates :: "'v lazy_ctor \<Rightarrow> bool" where
  "allocates c \<longleftrightarrow> (\<forall>s. c s = Raises s \<or> (\<exists>v. c s = (case st_new v s of (p, s) \<Rightarrow> Yields (Some p) s)))"

definition deletes :: "'v lazy_dtor \<Rightarrow> bool" where
  "deletes d \<longleftrightarrow> (\<forall>p s. d p s = st_delete p s)"

fun op_ok :: "'v lazy_op \<Rightarrow> bool" where
  "op_ok (Lz_make i c d) \<longleftrightarrow> (\<forall>c' \<in> set_option c. allocates c') \<and> (\<forall>d' \<in> set_option d. deletes d')"
| "op_ok _ \<longleftrightarrow> True"

definition lazy_ok :: "'v lazy \<Rightarrow> bool" where
  "lazy_ok l \<longleftrightarrow> (\<forall>c \<in> set_option (lz_ctor l). allocates c) \<and> (\<forall>d \<in> set_option (lz_dtor l). deletes d)"

definition lptr :: "(nat \<Rightarrow> 'v lazy option) \<Rightarrow> nat \<Rightarrow> nat option" where
  "lptr f i = (case f i of None \<Rightarrow> None | Some l \<Rightarrow> lz_ptr l)"

definition lazy_owns :: "'v lazies \<Rightarrow> bool" where
  "lazy_owns w \<longleftrightarrow>
     (\<forall>i l. lo_objs w i = Some l \<longrightarrow> lazy_ok l)
   \<and> (\<forall>p. um_find p (st_objs (lo_store w)) \<noteq> None \<longleftrightarrow> (\<exists>i. lptr (lo_objs w) i = Some p))
   \<and> (\<forall>i j p. lptr (lo_objs w) i = Some p \<longrightarrow> lptr (lo_objs w) j = Some p \<longrightarrow> i = j)
   \<and> (\<forall>p. um_find p (st_objs (lo_store w)) \<noteq> None \<longrightarrow> p < st_next (lo_store w))"


lemma lazy_ownsD:
  assumes "lazy_owns w"
  shows "lo_objs w i = Some l \<Longrightarrow> lazy_ok l"
    and "lptr (lo_objs w) i = Some p \<Longrightarrow> \<exists>v. um_find p (st_objs (lo_store w)) = Some v"
    and "um_find p (st_objs (lo_store w)) = Some v \<Longrightarrow> \<exists>i. lptr (lo_objs w) i = Some p"
    and "lptr (lo_objs w) i = Some p \<Longrightarrow> lptr (lo_objs w) j = Some p \<Longrightarrow> i = j"
    and "um_find p (st_objs (lo_store w)) = Some v \<Longrightarrow> p < st_next (lo_store w)"
  using assms unfolding lazy_owns_def by blast+

lemma lazy_ownsI:
  assumes "\<And>i l. lo_objs w i = Some l \<Longrightarrow> lazy_ok l"
    and "\<And>i p. lptr (lo_objs w) i = Some p \<Longrightarrow> um_find p (st_objs (lo_store w)) \<noteq> None"
    and "\<And>p. um_find p (st_objs (lo_store w)) \<noteq> None \<Longrightarrow> \<exists>i. lptr (lo_objs w) i = Some p"
    and "\<And>i j p. lptr (lo_objs w) i = Some p \<Longrightarrow> lptr (lo_objs w) j = Some p \<Longrightarrow> i = j"
    and "\<And>p. um_find p (st_objs (lo_store w)) \<noteq> None \<Longrightarrow> p < st_next (lo_store w)"
  shows "lazy_owns w"
  using assms unfolding lazy_owns_def by blast

lemma lptr_upd [simp]:
  "lptr (f(i := Some l)) = (lptr f)(i := lz_ptr l)" "lptr (f(i := None)) = (lptr f)(i := None)"
  by (auto simp: lptr_def fun_eq_iff)

text \<open>An object without a pointer is given one to a new object.\<close>

lemma lazy_owns_give:
  assumes own: "lazy_owns w" and i: "lptr (lo_objs w) i = None" and l: "lazy_ok l"
    and n: "st_new v (lo_store w) = (p, s)" and p: "lz_ptr l = Some p"
  shows "lazy_owns \<lparr>lo_store = s, lo_objs = (lo_objs w)(i := Some l)\<rparr>"
proof -
  note D = lazy_ownsD [OF own]
  have s: "p = st_next (lo_store w)" "st_next s = p + 1" "st_objs s = um_set p v (st_objs (lo_store w))"
    using n by (auto simp: st_new_def)
  have fresh: "um_find p (st_objs (lo_store w)) = None"
    using D(5) [of p] s(1) by (cases "um_find p (st_objs (lo_store w))") auto
  then have unused: "lptr (lo_objs w) j \<noteq> Some p" for j
    using D(2) [of j p] by auto
  show ?thesis
  proof (rule lazy_ownsI, simp_all add: p, goal_cases)
    case (1 j l') then show ?case using D(1) l by (auto split: if_splits)
  next
    case (2 j q) then show ?case using D(2) [of j q] by (auto simp: s um_find_set split: if_splits)
  next
    case (3 q)
    show ?case
    proof (cases "q = p")
      case False
      then obtain j where j: "lptr (lo_objs w) j = Some q"
        using 3 D(3) [of q] by (auto simp: s um_find_set)
      with i have "j \<noteq> i" by auto
      with j show ?thesis by blast
    qed auto
  next
    case (4 j k q) then show ?case using D(4) unused by (auto split: if_splits)
  next
    case (5 q) then show ?case using D(5) [of q] by (auto simp: s(2,3) s(1) [symmetric] um_find_set split: if_splits)
  qed
qed

text \<open>The object of a pointer that goes away is deleted.\<close>

lemma lazy_owns_delete:
  assumes own: "lazy_owns w" and i: "lptr (lo_objs w) i = Some p"
  shows "\<exists>s. st_delete p (lo_store w) = Yields () s \<and> lazy_owns \<lparr>lo_store = s, lo_objs = (lo_objs w)(i := None)\<rparr>"
proof -
  note D = lazy_ownsD [OF own]
  obtain v where v: "um_find p (st_objs (lo_store w)) = Some v"
    using D(2) [OF i] by blast
  let ?s = "(lo_store w)\<lparr>st_objs := um_erase p (st_objs (lo_store w))\<rparr>"
  have "lazy_owns \<lparr>lo_store = ?s, lo_objs = (lo_objs w)(i := None)\<rparr>"
  proof (rule lazy_ownsI, simp_all, goal_cases)
    case (1 j l') then show ?case using D(1) by (auto split: if_splits)
  next
    case (2 j q) then show ?case using D(2) [of j q] D(4) [OF i, of j] by (auto simp: um_find_erase split: if_splits)
  next
    case (3 q)
    then obtain u where q: "q \<noteq> p" "um_find q (st_objs (lo_store w)) = Some u"
      by (auto simp: um_find_erase split: if_splits)
    obtain j where j: "lptr (lo_objs w) j = Some q"
      using D(3) [OF q(2)] by blast
    with q(1) i have "j \<noteq> i" by auto
    with j show ?case by blast
  next
    case (4 j k q) then show ?case using D(4) by (auto split: if_splits)
  next
    case (5 q) then show ?case using D(5) [of q] by (auto simp: um_find_erase split: if_splits)
  qed
  then show ?thesis
    using v by (simp add: st_delete_def)
qed

text \<open>A pointer that stays where it is, or changes hands.\<close>

lemma lazy_owns_put:
  assumes own: "lazy_owns w" and l: "lazy_ok l" and p: "lz_ptr l = lptr (lo_objs w) i"
  shows "lazy_owns (w\<lparr>lo_objs := (lo_objs w)(i := Some l)\<rparr>)"
proof -
  have "(lptr (lo_objs w))(i := lz_ptr l) = lptr (lo_objs w)"
    by (simp add: p)
  then show ?thesis
    using own l unfolding lazy_owns_def by auto
qed

lemma lazy_owns_swap:
  assumes own: "lazy_owns w" and ij: "lo_objs w i = None" "lo_objs w j = Some rhs"
    and l: "lazy_ok l" "lz_ptr l = lz_ptr rhs" and r: "lazy_ok r" "lz_ptr r = None"
  shows "lazy_owns (w\<lparr>lo_objs := (lo_objs w)(i := Some l, j := Some r)\<rparr>)"
proof -
  note D = lazy_ownsD [OF own]
  have ne: "i \<noteq> j" and i: "lptr (lo_objs w) i = None" and j: "lptr (lo_objs w) j = lz_ptr rhs"
    using ij by (auto simp: lptr_def)
  show ?thesis
  proof (rule lazy_ownsI, simp_all add: l(2) r(2), goal_cases)
    case (1 k l') then show ?case using D(1) l(1) r(1) by (auto split: if_splits)
  next
    case (2 k q) then show ?case using D(2) [of k q] D(2) [of j q] j by (auto split: if_splits)
  next
    case (3 q)
    then obtain k where k: "lptr (lo_objs w) k = Some q"
      using D(3) [of q] by auto
    show ?case
    proof (cases "k = j")
      case True then show ?thesis using k j ne by (intro exI [of _ i]) simp
    next
      case False
      moreover have "k \<noteq> i" using k i by auto
      ultimately show ?thesis using k by (intro exI [of _ k]) simp
    qed
  next
    case (4 k k' q)
    have "lz_ptr rhs = Some q \<Longrightarrow> lptr (lo_objs w) k = Some q \<Longrightarrow> k = j" for k
      using D(4) [of k q j] j by simp
    then show ?case
      using 4 D(4) [of k q k'] by (auto simp del: fun_upd_apply simp: fun_upd_def split: if_splits)
  next
    case (5 q) then show ?case using D(5) [of q] by auto
  qed
qed

text \<open>Every operation keeps the ownership, also when it raises.\<close>

definition keeps_owned :: "(unit, 'v lazies) ending \<Rightarrow> bool" where
  "keeps_owned e \<longleftrightarrow> (case e of Yields _ w \<Rightarrow> lazy_owns w | Raises w \<Rightarrow> lazy_owns w | Misuse \<Rightarrow> False)"

lemma access_owned:
  assumes own: "lazy_owns w" and l: "lo_objs w i = Some l"
  shows "keeps_owned (lazy_apply (Lz_access i) w)"
proof -
  have ok: "lazy_ok l" and lp: "lptr (lo_objs w) i = lz_ptr l"
    using lazy_ownsD(1) [OF own l] l by (auto simp: lptr_def)
  show ?thesis
  proof (cases "lz_ptr l")
    case (Some p)
    then obtain v where "um_find p (st_objs (lo_store w)) = Some v"
      using lazy_ownsD(2) [OF own, of i p] lp by auto
    then have "lazy_apply (Lz_access i) w = Yields () \<lparr>lo_store = lo_store w, lo_objs = (lo_objs w)(i := Some l)\<rparr>"
      using l Some by (simp add: lazy_deref_def lazyPtr_def)
    moreover have "(lo_objs w)(i := Some l) = lo_objs w"
      using l by auto
    moreover have "\<lparr>lo_store = lo_store w, lo_objs = lo_objs w\<rparr> = w"
      by simp
    ultimately show ?thesis
      using own by (simp only: keeps_owned_def ending.case)
  next
    case None
    show ?thesis
    proof (cases "lz_ctor l")
      case None
      then show ?thesis
        using l \<open>lz_ptr l = None\<close> own by (simp add: lazy_deref_def lazyPtr_def keeps_owned_def)
    next
      case (Some c)
      then have "c (lo_store w) = Raises (lo_store w)
          \<or> (\<exists>v. c (lo_store w) = (case st_new v (lo_store w) of (p, s) \<Rightarrow> Yields (Some p) s))"
        using ok by (simp add: lazy_ok_def allocates_def)
      then show ?thesis
      proof
        assume "c (lo_store w) = Raises (lo_store w)"
        then show ?thesis
          using l None Some own by (simp add: lazy_deref_def lazyPtr_def keeps_owned_def)
      next
        assume "\<exists>v. c (lo_store w) = (case st_new v (lo_store w) of (p, s) \<Rightarrow> Yields (Some p) s)"
        then obtain v p s where n: "st_new v (lo_store w) = (p, s)" "c (lo_store w) = Yields (Some p) s"
          by (metis case_prod_conv surj_pair)
        have found: "um_find p (st_objs s) = Some v"
          using n(1) by (auto simp: st_new_def um_find_set)
        have "lazy_owns \<lparr>lo_store = s, lo_objs = (lo_objs w)(i := Some (l\<lparr>lz_ptr := Some p\<rparr>))\<rparr>"
          by (rule lazy_owns_give [OF own _ _ n(1)]) (use ok lp None in \<open>simp_all add: lazy_ok_def\<close>)
        then show ?thesis
          using l None Some n(2) found by (simp add: lazy_deref_def lazyPtr_def keeps_owned_def)
      qed
    qed
  qed
qed

lemma apply_owned:
  assumes own: "lazy_owns w" and ok: "op_ok op"
  shows "keeps_owned (lazy_apply op w)"
proof (cases op)
  case (Lz_make i c d)
  show ?thesis
  proof (cases "lo_objs w i")
    case None
    have "lazy_owns (w\<lparr>lo_objs := (lo_objs w)(i := Some (lazy_make c d))\<rparr>)"
      by (rule lazy_owns_put [OF own]) (use ok None Lz_make in \<open>simp_all add: lazy_ok_def lazy_make_def lptr_def\<close>)
    then show ?thesis using Lz_make None by (simp add: keeps_owned_def)
  qed (use Lz_make own in \<open>simp add: keeps_owned_def\<close>)
next
  case (Lz_adopt i v)
  show ?thesis
  proof (cases "lo_objs w i")
    case None
    obtain p s where n: "st_new v (lo_store w) = (p, s)" by fastforce
    have "lazy_owns \<lparr>lo_store = s, lo_objs = (lo_objs w)(i := Some (lazy_object (Some p)))\<rparr>"
      by (rule lazy_owns_give [OF own _ _ n]) (use None in \<open>simp_all add: lazy_ok_def lazy_object_def lptr_def\<close>)
    then show ?thesis using Lz_adopt None n by (simp add: keeps_owned_def)
  qed (use Lz_adopt own in \<open>simp add: keeps_owned_def\<close>)
next
  case (Lz_access i)
  then show ?thesis
    using access_owned [OF own] own by (cases "lo_objs w i") (simp_all add: keeps_owned_def)
next
  case (Lz_move i j)
  show ?thesis
  proof (cases "lo_objs w i = None \<and> lo_objs w j \<noteq> None")
    case True
    then obtain rhs where rhs: "lo_objs w j = Some rhs" by auto
    then have "lazy_ok rhs" by (rule lazy_ownsD(1) [OF own])
    then have "lazy_owns (w\<lparr>lo_objs := (lo_objs w)(i := Some (fst (lazy_move rhs)), j := Some (snd (lazy_move rhs)))\<rparr>)"
      by (intro lazy_owns_swap [OF own _ rhs]) (use True in \<open>simp_all add: lazy_ok_def lazy_move_def\<close>)
    then show ?thesis using Lz_move True rhs by (simp add: keeps_owned_def lazy_move_def)
  qed (use Lz_move own in \<open>auto simp: keeps_owned_def split: option.splits\<close>)
next
  case (Lz_destroy i)
  show ?thesis
  proof (cases "lo_objs w i")
    case None
    then show ?thesis using Lz_destroy own by (simp add: keeps_owned_def)
  next
    case (Some l)
    then have l: "lazy_ok l" "lptr (lo_objs w) i = lz_ptr l"
      using lazy_ownsD(1) [OF own] by (auto simp: lptr_def)
    show ?thesis
    proof (cases "lz_ptr l")
      case None
      have "(lptr (lo_objs w))(i := None) = lptr (lo_objs w)"
        using l None by auto
      then have "lazy_owns \<lparr>lo_store = lo_store w, lo_objs = (lo_objs w)(i := None)\<rparr>"
        using own unfolding lazy_owns_def by simp
      then show ?thesis using Lz_destroy Some None by (simp add: lazy_destroy_def keeps_owned_def)
    next
      case p: (Some p)
      then obtain s where "st_delete p (lo_store w) = Yields () s"
          "lazy_owns \<lparr>lo_store = s, lo_objs = (lo_objs w)(i := None)\<rparr>"
        using lazy_owns_delete [OF own, of i p] l by auto
      then show ?thesis
        using Lz_destroy Some p l(1)
        by (auto simp: lazy_destroy_def keeps_owned_def lazy_ok_def deletes_def split: option.splits)
    qed
  qed
qed

lemma run_owned:
  "lazy_owns w \<Longrightarrow> \<forall>op \<in> set ops. op_ok op \<Longrightarrow> \<exists>w'. lazy_run ops w = Some w' \<and> lazy_owns w'"
proof (induction ops arbitrary: w)
  case (Cons op ops)
  have "keeps_owned (lazy_apply op w)"
    using Cons.prems by (intro apply_owned) simp_all
  then show ?case
    using Cons.IH Cons.prems(2) by (cases "lazy_apply op w") (simp_all add: keeps_owned_def)
qed simp

lemma gets_const: "lz_ptr l = Some p \<Longrightarrow> lazy_gets n l s = Yields (replicate n (Some p), l) s"
  by (induction n) (simp_all add: lazy_get_def lazyPtr_def)

section \<open>Properties\<close>

definition no_objects :: "'v lazies" where
  "no_objects = \<lparr>lo_store = \<lparr>st_next = 0, st_objs = []\<rparr>, lo_objs = (\<lambda>_. None)\<rparr>"

text \<open>C16. In a program that constructs, adopts, accesses, moves and destroys lazy objects whose
  constructor functions allocate or raise and whose destructor functions delete, no operation reads or
  deletes an object that is not there, whatever order they come in and however many raise: at every end the
  objects in the store are those the lazy objects point to, each held by exactly one of them.\<close>

theorem lazy_ownership:
  assumes "\<forall>op \<in> set ops. op_ok op"
  shows "\<exists>w. lazy_run ops no_objects = Some w \<and> lazy_owns w"
proof (rule run_owned [OF _ assms])
  show "lazy_owns no_objects"
    by (simp add: lazy_owns_def no_objects_def lptr_def um_find_def)
qed

definition make_7 :: "nat lazy_ctor" where
  "make_7 s = (case st_new 7 s of (p, s) \<Rightarrow> Yields (Some p) s)"

theorem lazy_ownership_witness:
  "\<exists>w. lazy_run [Lz_make 0 (Some make_7) None, Lz_adopt 1 5, Lz_access 0, Lz_move 2 0, Lz_access 0,
      Lz_make 3 (Some Raises) (Some st_delete), Lz_access 3, Lz_destroy 2, Lz_destroy 1] no_objects = Some w
    \<and> lazy_owns w"
  by (rule lazy_ownership) (auto simp: allocates_def deletes_def make_7_def)

text \<open>A lazy object calls its constructor function once: the first access leaves the store as that
  call does, every later one answers the same pointer and leaves the store alone.\<close>

theorem lazy_constructs_once:
  assumes "c s = Yields (Some p) s'"
  shows "lazy_gets (Suc n) (lazy_make (Some c) d) s
     = Yields (replicate (Suc n) (Some p), \<lparr>lz_ctor = Some c, lz_dtor = d, lz_ptr = Some p\<rparr>) s'"
  using assms by (simp add: lazy_make_def lazy_get_def lazyPtr_def gets_const)

theorem lazy_constructs_once_witness:
  "lazy_gets (Suc 2) (lazy_make (Some make_7) None) \<lparr>st_next = 3, st_objs = []\<rparr>
     = Yields (replicate (Suc 2) (Some 3), \<lparr>lz_ctor = Some make_7, lz_dtor = None, lz_ptr = Some 3\<rparr>)
         \<lparr>st_next = 4, st_objs = [(3, 7)]\<rparr>"
  by (rule lazy_constructs_once) (simp add: make_7_def st_new_def)

text \<open>Assigning to a lazy object that has been accessed is unsafe. After a copy the object still
  points to what the assignment has deleted: it counts as initialized, and reading, destroying or assigning
  it again is undefined behaviour. When its destructor function deletes, either assignment deletes twice.\<close>

theorem lazy_assign_unsafe:
  assumes "lz_ptr l = Some p" and "um_find p (st_objs s) \<noteq> None"
  shows "if lz_dtor l = None
     then \<exists>l' s'. lazy_copy_assign l rhs s = Yields l' s' \<and> initialized l' \<and> lazy_deref l' s' = Misuse
       \<and> (lz_dtor rhs = None \<longrightarrow> lazy_destroy l' s' = Misuse \<and> lazy_copy_assign l' r s' = Misuse)
     else lz_dtor l = Some st_delete \<longrightarrow> lazy_copy_assign l rhs s = Misuse \<and> lazy_move_assign l rhs s = Misuse"
  using assms
  by (auto simp: lazy_copy_assign_def lazy_move_assign_def lazy_drop_def st_delete_def initialized_def lazy_deref_def
      lazyPtr_def lazy_destroy_def um_find_erase)

theorem lazy_assign_unsafe_witness:
  "\<exists>l' s'. lazy_copy_assign (lazy_object (Some 3)) (lazy_make (Some make_7) None) \<lparr>st_next = 4, st_objs = [(3, 5)]\<rparr>
        = Yields l' s' \<and> initialized l' \<and> lazy_deref l' s' = Misuse"
  using lazy_assign_unsafe [of "lazy_object (Some 3)" 3 "\<lparr>st_next = 4, st_objs = [(3, 5)]\<rparr>"
      "lazy_make (Some make_7) None" "lazy_make None None"]
  by (auto simp: lazy_object_def um_find_def)

end
