(* ===== verification/Address.thy ===== *)
theory Address
  imports Message
begin

text \<open>
  Internet addresses and the life of a socket object (\<^verbatim>\<open>include/dtest_core/socket.h\<close> and
  \<^verbatim>\<open>src/socket.cpp\<close>): ports and addresses as stored in network byte order on a little-endian host,
  their text, the constructors with the system calls that can fail, moving and closing. The answers of the
  kernel and of name lookup are arguments; \<open>strerr\<close> is the text of \<^verbatim>\<open>strerror(errno)\<close>.
\<close>

section \<open>Addresses\<close>

record sockaddr =
  sa_family :: u16
  sin_port :: u16
  sin_addr :: u32
  sin_zero :: u64

definition AF_INET :: u16 where
  "AF_INET = 2"

definition htons :: "u16 \<Rightarrow> u16" where
  "htons w = or (push_bit 8 w) (drop_bit 8 w)"

definition ntohs :: "u16 \<Rightarrow> u16" where
  "ntohs w = or (push_bit 8 w) (drop_bit 8 w)"

definition get_port :: "sockaddr \<Rightarrow> u16" where
  "get_port a = ntohs (sin_port a)"

definition set_port :: "sockaddr \<Rightarrow> u16 \<Rightarrow> sockaddr" where
  "set_port a port = a\<lparr>sin_port := htons port\<rparr>"

definition sockaddr_hash :: "sockaddr \<Rightarrow> u64" where
  "sockaddr_hash a = or (push_bit 32 (ucast (sin_port a))) (ucast (sin_addr a))"

definition sockaddr_equal :: "sockaddr \<Rightarrow> sockaddr \<Rightarrow> bool" where
  "sockaddr_equal a b \<longleftrightarrow> sin_addr a = sin_addr b \<and> sin_port a = sin_port b"

text \<open>The object in memory, as it is copied into a message.\<close>

definition sockaddr_bytes :: "sockaddr \<Rightarrow> u8 list" where
  "sockaddr_bytes a = word_bytes (sa_family a) @ word_bytes (sin_port a) @ word_bytes (sin_addr a) @ word_bytes (sin_zero a)"

definition bytes_sockaddr :: "u8 list \<Rightarrow> sockaddr" where
  "bytes_sockaddr bs =
    \<lparr>sa_family = bytes_word (take 2 bs), sin_port = bytes_word (take 2 (drop 2 bs)),
     sin_addr = bytes_word (take 4 (drop 4 bs)), sin_zero = bytes_word (take 8 (drop 8 bs))\<rparr>"

text \<open>What an operation on addresses ends in.\<close>

datatype 'a addr_result = Gives 'a | Addr_throws string | Addr_exits | Addr_undefined

section \<open>Addresses as text\<close>

abbreviation SQ :: char where "SQ \<equiv> CHR 0x27"

text \<open>The four bytes of an address, in the order they have in memory.\<close>

definition octets :: "u32 \<Rightarrow> nat list" where
  "octets a = map unat (word_bytes a)"

fun dotted :: "nat list \<Rightarrow> string" where
  "dotted [] = []"
| "dotted [n] = show_nat n"
| "dotted (n # ns) = show_nat n @ ''.'' @ dotted ns"

definition INET_ADDRSTRLEN :: nat where
  "INET_ADDRSTRLEN = 16"

text \<open>\<^verbatim>\<open>inet_ntop\<close> of the C library for IPv4 fails when the text and its NUL do not fit.\<close>

definition inet_ntop :: "u32 \<Rightarrow> nat \<Rightarrow> string option" where
  "inet_ntop a sz = (if length (dotted (octets a)) < sz then Some (dotted (octets a)) else None)"

definition ipv4_to_str :: "sockaddr \<Rightarrow> string addr_result" where
  "ipv4_to_str a =
    (case inet_ntop (sin_addr a) (length (sockaddr_bytes a)) of
       None \<Rightarrow> Addr_undefined
     | Some s \<Rightarrow> Gives (s @ '':'' @ show_nat (unat (ntohs (sin_port a)))))"

text \<open>
  \<^verbatim>\<open>str_to_ipv4\<close> of an address and a port: \<open>pton\<close> is \<^verbatim>\<open>inet_pton\<close>, its result and the address it stores
  when that is 1; \<open>junk\<close> is the uninitialised local variable.
\<close>

definition str_to_ipv4_ip :: "(string \<Rightarrow> int \<times> u32) \<Rightarrow> string \<Rightarrow> sockaddr \<Rightarrow> string \<Rightarrow> u16 \<Rightarrow> sockaddr addr_result" where
  "str_to_ipv4_ip pton strerr junk ip port =
    (let a = junk\<lparr>sa_family := AF_INET, sin_port := htons port\<rparr>;
         (r, ip_addr) = pton (c_str ip)
     in if r = - 1 then Addr_throws (''Error parsing IP address '' @ SQ # ip @ SQ # ''. '' @ strerr)
        else Gives (if r = 1 then a\<lparr>sin_addr := ip_addr\<rparr> else a))"

text \<open>
  \<^verbatim>\<open>str_to_ipv4\<close> of a host and a port: \<open>gai\<close> is \<^verbatim>\<open>getaddrinfo\<close> for IPv4, \<open>None\<close> when it fails, otherwise
  the addresses of its result list.
\<close>

definition str_to_ipv4_host :: "(string \<Rightarrow> string \<Rightarrow> sockaddr list option) \<Rightarrow> string \<Rightarrow> string \<Rightarrow> sockaddr addr_result" where
  "str_to_ipv4_host gai host port =
    (case gai (c_str host) (c_str port) of
       None \<Rightarrow> Addr_exits
     | Some (a # _) \<Rightarrow> Gives a
     | Some [] \<Rightarrow> Addr_throws (''Failed to resolve host '' @ SQ # host @ '':'' @ port @ SQ # ''.''))"

text \<open>
  \<^verbatim>\<open>str_to_ipv4\<close> of a text: \<^verbatim>\<open>strncpy\<close> fills the array and leaves it without a NUL when the text is as long as
  the array; the searches that follow then run past its end.
\<close>

definition str_to_ipv4 :: "(string \<Rightarrow> string \<Rightarrow> sockaddr list option) \<Rightarrow> string \<Rightarrow> sockaddr addr_result" where
  "str_to_ipv4 gai str =
    (let host = c_str str in
     if length host \<ge> INET_ADDRSTRLEN + 6 then Addr_undefined
     else (case dropWhile (\<lambda>c. c \<noteq> CHR '':'') host of
             [] \<Rightarrow> Addr_throws (''Error parsing address '' @ SQ # host @ SQ # ''. '')
           | _ # port \<Rightarrow> str_to_ipv4_host gai (takeWhile (\<lambda>c. c \<noteq> CHR '':'') host) port))"

text \<open>\<^verbatim>\<open>self_address_ipv4\<close>: the interfaces as the kernel lists them; an interface may have no address.\<close>

record iface =
  if_loopback :: bool
  if_addr :: "sockaddr option"

fun find_self :: "iface list \<Rightarrow> sockaddr option addr_result" where
  "find_self [] = Gives None"
| "find_self (i # is) =
    (if if_loopback i then find_self is
     else (case if_addr i of
             None \<Rightarrow> Addr_undefined
           | Some a \<Rightarrow> if sa_family a = AF_INET then Gives (Some a) else find_self is))"

definition self_address_ipv4 :: "string \<Rightarrow> iface list option \<Rightarrow> u16 \<Rightarrow> sockaddr addr_result" where
  "self_address_ipv4 strerr ifs port =
    (case ifs of
       None \<Rightarrow> Addr_throws (''Unable to get network interface info. '' @ strerr)
     | Some ifs \<Rightarrow>
         (case find_self ifs of
            Gives (Some self) \<Rightarrow> Gives (self\<lparr>sin_port := htons port\<rparr>)
          | Gives None \<Rightarrow> Addr_throws ''Failed to find own interface''
          | _ \<Rightarrow> Addr_undefined))"

section \<open>Socket objects\<close>

text \<open>The object with its address; the descriptors closed are logged in its listener part.\<close>

record sock =
  so_listener :: listener
  so_addr :: sockaddr

definition sock_of :: "int \<Rightarrow> sockaddr \<Rightarrow> sock" where
  "sock_of fd a = \<lparr>so_listener = \<lparr>s_fd = fd, s_open = [], s_closed = []\<rparr>, so_addr = a\<rparr>"

text \<open>The private constructor from a descriptor, and the default constructor that calls it with \<open>- 1\<close>.\<close>

definition sock_from_fd :: "string \<Rightarrow> sockaddr \<Rightarrow> sockaddr option \<Rightarrow> int \<Rightarrow> sock addr_result" where
  "sock_from_fd strerr junk name fd =
    (if fd = - 1 then Gives (sock_of fd junk)
     else (case name of
             None \<Rightarrow> Addr_throws (''Error getting socket address. '' @ strerr)
           | Some a \<Rightarrow> Gives (sock_of fd a)))"

definition sock_default :: "sockaddr \<Rightarrow> sock addr_result" where
  "sock_default junk = sock_from_fd [] junk None (- 1)"

text \<open>Connecting: the answers of \<^verbatim>\<open>socket\<close> and \<^verbatim>\<open>connect\<close>; the second component is the descriptors closed.\<close>

definition sock_connect :: "string \<Rightarrow> int \<Rightarrow> bool \<Rightarrow> sockaddr \<Rightarrow> sock addr_result \<times> int list" where
  "sock_connect strerr fd connected a =
    (if fd = - 1 then (Addr_throws (''Failed to create socket. '' @ strerr), [])
     else if \<not> connected then (Addr_throws (''Failed to connect. '' @ strerr), [fd])
     else (Gives (sock_of fd a), []))"

text \<open>The options given to \<^verbatim>\<open>setsockopt\<close>, which takes the number of one option (Linux numbers).\<close>

definition SO_REUSEADDR :: u32 where "SO_REUSEADDR = 2"
definition SO_REUSEPORT :: u32 where "SO_REUSEPORT = 15"

definition reuse_option :: u32 where
  "reuse_option = or SO_REUSEADDR SO_REUSEPORT"

text \<open>Listening: what each system call answers, in order; \<open>sys_setsockopt\<close> is given the option.\<close>

record server_sys =
  sys_socket :: int
  sys_setsockopt :: "u32 \<Rightarrow> bool"
  sys_bind :: "u16 \<Rightarrow> bool"
  sys_listen :: "int \<Rightarrow> bool"
  sys_getsockname :: "sockaddr option"
  sys_ifaddrs :: "iface list option"

definition sock_server :: "string \<Rightarrow> server_sys \<Rightarrow> u16 \<Rightarrow> int \<Rightarrow> sock addr_result \<times> int list" where
  "sock_server strerr sys port backlog =
    (let fd = sys_socket sys in
     if fd = - 1 then (Addr_throws (''Failed to create socket. '' @ strerr), [])
     else if \<not> sys_setsockopt sys reuse_option then (Addr_throws (''Failed to set socket options. '' @ strerr), [fd])
     else if \<not> sys_bind sys (htons port) then
       (Addr_throws (''Failed to bind socket to port '' @ show_nat (unat port) @ ''. '' @ strerr), [fd])
     else if \<not> sys_listen sys backlog then
       (Addr_throws (''Error attempting to listen to port '' @ show_nat (unat port) @ ''. '' @ strerr), [])
     else (case sys_getsockname sys of
             None \<Rightarrow> (Addr_throws (''Error getting socket address. '' @ strerr), [])
           | Some a \<Rightarrow>
               (case self_address_ipv4 strerr (sys_ifaddrs sys) (get_port a) of
                  Gives self \<Rightarrow> (Gives (sock_of fd self), [])
                | Addr_throws e \<Rightarrow> (Addr_throws e, [])
                | Addr_exits \<Rightarrow> (Addr_exits, [])
                | Addr_undefined \<Rightarrow> (Addr_undefined, []))))"

text \<open>Moving: the new object and what is left of the source. The destructor closes.\<close>

definition moved_from :: "sock \<Rightarrow> sock" where
  "moved_from rhs = rhs\<lparr>so_listener := (so_listener rhs)\<lparr>s_fd := - 1, s_open := []\<rparr>\<rparr>"

definition sock_move :: "sock \<Rightarrow> sock \<times> sock" where
  "sock_move rhs =
    (\<lparr>so_listener = (so_listener rhs)\<lparr>s_closed := []\<rparr>, so_addr = so_addr rhs\<rparr>, moved_from rhs)"

definition sock_move_assign :: "sock \<Rightarrow> sock \<Rightarrow> sock \<times> sock" where
  "sock_move_assign l rhs =
    (\<lparr>so_listener = (sock_close (so_listener l))\<lparr>s_fd := s_fd (so_listener rhs), s_open := s_open (so_listener rhs)\<rparr>,
      so_addr = so_addr rhs\<rparr>, moved_from rhs)"

definition sock_invalidate :: "sock \<Rightarrow> sock" where
  "sock_invalidate s = s\<lparr>so_listener := (so_listener s)\<lparr>s_fd := - 1\<rparr>\<rparr>"

definition sock_eq :: "sock \<Rightarrow> sock \<Rightarrow> bool" where
  "sock_eq a b \<longleftrightarrow> s_fd (so_listener a) = s_fd (so_listener b)"

text \<open>\<^verbatim>\<open>accept\<close>: an object for whatever the system call answered, also for \<open>- 1\<close>.\<close>

definition sock_accept :: "int \<Rightarrow> sockaddr \<Rightarrow> sock" where
  "sock_accept incoming a = sock_of incoming a"

text \<open>\<^verbatim>\<open>pollOrAccept\<close> polls until it has a connection; one element of the list per call of \<^verbatim>\<open>poll\<close>.\<close>

datatype poll_end = Poll_gives int listener "(int \<times> (int \<Rightarrow> revents)) list" | Poll_waits listener | Poll_undefined

fun pollOrAccept :: "(int \<times> (int \<Rightarrow> revents)) list \<Rightarrow> listener \<Rightarrow> poll_end" where
  "pollOrAccept [] s = Poll_waits s"
| "pollOrAccept ((acc, ev) # polls) s =
    (case pollOrAcceptOrTimeout acc ev s of
       None \<Rightarrow> Poll_undefined
     | Some (Some fd, s) \<Rightarrow> Poll_gives fd s polls
     | Some (None, s) \<Rightarrow> pollOrAccept polls s)"


section \<open>Facts on ports and bytes\<close>

lemma ntohs_htons [simp]: "ntohs (htons w) = w"
  by (rule bit_eqI) (auto simp: htons_def ntohs_def bit_simps dest: bit_imp_le_length)

lemma htons_ntohs [simp]: "htons (ntohs w) = w"
  by (rule bit_eqI) (auto simp: htons_def ntohs_def bit_simps dest: bit_imp_le_length)

lemma htons_eq_iff: "htons p = q \<longleftrightarrow> p = ntohs q"
  using ntohs_htons [of p] htons_ntohs [of q] by auto

lemma port_set_get: "get_port (set_port a p) = p"
  by (simp add: get_port_def set_port_def)

lemma hash_parts:
  fixes p :: u16 and a :: u32
  shows "ucast (drop_bit 32 (or (push_bit 32 (ucast p)) (ucast a :: u64))) = p"
    and "ucast (or (push_bit 32 (ucast p)) (ucast a :: u64)) = a"
  by (rule bit_eqI; auto simp: bit_simps dest: bit_imp_le_length)+

lemma length_sockaddr_bytes [simp]: "length (sockaddr_bytes a) = 16"
  by (simp add: sockaddr_bytes_def size_of_def)

lemma sockaddr_of_bytes: "bytes_sockaddr (sockaddr_bytes a) = a"
  by (cases a) (simp add: bytes_sockaddr_def sockaddr_bytes_def size_of_def bytes_word_bytes)

section \<open>Facts on numbers as text\<close>

definition is_digit :: "char \<Rightarrow> bool" where
  "is_digit c \<longleftrightarrow> 48 \<le> (of_char c :: nat) \<and> (of_char c :: nat) \<le> 57"

definition digit_value :: "char \<Rightarrow> nat" where
  "digit_value c = of_char c - 48"

definition read_nat :: "string \<Rightarrow> nat" where
  "read_nat s = foldl (\<lambda>n c. 10 * n + digit_value c) 0 s"

lemma digit_char: "n < 10 \<Longrightarrow> is_digit (char_of (48 + n))" "n < 10 \<Longrightarrow> digit_value (char_of (48 + n)) = n"
  by (simp_all add: is_digit_def digit_value_def)

lemma show_nat_step: "10 \<le> n \<Longrightarrow> show_nat n = show_nat (n div 10) @ [char_of (48 + n mod 10)]"
  by (subst show_nat.simps) simp

lemma show_nat_digits: "c \<in> set (show_nat n) \<Longrightarrow> is_digit c"
proof (induction n rule: show_nat.induct)
  case (1 n)
  show ?case
  proof (cases "n < 10")
    case True
    then show ?thesis using 1(2) digit_char(1) [of n] by (subst (asm) show_nat.simps) simp
  next
    case False
    then show ?thesis
      using 1 digit_char(1) [of "n mod 10"] by (auto simp: show_nat_step)
  qed
qed

lemma read_show: "read_nat (show_nat n) = n"
proof (induction n rule: show_nat.induct)
  case (1 n)
  show ?case
  proof (cases "n < 10")
    case True
    then show ?thesis using digit_char(2) [of n] by (subst show_nat.simps) (simp add: read_nat_def)
  next
    case False
    then have "read_nat (show_nat n) = 10 * read_nat (show_nat (n div 10)) + digit_value (char_of (48 + n mod 10))"
      by (simp add: show_nat_step read_nat_def)
    then show ?thesis
      using 1 False digit_char(2) [of "n mod 10"] by simp
  qed
qed

lemma length_show_nat: "0 < k \<Longrightarrow> n < 10 ^ k \<Longrightarrow> length (show_nat n) \<le> k"
proof (induction k arbitrary: n)
  case (Suc k)
  show ?case
  proof (cases "n < 10")
    case True
    then show ?thesis by (subst show_nat.simps) simp
  next
    case False
    then have "0 < k" using Suc.prems(2) by (cases k) simp_all
    moreover have "n div 10 < 10 ^ k" using Suc.prems(2) by (simp add: less_mult_imp_div_less mult.commute)
    ultimately show ?thesis using Suc.IH [of "n div 10"] False by (simp add: show_nat_step)
  qed
qed simp

lemma digit_not: "is_digit c \<Longrightarrow> c \<noteq> CHR ''.''" "is_digit c \<Longrightarrow> c \<noteq> CHR '':''" "is_digit c \<Longrightarrow> c \<noteq> NUL"
  by (auto simp: is_digit_def of_char_def)

lemma octets_bytes: "map of_nat (octets a) = word_bytes a"
  by (simp add: octets_def comp_def)

lemma octets_four: "\<exists>n0 n1 n2 n3. octets a = [n0, n1, n2, n3] \<and> n0 < 256 \<and> n1 < 256 \<and> n2 < 256 \<and> n3 < 256"
proof -
  have len: "length (octets a) = 4"
    by (simp add: octets_def size_of_def)
  have "\<forall>n \<in> set (octets a). n < 256"
    using unsigned_less [where 'b = 8 and 'a = nat] by (auto simp: octets_def)
  with len show ?thesis
    by (auto simp: numeral_eq_Suc length_Suc_conv)
qed

lemma dotted_chars: "c \<in> set (dotted ns) \<Longrightarrow> is_digit c \<or> c = CHR ''.''"
  by (induction ns rule: dotted.induct) (auto dest: show_nat_digits)

lemma length_octet: "n < 256 \<Longrightarrow> length (show_nat n) \<le> 3"
  by (rule length_show_nat) simp_all

lemma length_dotted: "length (dotted (octets a)) \<le> 15"
proof -
  obtain n0 n1 n2 n3 where "octets a = [n0, n1, n2, n3]" "n0 < 256" "n1 < 256" "n2 < 256" "n3 < 256"
    using octets_four by blast
  then show ?thesis
    using length_octet [of n0] length_octet [of n1] length_octet [of n2] length_octet [of n3] by simp
qed

definition addr_text :: "sockaddr \<Rightarrow> string" where
  "addr_text a = dotted (octets (sin_addr a)) @ '':'' @ show_nat (unat (get_port a))"

lemma ipv4_to_str_text: "ipv4_to_str a = Gives (addr_text a)"
  using length_dotted [of "sin_addr a"] by (simp add: ipv4_to_str_def inet_ntop_def addr_text_def get_port_def)

lemma length_addr_text: "length (addr_text a) \<le> 21"
proof -
  have "unat (get_port a) < 10 ^ 5"
    using unsigned_less [of "get_port a", where 'a = nat] by simp
  then have "length (show_nat (unat (get_port a))) \<le> 5"
    by (intro length_show_nat) simp_all
  then show ?thesis
    using length_dotted [of "sin_addr a"] by (simp add: addr_text_def)
qed

lemma c_str_no_nul: "NUL \<notin> set s \<Longrightarrow> c_str s = s"
  by (simp add: c_str_def takeWhile_eq_all_conv) blast

lemma parse_text:
  "str_to_ipv4 gai (addr_text a) = str_to_ipv4_host gai (dotted (octets (sin_addr a))) (show_nat (unat (get_port a)))"
proof -
  let ?d = "dotted (octets (sin_addr a))" and ?p = "show_nat (unat (get_port a))"
  have d: "CHR '':'' \<notin> set ?d" "NUL \<notin> set ?d"
    using dotted_chars [of _ "octets (sin_addr a)"] digit_not(2,3) by fastforce+
  have "NUL \<notin> set ?p"
    using show_nat_digits [of NUL] digit_not(3) by blast
  with d have "c_str (addr_text a) = addr_text a"
    by (intro c_str_no_nul) (simp add: addr_text_def)
  moreover have "\<And>c. c \<in> set ?d \<Longrightarrow> c \<noteq> CHR '':''"
    using d(1) by blast
  then have "takeWhile (\<lambda>c. c \<noteq> CHR '':'') (addr_text a) = ?d" "dropWhile (\<lambda>c. c \<noteq> CHR '':'') (addr_text a) = CHR '':'' # ?p"
    by (simp_all add: addr_text_def takeWhile_append2 dropWhile_append2)
  ultimately show ?thesis
    using length_addr_text [of a] by (simp add: str_to_ipv4_def INET_ADDRSTRLEN_def)
qed


section \<open>Facts on socket objects\<close>

text \<open>The descriptors an object is responsible for.\<close>

definition owned_fds :: "listener \<Rightarrow> int list" where
  "owned_fds s = filter (\<lambda>fd. fd \<noteq> - 1) (s_fd s # map snd (s_open s))"

lemma close_fds: "fold (\<lambda>conn. close_fd (snd conn)) conns closed = closed @ filter (\<lambda>fd. fd \<noteq> - 1) (map snd conns)"
  by (induction conns arbitrary: closed) (simp_all add: close_fd_def)

lemma sock_close_fds:
  "s_closed (sock_close s) = s_closed s @ owned_fds s" "s_fd (sock_close s) = - 1" "s_open (sock_close s) = []"
  by (simp_all add: sock_close_def close_fds close_fd_def owned_fds_def)

text \<open>Text and back, for a lookup that knows dotted quads and decimal ports.\<close>

lemma address_text_reads:
  assumes "\<forall>b. \<exists>x xs. gai (dotted (octets (sin_addr b))) (show_nat (unat (get_port b))) = Some (x # xs)
      \<and> octets (sin_addr x) = octets (sin_addr b) \<and> get_port x = get_port b"
  shows "\<exists>t x. ipv4_to_str a = Gives t \<and> length t < INET_ADDRSTRLEN + 6 \<and> str_to_ipv4 gai t = Gives x
      \<and> sockaddr_equal x a"
proof -
  obtain x xs where x: "gai (dotted (octets (sin_addr a))) (show_nat (unat (get_port a))) = Some (x # xs)"
      "octets (sin_addr x) = octets (sin_addr a)" "get_port x = get_port a"
    using assms by blast
  have "(bytes_word (word_bytes (sin_addr x)) :: u32) = bytes_word (word_bytes (sin_addr a))"
    by (simp only: octets_bytes [symmetric] x(2))
  then have "sin_addr x = sin_addr a"
    by (simp add: bytes_word_bytes)
  moreover have "sin_port x = sin_port a"
    using arg_cong [OF x(3), of htons] by (simp add: get_port_def)
  moreover have "NUL \<notin> set (dotted (octets (sin_addr a)))" "NUL \<notin> set (show_nat (unat (get_port a)))"
    using dotted_chars [of NUL] show_nat_digits [of NUL] digit_not(3) by fastforce+
  then have "str_to_ipv4 gai (addr_text a) = Gives x"
    unfolding parse_text by (simp add: str_to_ipv4_host_def c_str_no_nul x(1))
  moreover have "length (addr_text a) < INET_ADDRSTRLEN + 6"
    using length_addr_text [of a] by (simp add: INET_ADDRSTRLEN_def)
  ultimately show ?thesis
    by (intro exI conjI) (rule ipv4_to_str_text, assumption, assumption, simp add: sockaddr_equal_def)
qed

section \<open>Properties\<close>

text \<open>A port or an address keeps its value through the network byte order, and through a message.\<close>

theorem port_roundtrip:
  "get_port (set_port a p) = p \<and> set_port a (get_port a) = a \<and> bytes_sockaddr (sockaddr_bytes a) = a"
  by (simp add: get_port_def set_port_def sockaddr_of_bytes)

text \<open>The hash of addresses has no collisions: it is the same exactly for addresses the comparison
  calls equal.\<close>

theorem hash_exact: "sockaddr_hash a = sockaddr_hash b \<longleftrightarrow> sockaddr_equal a b"
proof
  assume "sockaddr_hash a = sockaddr_hash b"
  then show "sockaddr_equal a b"
    unfolding sockaddr_hash_def sockaddr_equal_def by (metis hash_parts)
qed (simp add: sockaddr_hash_def sockaddr_equal_def)

text \<open>C37. The text \<^verbatim>\<open>ipv4_to_str\<close> gives for any address fits the array \<^verbatim>\<open>str_to_ipv4\<close> copies it to, and is
  read back as an equal address, when name lookup answers a dotted quad and a decimal port with the address
  and port they stand for.\<close>

theorem address_text_roundtrip:
  assumes "\<forall>b. \<exists>x xs. gai (dotted (octets (sin_addr b))) (show_nat (unat (get_port b))) = Some (x # xs)
      \<and> octets (sin_addr x) = octets (sin_addr b) \<and> get_port x = get_port b"
  shows "\<exists>t x. ipv4_to_str a = Gives t \<and> length t < INET_ADDRSTRLEN + 6 \<and> str_to_ipv4 gai t = Gives x
      \<and> sockaddr_equal x a"
  by (rule address_text_reads [OF assms])

text \<open>A lookup of numeric hosts and ports, as the C library does it without a name server.\<close>

fun split_dots :: "string \<Rightarrow> string list" where
  "split_dots [] = [[]]"
| "split_dots (c # cs) =
    (if c = CHR ''.'' then [] # split_dots cs
     else (case split_dots cs of [] \<Rightarrow> [[c]] | s # ss \<Rightarrow> (c # s) # ss))"

definition numeric_lookup :: "string \<Rightarrow> string \<Rightarrow> sockaddr list option" where
  "numeric_lookup host port =
    Some [\<lparr>sa_family = AF_INET, sin_port = htons (of_nat (read_nat port)),
           sin_addr = bytes_word (map (\<lambda>s. of_nat (read_nat s)) (split_dots host)), sin_zero = 0\<rparr>]"

lemma split_dots_app: "CHR ''.'' \<notin> set s \<Longrightarrow> split_dots (s @ CHR ''.'' # t) = s # split_dots t"
  by (induction s) auto

lemma split_dots_last: "CHR ''.'' \<notin> set s \<Longrightarrow> split_dots s = [s]"
  by (induction s) auto

lemma split_dotted: "ns \<noteq> [] \<Longrightarrow> split_dots (dotted ns) = map show_nat ns"
proof (induction ns rule: dotted.induct)
  case (2 n)
  then show ?case using show_nat_digits [of _ n] digit_not(1) by (auto intro!: split_dots_last)
next
  case (3 n m ns)
  have "CHR ''.'' \<notin> set (show_nat n)"
    using show_nat_digits [of "CHR ''.''" n] digit_not(1) by blast
  with 3 show ?case by (simp add: split_dots_app)
qed simp

lemma numeric_lookup_numeric:
  "numeric_lookup (dotted (octets (sin_addr b))) (show_nat (unat (get_port b)))
    = Some [\<lparr>sa_family = AF_INET, sin_port = sin_port b, sin_addr = sin_addr b, sin_zero = 0\<rparr>]"
proof -
  have "octets (sin_addr b) \<noteq> []"
    using octets_four [of "sin_addr b"] by auto
  then have "map (\<lambda>s. of_nat (read_nat s)) (split_dots (dotted (octets (sin_addr b)))) = word_bytes (sin_addr b)"
    by (simp add: split_dotted comp_def read_show octets_bytes [symmetric])
  then show ?thesis
    by (simp add: numeric_lookup_def read_show bytes_word_bytes get_port_def)
qed

definition sample_addr :: sockaddr where
  "sample_addr = \<lparr>sa_family = AF_INET, sin_port = 0x901F, sin_addr = 0x0100A8C0, sin_zero = 0\<rparr>"

theorem address_text_roundtrip_witness:
  "\<exists>t x. ipv4_to_str sample_addr = Gives t \<and> length t < INET_ADDRSTRLEN + 6 \<and> str_to_ipv4 numeric_lookup t = Gives x
      \<and> sockaddr_equal x sample_addr"
  by (rule address_text_roundtrip) (simp add: numeric_lookup_numeric, simp add: get_port_def)

text \<open>A listening socket is constructed exactly when every system call succeeds and there is an
  interface, and then it owns its descriptor and carries the port the kernel chose. When the constructor
  throws before \<^verbatim>\<open>listen\<close> it has closed the descriptor; when it throws after \<^verbatim>\<open>bind\<close> has succeeded the
  descriptor stays open with nobody to close it.\<close>

theorem server_outcome:
  "case sock_server strerr sys port backlog of (r, closed) \<Rightarrow>
     (let bound = sys_setsockopt sys reuse_option \<and> sys_bind sys (htons port);
          named = (\<lambda>a. self_address_ipv4 strerr (sys_ifaddrs sys) (get_port a))
      in (\<forall>x. r = Gives x \<longleftrightarrow> sys_socket sys \<noteq> - 1 \<and> bound \<and> sys_listen sys backlog
           \<and> (\<exists>a self. sys_getsockname sys = Some a \<and> named a = Gives self
                \<and> x = sock_of (sys_socket sys) self \<and> get_port (so_addr x) = get_port a))
       \<and> closed = (if sys_socket sys \<noteq> - 1 \<and> \<not> bound then [sys_socket sys] else []))"
proof -
  have port: "self_address_ipv4 strerr ifs p = Gives self \<Longrightarrow> get_port self = p" for ifs p self
    by (auto simp: self_address_ipv4_def get_port_def split: option.splits addr_result.splits)
  show ?thesis
    by (auto simp: sock_server_def Let_def sock_of_def port split: option.splits addr_result.splits)
qed

text \<open>Moving a socket into another closes every descriptor once: after the assignment and the end of
  both objects, the descriptors given to \<^verbatim>\<open>close\<close> are those the two objects had, each as often as it occurred.\<close>

theorem move_assign_closes_once:
  "case sock_move_assign l rhs of (l', rhs') \<Rightarrow>
     mset (s_closed (sock_close (so_listener l'))) + mset (s_closed (sock_close (so_listener rhs')))
       = mset (s_closed (so_listener l)) + mset (s_closed (so_listener rhs))
         + mset (owned_fds (so_listener l)) + mset (owned_fds (so_listener rhs))"
  by (simp add: sock_move_assign_def moved_from_def sock_close_fds) (simp add: owned_fds_def)

text \<open>The options of \<^verbatim>\<open>setsockopt\<close> are numbers and not flags: joined by a disjunction of bits they are one
  of the two, and \<^verbatim>\<open>SO_REUSEADDR\<close> is never set.\<close>

theorem reuse_option_is_port: "reuse_option = SO_REUSEPORT \<and> reuse_option \<noteq> SO_REUSEADDR"
  by (simp add: reuse_option_def SO_REUSEADDR_def SO_REUSEPORT_def)

end
