(* ===== verification/Contexts_Setup.thy ===== *)
theory Contexts_Setup
  imports Contexts_Props Address
begin

text \<open>
  How a driver and its workers find each other (\<^verbatim>\<open>DriverContext::_start\<close>, \<^verbatim>\<open>setPort\<close>, \<^verbatim>\<open>setAddress\<close> and
  \<^verbatim>\<open>WorkerContext::_start\<close>): the two sockets of the driver, the address given to a worker on the command
  line, and the message with which a worker registers the address of its own socket.
\<close>

section \<open>The driver's sockets\<close>

record endpoint =
  ep_port :: u16
  ep_address :: sockaddr
  ep_super_address :: sockaddr
  ep_socket :: sock
  ep_super_socket :: sock

text \<open>The second socket uses the next port; the sum is stored in 16 bits.\<close>

definition super_port :: "u16 \<Rightarrow> u16" where
  "super_port p = (if p = 0 then 0 else p + 1)"

definition driver_setPort :: "u16 \<Rightarrow> endpoint \<Rightarrow> endpoint" where
  "driver_setPort p e = e\<lparr>ep_port := p\<rparr>"

definition driver_setAddress :: "(string \<Rightarrow> string \<Rightarrow> sockaddr list option) \<Rightarrow> string \<Rightarrow> endpoint \<Rightarrow> endpoint addr_result" where
  "driver_setAddress gai s e =
    (case str_to_ipv4 gai s of
       Gives a \<Rightarrow>
         (let p = get_port a
          in Gives (e\<lparr>ep_address := a, ep_port := p, ep_super_address := set_port a (super_port p)\<rparr>))
     | Addr_throws msg \<Rightarrow> Addr_throws msg
     | Addr_exits \<Rightarrow> Addr_exits
     | Addr_undefined \<Rightarrow> Addr_undefined)"

text \<open>One of the two sockets: constructed and moved into the member.\<close>

definition start_socket :: "string \<Rightarrow> server_sys \<Rightarrow> u16 \<Rightarrow> sock \<Rightarrow> sock addr_result" where
  "start_socket strerr sys p old =
    (case fst (sock_server strerr sys p 128) of
       Gives s \<Rightarrow> Gives (fst (sock_move_assign old s))
     | r \<Rightarrow> r)"

text \<open>\<^verbatim>\<open>_start\<close>: what it ends in, with the driver as far as it has come.\<close>

definition driver_start :: "string \<Rightarrow> server_sys \<Rightarrow> server_sys \<Rightarrow> endpoint \<Rightarrow> unit addr_result \<times> endpoint" where
  "driver_start strerr sys1 sys2 e =
    (case start_socket strerr sys1 (ep_port e) (ep_socket e) of
       Gives s \<Rightarrow>
         (let e = e\<lparr>ep_socket := s, ep_address := so_addr s\<rparr> in
          case start_socket strerr sys2 (super_port (ep_port e)) (ep_super_socket e) of
            Gives s \<Rightarrow> (Gives (), e\<lparr>ep_super_socket := s, ep_super_address := so_addr s\<rparr>)
          | Addr_throws msg \<Rightarrow> (Addr_throws msg, e)
          | Addr_exits \<Rightarrow> (Addr_exits, e)
          | Addr_undefined \<Rightarrow> (Addr_undefined, e))
     | Addr_throws msg \<Rightarrow> (Addr_throws msg, e)
     | Addr_exits \<Rightarrow> (Addr_exits, e)
     | Addr_undefined \<Rightarrow> (Addr_undefined, e))"

section \<open>The worker's start\<close>

text \<open>
  \<^verbatim>\<open>WorkerContext::_start\<close>: the worker listens on a port of the kernel's choice, connects to the driver's second
  socket (\<open>fd\<close> and \<open>connected\<close> are the kernel's answers) and reports its address.
\<close>

definition worker_connect :: "string \<Rightarrow> server_sys \<Rightarrow> int \<Rightarrow> bool \<Rightarrow> sockaddr \<Rightarrow> (nat \<Rightarrow> u8) \<Rightarrow> u32 \<Rightarrow> worker \<Rightarrow>
    (worker \<times> sock) addr_result" where
  "worker_connect strerr sys fd connected super raw i k =
    (case fst (sock_server strerr sys 0 128) of
       Gives s \<Rightarrow>
         (case fst (sock_connect strerr fd connected super) of
            Gives _ \<Rightarrow>
              (case worker_start raw (sockaddr_bytes (so_addr s)) i k of
                 None \<Rightarrow> Addr_undefined
               | Some k \<Rightarrow> Gives (k, s))
          | Addr_throws msg \<Rightarrow> Addr_throws msg
          | Addr_exits \<Rightarrow> Addr_exits
          | Addr_undefined \<Rightarrow> Addr_undefined)
     | Addr_throws msg \<Rightarrow> Addr_throws msg
     | Addr_exits \<Rightarrow> Addr_exits
     | Addr_undefined \<Rightarrow> Addr_undefined)"

text \<open>\<^verbatim>\<open>Test::runWorker\<close>: the start, then events for ever.\<close>

definition runWorker :: "string \<Rightarrow> server_sys \<Rightarrow> int \<Rightarrow> bool \<Rightarrow> sockaddr \<Rightarrow> (nat \<Rightarrow> u8) \<Rightarrow> (string, test list) umap \<Rightarrow>
    (test \<Rightarrow> worker \<Rightarrow> (status \<times> string) \<times> worker) \<Rightarrow> event list \<Rightarrow> u32 \<Rightarrow> worker \<Rightarrow> worker loop_end addr_result" where
  "runWorker strerr sys fd connected super raw tests run evs i k =
    (case worker_connect strerr sys fd connected super raw i k of
       Gives (k, s) \<Rightarrow> Gives (worker_main raw tests run evs k)
     | Addr_throws msg \<Rightarrow> Addr_throws msg
     | Addr_exits \<Rightarrow> Addr_exits
     | Addr_undefined \<Rightarrow> Addr_undefined)"

section \<open>Addresses in messages\<close>

definition shr_sockaddr :: "message \<Rightarrow> (sockaddr \<times> message) option" where
  "shr_sockaddr m = map_option (\<lambda>(bs, m). (bytes_sockaddr bs, m)) (msg_get 16 m)"

interpretation address: field "\<lambda>a. msg_put raw (sockaddr_bytes a)" shr_sockaddr sockaddr_bytes "\<lambda>a. 1040" "\<lambda>a. True"
proof (unfold_locales, goal_cases)
  case (1 x b m)
  then have "msg_ok (b + 16 + 1024) m"
    by (simp add: add.commute)
  from store_appends [OF this, of "sockaddr_bytes x" raw] show ?case
    by (simp add: msg_put_def)
next
  case (2 x b m r)
  from get_bytes [OF 2(3,2)] show ?case
    by (simp add: shr_sockaddr_def sockaddr_of_bytes)
qed

lemma start_packet:
  "\<exists>b. worker_start raw (sockaddr_bytes a) i k = Some (k\<lparr>k_id := i, k_reports := k_reports k @ [b]\<rparr>)
     \<and> b = word_bytes (of_nat (8 + length (word_bytes (op_code OP_WORKER_STARTED) @ word_bytes i @ sockaddr_bytes a)) :: u64)
         @ word_bytes (op_code OP_WORKER_STARTED) @ word_bytes i @ sockaddr_bytes a"
proof -
  have idf: "field (shl_word raw) shr_word (\<lambda>i :: u32. word_bytes i) (\<lambda>i. 1028) (\<lambda>i. True)"
    using word.field_axioms [where raw = raw and 'a = 32] by (simp add: size_of_def)
  note f = field_pair [OF idf address.field_axioms [of raw]]
  have "packet raw OP_WORKER_STARTED (\<lambda>m. Option.bind (shl_word raw i m) (msg_put raw (sockaddr_bytes a)))
      = Some (word_bytes (of_nat (8 + length (word_bytes (op_code OP_WORKER_STARTED) @ word_bytes i @ sockaddr_bytes a)) :: u64)
         @ word_bytes (op_code OP_WORKER_STARTED) @ word_bytes i @ sockaddr_bytes a)"
  proof (rule packet_frame [where cost = 2068])
    fix m
    assume "msg_ok (0 + 2068) m"
    then show "\<exists>m'. Option.bind (shl_word raw i m) (msg_put raw (sockaddr_bytes a)) = Some m'
        \<and> msg_ok 0 m' \<and> written m' = written m @ word_bytes i @ sockaddr_bytes a"
      using field.put_appends [OF f, where x = "(i, a)" and b = 0 and m = m]
      by (simp add: put_pair_def [abs_def])
  qed simp
  then show ?thesis
    by (simp add: worker_start_def)
qed


text \<open>The event of a worker's registration, and what the driver makes of it.\<close>

definition start_bytes :: "u32 \<Rightarrow> sockaddr \<Rightarrow> u8 list" where
  "start_bytes i a =
    word_bytes (of_nat (8 + length (word_bytes (op_code OP_WORKER_STARTED) @ word_bytes i @ sockaddr_bytes a)) :: u64)
      @ word_bytes (op_code OP_WORKER_STARTED) @ word_bytes i @ sockaddr_bytes a"

lemma registration:
  assumes "\<forall>a \<in> set answers. positive_answer a" and "30 \<le> length answers" and h: "um_find i (dr_workers d) = Some h"
  shows "wait_event raw super_handler (Conn answers (start_bytes i a) # evs) d
    = Event i (d\<lparr>dr_workers := um_set i (h\<lparr>h_addr := sockaddr_bytes a, h_running := True\<rparr>) (dr_workers d)\<rparr>) evs"
proof -
  have "14 + length (sockaddr_bytes a) \<le> length answers" "length (sockaddr_bytes a) < 2 ^ 61"
    using assms(2) by simp_all
  from frame_header [OF assms(1) this, of raw "op_code OP_WORKER_STARTED" i] obtain m x where
      m: "event_header raw (Conn answers (start_bytes i a)) = Some (op_code OP_WORKER_STARTED, i, m)" "msg_ok 0 m"
        "unread m = sockaddr_bytes a @ x" "event_msg raw (Conn answers (start_bytes i a)) \<noteq> None"
    unfolding start_bytes_def by blast
  obtain mm where mm: "event_msg raw (Conn answers (start_bytes i a)) = Some mm" "read_header mm = Some (op_code OP_WORKER_STARTED, i, m)"
    using m(1,4) by (auto simp: event_header_def simp del: op_code.simps event_msg.simps)
  obtain m' where "msg_get 16 m = Some (sockaddr_bytes a, m')"
    using get_bytes [OF m(3,2)] by simp
  then have "super_handler mm d = Handled i (d\<lparr>dr_workers := um_set i (h\<lparr>h_addr := sockaddr_bytes a, h_running := True\<rparr>) (dr_workers d)\<rparr>)"
    using mm(2) h by (simp add: super_handler_def)
  then show ?thesis
    using wait_event_message [OF mm(1), of super_handler evs d] by (simp del: wait_event.simps)
qed

text \<open>What a socket that was started carries.\<close>

lemma start_socket_addr:
  assumes "start_socket strerr sys p old = Gives s" and "sys_getsockname sys = Some a"
  shows "self_address_ipv4 strerr (sys_ifaddrs sys) (get_port a) = Gives (so_addr s)"
  using assms
  by (auto simp: start_socket_def sock_server_def Let_def sock_move_assign_def sock_of_def split: if_splits addr_result.splits)

lemma self_address_shape:
  assumes "self_address_ipv4 strerr ifs p = Gives x" and "self_address_ipv4 strerr ifs q = Gives y"
  shows "sin_addr x = sin_addr y" and "get_port x = p"
  using assms by (auto simp: self_address_ipv4_def get_port_def split: option.splits addr_result.splits)

lemma super_port_zero: "super_port p = 0 \<longleftrightarrow> p = 0 \<or> p = 0xFFFF"
proof -
  have "(- 1 :: u16) = 0xFFFF"
    by simp
  then have "p + 1 = 0 \<longleftrightarrow> p = 0xFFFF"
    by (simp only: add_eq_0_iff2)
  then show ?thesis
    by (simp add: super_port_def)
qed

section \<open>Properties\<close>

text \<open>C11. A worker that starts is registered with the address it listens on: the message it sends on the driver's
  second socket, received in any pieces, marks that worker as running and leaves in its entry the address of
  the socket the worker has just opened.\<close>

theorem worker_registers:
  assumes "worker_connect strerr sys fd connected super raw i k = Gives (k', s)"
    and "\<forall>a \<in> set answers. positive_answer a" and "30 \<le> length answers" and "um_find i (dr_workers d) \<noteq> None"
  shows "\<exists>b d' w. k_reports k' = k_reports k @ [b] \<and> k_id k' = i
     \<and> waitForSuperEvent raw' (Conn answers b # evs) d = Event i d' evs
     \<and> um_find i (dr_workers d') = Some w \<and> h_running w \<and> bytes_sockaddr (h_addr w) = so_addr s"
proof -
  obtain h where h: "um_find i (dr_workers d) = Some h"
    using assms(4) by blast
  have "worker_start raw (sockaddr_bytes (so_addr s)) i k = Some k'"
    using assms(1) by (auto simp: worker_connect_def split: addr_result.splits option.splits)
  then have k': "k' = k\<lparr>k_id := i, k_reports := k_reports k @ [start_bytes i (so_addr s)]\<rparr>"
    using start_packet [of raw "so_addr s" i k] by (simp add: start_bytes_def)
  note registration [OF assms(2,3) h, of raw' "so_addr s" evs]
  then show ?thesis
    using k' by (intro exI conjI) (assumption | simp add: um_find_set sockaddr_of_bytes waitForSuperEvent_def del: wait_event.simps)+
qed

text \<open>C30. A driver on a chosen port and a worker that is given the driver's address in text agree on the
  driver's second address, whichever interface the driver found, for every port but the last: on port 65535
  the next port wraps to 0, the driver listens on a port of the kernel's choice and no worker can reach it.\<close>

theorem super_address_agrees:
  assumes "driver_start strerr sys1 sys2 e = (Gives (), e')" and "ep_port e \<noteq> 0"
    and "sys_ifaddrs sys2 = sys_ifaddrs sys1"
    and "sys_getsockname sys1 = Some a1" and "get_port a1 = ep_port e"
    and "sys_getsockname sys2 = Some a2" and "if super_port (ep_port e) = 0 then get_port a2 \<noteq> 0 else get_port a2 = super_port (ep_port e)"
    and "\<forall>b. \<exists>x xs. gai (dotted (octets (sin_addr b))) (show_nat (unat (get_port b))) = Some (x # xs)
      \<and> octets (sin_addr x) = octets (sin_addr b) \<and> get_port x = get_port b"
  shows "\<exists>t w. ipv4_to_str (ep_address e') = Gives t \<and> driver_setAddress gai t e0 = Gives w
     \<and> (sockaddr_equal (ep_super_address w) (ep_super_address e') \<longleftrightarrow> ep_port e \<noteq> 0xFFFF)"
proof -
  obtain s1 s2 where s: "start_socket strerr sys1 (ep_port e) (ep_socket e) = Gives s1" "ep_address e' = so_addr s1"
      "start_socket strerr sys2 (super_port (ep_port e)) (ep_super_socket e) = Gives s2" "ep_super_address e' = so_addr s2"
    using assms(1) by (auto simp: driver_start_def Let_def split: addr_result.splits)
  note a = start_socket_addr [OF s(1) assms(4)] start_socket_addr [OF s(3) assms(6), unfolded assms(3)]
  note shape = self_address_shape [OF a(1,2)] self_address_shape [OF a(2,1)]
  obtain t x where t: "ipv4_to_str (ep_address e') = Gives t" "str_to_ipv4 gai t = Gives x" "sockaddr_equal x (ep_address e')"
    using address_text_reads [OF assms(8), of "ep_address e'"] by blast
  have x: "sin_addr x = sin_addr (so_addr s1)" "get_port x = ep_port e"
    using t(3) shape(2) assms(5) s(2) by (simp_all add: sockaddr_equal_def get_port_def)
  let ?w = "e0\<lparr>ep_address := x, ep_port := ep_port e, ep_super_address := set_port x (super_port (ep_port e))\<rparr>"
  have "driver_setAddress gai t e0 = Gives ?w"
    using t(2) x(2) by (simp add: driver_setAddress_def Let_def)
  moreover have "sockaddr_equal (ep_super_address ?w) (ep_super_address e') \<longleftrightarrow> super_port (ep_port e) = get_port a2"
    using x(1) shape(1,4) s(4) by (auto simp: sockaddr_equal_def set_port_def get_port_def htons_eq_iff)
  moreover have "super_port (ep_port e) = get_port a2 \<longleftrightarrow> ep_port e \<noteq> 0xFFFF"
    using assms(2,7) super_port_zero [of "ep_port e"] by (auto split: if_splits)
  ultimately show ?thesis
    using t(1) by blast
qed


section \<open>Examples\<close>

definition sample_server :: "u16 \<Rightarrow> server_sys" where
  "sample_server p =
    \<lparr>sys_socket = 5, sys_setsockopt = (\<lambda>_. True), sys_bind = (\<lambda>_. True), sys_listen = (\<lambda>_. True),
     sys_getsockname = Some (set_port sample_addr p),
     sys_ifaddrs = Some [\<lparr>if_loopback = True, if_addr = None\<rparr>, \<lparr>if_loopback = False, if_addr = Some sample_addr\<rparr>]\<rparr>"

definition no_endpoint :: "u16 \<Rightarrow> endpoint" where
  "no_endpoint p = \<lparr>ep_port = p, ep_address = sample_addr, ep_super_address = sample_addr,
    ep_socket = sock_of (- 1) sample_addr, ep_super_socket = sock_of (- 1) sample_addr\<rparr>"

lemma sample_socket: "fst (sock_server strerr (sample_server p) q n) = Gives (sock_of 5 (set_port sample_addr p))"
proof -
  have "find_self [\<lparr>if_loopback = True, if_addr = None\<rparr>, \<lparr>if_loopback = False, if_addr = Some sample_addr\<rparr>]
      = Gives (Some sample_addr)"
    by (simp add: sample_addr_def)
  then have "self_address_ipv4 strerr (sys_ifaddrs (sample_server p)) p = Gives (set_port sample_addr p)"
    by (simp add: self_address_ipv4_def sample_server_def set_port_def del: find_self.simps)
  then show ?thesis
    by (simp add: sock_server_def sample_server_def get_port_def set_port_def)
qed

theorem worker_registers_witness:
  "\<exists>k' s b d' w. worker_connect [] (sample_server 7000) 6 True sample_addr (\<lambda>_. 0) 1 worker_init = Gives (k', s)
     \<and> k_reports k' = [b] \<and> waitForSuperEvent (\<lambda>_. 0) [Conn (replicate 30 (Ready 3)) b] (addWorker 1 driver_init) = Event 1 d' []
     \<and> um_find 1 (dr_workers d') = Some w \<and> h_running w \<and> bytes_sockaddr (h_addr w) = so_addr s"
proof -
  obtain k' s where c: "worker_connect [] (sample_server 7000) 6 True sample_addr (\<lambda>_. 0) 1 worker_init = Gives (k', s)"
    using start_packet [of "\<lambda>_. 0" "set_port sample_addr 7000" 1 worker_init]
    by (auto simp: worker_connect_def sample_socket sock_connect_def sock_of_def)
  have "\<forall>a \<in> set (replicate 30 (Ready 3)). positive_answer a" "30 \<le> length (replicate 30 (Ready 3))"
    "um_find 1 (dr_workers (addWorker 1 driver_init)) \<noteq> None"
    by (simp_all add: positive_answer_def addWorker_def driver_init_def assign_at_def um_find_set um_find_def)
  from worker_registers [OF c this, of "\<lambda>_. 0" "[]"] obtain b d' w where w: "k_reports k' = k_reports worker_init @ [b]"
      "waitForSuperEvent (\<lambda>_. 0) [Conn (replicate 30 (Ready 3)) b] (addWorker 1 driver_init) = Event 1 d' []"
      "um_find 1 (dr_workers d') = Some w" "h_running w" "bytes_sockaddr (h_addr w) = so_addr s"
    by blast
  moreover have "k_reports worker_init = []"
    by (simp add: worker_init_def)
  ultimately show ?thesis
    using c by (intro exI conjI) (assumption | simp only: append_Nil)+
qed

theorem super_address_agrees_witness:
  "\<exists>e' t w. driver_start [] (sample_server 7000) (sample_server 7001) (no_endpoint 7000) = (Gives (), e')
     \<and> ipv4_to_str (ep_address e') = Gives t \<and> driver_setAddress numeric_lookup t (no_endpoint 0) = Gives w
     \<and> sockaddr_equal (ep_super_address w) (ep_super_address e')"
proof -
  obtain e' where e': "driver_start [] (sample_server 7000) (sample_server 7001) (no_endpoint 7000) = (Gives (), e')"
    by (simp add: driver_start_def start_socket_def sample_socket)
  have name: "sys_getsockname (sample_server p) = Some (set_port sample_addr p)" "sys_ifaddrs (sample_server p) = sys_ifaddrs (sample_server q)" for p q
    by (simp_all add: sample_server_def)
  have port: "ep_port (no_endpoint 7000) = 7000" "super_port 7000 = 7001" "get_port (set_port sample_addr p) = p" for p
    by (simp_all add: no_endpoint_def super_port_def port_set_get)
  have ports: "ep_port (no_endpoint 7000) \<noteq> 0" "get_port (set_port sample_addr 7000) = ep_port (no_endpoint 7000)"
    "if super_port (ep_port (no_endpoint 7000)) = 0 then get_port (set_port sample_addr 7001) \<noteq> 0
     else get_port (set_port sample_addr 7001) = super_port (ep_port (no_endpoint 7000))"
    by (simp_all add: port)
  have look: "\<forall>b. \<exists>x xs. numeric_lookup (dotted (octets (sin_addr b))) (show_nat (unat (get_port b))) = Some (x # xs)
      \<and> octets (sin_addr x) = octets (sin_addr b) \<and> get_port x = get_port b"
    by (simp add: numeric_lookup_numeric, simp add: get_port_def)
  from super_address_agrees [OF e' ports(1) name(2) name(1) ports(2) name(1) ports(3) look, of "no_endpoint 0"]
  obtain t w where "ipv4_to_str (ep_address e') = Gives t" "driver_setAddress numeric_lookup t (no_endpoint 0) = Gives w"
      "sockaddr_equal (ep_super_address w) (ep_super_address e') \<longleftrightarrow> ep_port (no_endpoint 7000) \<noteq> 0xFFFF"
    by blast
  moreover have "ep_port (no_endpoint 7000) \<noteq> 0xFFFF"
    by (simp add: port)
  ultimately show ?thesis
    using e' by blast
qed

end
