(* ===== verification/Allocation_Props.thy ===== *)
theory Allocation_Props
  imports Contexts_Setup
begin

text \<open>
  Allocating workers for a test and giving them back (\<^verbatim>\<open>_allocateWorkers\<close>, \<^verbatim>\<open>_deallocateWorkers\<close>): the
  identifiers of spawned workers are new, every allocated worker is running, and afterwards the driver
  has the workers it had before.
\<close>

section \<open>Spawning\<close>

text \<open>The identifiers of the table are at most its size; the driver numbers workers by the size.\<close>

definition fresh_ids :: "driver \<Rightarrow> bool" where
  "fresh_ids d \<longleftrightarrow> table_ok (dr_workers d) \<and> (\<forall>i \<in> set (map fst (dr_workers d)). unat i \<le> length (dr_workers d))"

lemma table_ok_absent: "i \<notin> set (map fst ws) \<Longrightarrow> um_find i ws = None"
  by (simp add: um_find_def map_of_eq_None_iff)

lemma spawn_step:
  fixes pid :: u32
  assumes "fresh_ids d" and "length (dr_workers d) < 2 ^ 16" and "spawnWorker pid d = (w, d1)"
  defines "d2 \<equiv> d1\<lparr>dr_workers := assign_at (h_id w) w (dr_workers d1)\<rparr>"
  shows "map fst (dr_workers d2) = map fst (dr_workers d) @ [h_id w]" and "fresh_ids d2"
    and "dr_allocated d2 = dr_allocated d" and "dr_sent d2 = dr_sent d"
proof -
  let ?i = "of_nat (length (dr_workers d)) + 1 :: u32"
  have w: "w = handle_new ?i pid" "d1 = d\<lparr>dr_workers := assign_at ?i w (dr_workers d)\<rparr>"
    using assms(3) by (auto simp: spawnWorker_def Let_def)
  have id: "h_id w = ?i"
    by (simp add: w handle_new_def)
  have i: "unat ?i = Suc (length (dr_workers d))"
    using assms(2) by (subst unat_add_nowrap) (simp_all add: unat_of_nat take_bit_nat_eq_self)
  have "?i \<notin> set (map fst (dr_workers d))"
  proof
    assume "?i \<in> set (map fst (dr_workers d))"
    then have "unat ?i \<le> length (dr_workers d)"
      using assms(1) unfolding fresh_ids_def by blast
    with i show False by simp
  qed
  then have absent: "um_find ?i (dr_workers d) = None"
    by (rule table_ok_absent)
  let ?w1 = "handle_assign handle_default w"
  have d1: "dr_workers d1 = dr_workers d @ [(?i, ?w1)]"
    using absent by (simp add: w(2) assign_at_def um_set_absent)
  have "um_find ?i (dr_workers d1) = Some ?w1"
    using absent by (simp add: w(2) assign_at_def um_find_set)
  then have d2: "dr_workers d2 = um_set ?i (handle_assign ?w1 w) (dr_workers d1)"
    by (simp add: d2_def id assign_at_def)
  then show keys: "map fst (dr_workers d2) = map fst (dr_workers d) @ [h_id w]"
    using keys_um_set [OF \<open>um_find ?i (dr_workers d1) = Some ?w1\<close>] by (simp add: d1 id)
  have "table_ok (dr_workers d1)"
    using assms(1) absent id by (auto simp: d1 fresh_ids_def table_ok_def um_invar_def um_find_def map_of_eq_None_iff handle_assign_def)
  then have "table_ok (dr_workers d2)"
    unfolding d2 by (rule table_ok_set) (simp add: handle_assign_def id)
  moreover have "length (dr_workers d2) = Suc (length (dr_workers d))"
    using arg_cong [OF keys, of length] by simp
  ultimately show "fresh_ids d2"
    using assms(1) i keys by (auto simp: fresh_ids_def id)
  show "dr_allocated d2 = dr_allocated d" "dr_sent d2 = dr_sent d"
    by (simp_all add: d2_def w(2))
qed

lemma spawn_loop_adds:
  assumes "spawn_loop pids n sp d = Some (out, d')" and "fresh_ids d"
  shows "\<exists>new. out = sp @ new \<and> map fst (dr_workers d') = map fst (dr_workers d) @ new \<and> fresh_ids d'
    \<and> length new = unat n - length (dr_workers d) \<and> dr_allocated d' = dr_allocated d \<and> dr_sent d' = dr_sent d"
  using assms
proof (induction pids arbitrary: sp d)
  case Nil
  then show ?case
    by (auto simp: spawn_loop.simps [of "[]"] split: if_splits)
next
  case (Cons pid pids)
  show ?case
  proof (cases "length (dr_workers d) < unat n")
    case True
    then have small: "length (dr_workers d) < 2 ^ 16"
      using unsigned_less [of n, where 'a = nat] by simp
    obtain w d1 where w: "spawnWorker pid d = (w, d1)"
      by fastforce
    note s = spawn_step [OF Cons.prems(2) small w]
    let ?d2 = "d1\<lparr>dr_workers := assign_at (h_id w) w (dr_workers d1)\<rparr>"
    have "spawn_loop pids n (sp @ [h_id w]) ?d2 = Some (out, d')"
      using Cons.prems(1) True by (simp add: spawn_loop.simps [of "pid # pids"] w)
    from Cons.IH [OF this s(2)] obtain new where new: "out = (sp @ [h_id w]) @ new"
        "map fst (dr_workers d') = map fst (dr_workers ?d2) @ new" "fresh_ids d'"
        "length new = unat n - length (dr_workers ?d2)" "dr_allocated d' = dr_allocated ?d2" "dr_sent d' = dr_sent ?d2"
      by blast
    moreover have "length (dr_workers ?d2) = Suc (length (dr_workers d))"
      using arg_cong [OF s(1), of length] by simp
    ultimately show ?thesis
      using s True by (intro exI [of _ "h_id w # new"]) auto
  next
    case False
    then show ?thesis
      using Cons.prems by (simp add: spawn_loop.simps [of "pid # pids"])
  qed
qed

section \<open>Taking workers\<close>

text \<open>The tables while workers are taken: \<open>ks\<close> are the workers, \<open>al\<close> those allocated so far.\<close>

definition taking :: "u32 list \<Rightarrow> u32 list \<Rightarrow> driver \<Rightarrow> bool" where
  "taking ks al d \<longleftrightarrow> map fst (dr_workers d) = ks \<and> table_ok (dr_workers d)
     \<and> allocated_ids d = al \<and> table_ok (dr_allocated d)
     \<and> (\<forall>i w. um_find i (dr_allocated d) = Some w \<longrightarrow> h_running w \<and> h_notify w = 0)"

lemma taking_handler:
  assumes "taking ks al d" and "super_handler m d = Handled r d1"
  shows "taking ks al d1"
proof -
  obtain op j m' where h: "read_header m = Some (op, j, m')"
    using assms(2) by (auto simp: super_handler_def split: option.splits)
  note def = super_handler_def h option.case prod.case
  have worker: "taking ks al (d\<lparr>dr_workers := um_set j (w\<lparr>h_addr := a, h_running := True\<rparr>) (dr_workers d)\<rparr>)"
    if "um_find j (dr_workers d) = Some w" for w a
    using assms(1) that table_ok_id [of "dr_workers d" j w]
    by (simp add: taking_def keys_um_set table_ok_set)
  have alloc: "taking ks al (d\<lparr>dr_allocated := um_set j (w\<lparr>h_done := True, h_status := st, h_report := rp\<rparr>) (dr_allocated d)\<rparr>)"
    if "um_find j (dr_allocated d) = Some w" for w st rp
    using assms(1) that table_ok_id [of "dr_allocated d" j w]
    by (simp add: taking_def keys_um_set table_ok_set um_find_set)
  show ?thesis
    using assms worker alloc by (auto simp: def simp del: op_code.simps split: option.splits if_splits prod.splits)
qed

lemma taking_until:
  assumes "super_until raw stop evs d = Loop_done d1 evs'" and "taking ks al d"
  shows "taking ks al d1 \<and> stop d1"
  using event_loop_invariant [OF assms(1) [unfolded super_until_def], where I = "\<lambda>used. taking ks al"] assms(2) taking_handler
  by blast

lemma taking_take:
  assumes "taking ks al d" and "is_running i d" and "i \<notin> set al"
  shows "taking ks (al @ [i]) (take_worker i d)"
proof -
  obtain w where w: "um_find i (dr_workers d) = Some w" "h_running w"
    using assms(2) by (auto simp: is_running_def split: option.splits)
  have id: "h_id w = i"
    using table_ok_id [OF _ w(1)] assms(1) by (simp add: taking_def)
  let ?w = "w\<lparr>h_notify := 0, h_done := False\<rparr>"
  have absent: "um_find i (dr_allocated d) = None"
    using assms(1,3) by (intro table_ok_absent) (simp add: taking_def)
  have take: "take_worker i d = d\<lparr>dr_workers := um_set i ?w (dr_workers d),
      dr_allocated := dr_allocated d @ [(i, handle_assign handle_default ?w)]\<rparr>"
    using w(1) id absent by (simp add: take_worker_def Let_def assign_at_def um_set_absent)
  have "table_ok (dr_allocated d @ [(i, handle_assign handle_default ?w)])"
    using assms(1) absent id by (auto simp: taking_def table_ok_def um_invar_def um_find_def map_of_eq_None_iff handle_assign_def)
  moreover have "um_find j (dr_allocated d @ [(i, handle_assign handle_default ?w)])
      = (if j = i then Some (handle_assign handle_default ?w) else um_find j (dr_allocated d))" for j
    using absent by (auto simp: um_find_def map_add_def split: option.splits)
  ultimately show ?thesis
    using assms(1) w id unfolding take by (auto simp: taking_def keys_um_set table_ok_set handle_assign_def)
qed

lemma take_loop_takes:
  assumes "take_loop raw is n evs d = Loop_done d' evs'" and "taking ks al d" and "distinct (al @ is)"
  shows "taking ks (al @ take (unat n) is) d'"
  using assms
proof (induction "is" arbitrary: n evs d al)
  case (Cons i "is")
  show ?case
  proof (cases "n = 0")
    case True
    then show ?thesis using Cons.prems by simp
  next
    case False
    then obtain d1 evs1 where u: "super_until raw (is_running i) evs d = Loop_done d1 evs1"
        and t: "take_loop raw is (n - 1) evs1 (take_worker i d1) = Loop_done d' evs'"
      using Cons.prems(1) by (auto split: loop_end.splits)
    have "taking ks (al @ [i]) (take_worker i d1)"
      using taking_until [OF u Cons.prems(2)] Cons.prems(3) by (intro taking_take) auto
    from Cons.IH [OF t this] have "taking ks ((al @ [i]) @ take (unat (n - 1)) is) d'"
      using Cons.prems(3) by simp
    moreover have "unat n = Suc (unat (n - 1))"
      using False by (simp add: unat_minus_one unat_pos_iff [symmetric])
    ultimately show ?thesis by simp
  qed
qed simp

section \<open>Giving back\<close>

lemma deallocate_loop_erases:
  assumes "packet raw OP_TERMINATE Some = Some bytes" and "set is \<subseteq> set (allocated_ids d)"
  shows "deallocate_loop raw is d = Some (d\<lparr>dr_workers := filter (\<lambda>e. fst e \<notin> set is) (dr_workers d),
      dr_sent := dr_sent d @ map (\<lambda>i. (i, bytes)) is\<rparr>)"
  using assms(2)
proof (induction "is" arbitrary: d)
  case (Cons i "is")
  then obtain w where "um_find i (dr_allocated d) = Some w"
    by (cases "um_find i (dr_allocated d)") (auto simp: um_find_def map_of_eq_None_iff)
  then show ?case
    using Cons assms(1) by (simp add: send_to_def um_erase_def conj_commute)
qed simp

text \<open>The message: a length of ten bytes and the command, which is the sixth of the enumeration.\<close>

definition terminate_bytes :: "u8 list" where
  "terminate_bytes = [10, 0, 0, 0, 0, 0, 0, 0, 5, 0]"

lemma terminate_packet: "packet raw OP_TERMINATE Some = Some terminate_bytes"
proof -
  have "packet raw OP_TERMINATE Some = Some (word_bytes (of_nat (8 + length (word_bytes (op_code OP_TERMINATE) @ [])) :: u64)
      @ word_bytes (op_code OP_TERMINATE) @ [])"
    using packet_frame [of 0 Some "[]" raw OP_TERMINATE] by simp
  also have "\<dots> = Some terminate_bytes"
    unfolding terminate_bytes_def by code_simp
  finally show ?thesis .
qed

section \<open>Properties\<close>

text \<open>C6. When allocation returns, the test has exactly as many workers as it asked for, all different, each
  running and without notifications; the spawned ones are as many as were missing, with identifiers nobody
  had. Giving them back then cannot fail: each of the spawned ones, and nobody else, is sent the command to
  terminate, and the driver is left with the workers it had before and none allocated.\<close>

theorem allocate_and_give_back:
  assumes "allocateWorkers raw pids n evs d = Some (spawned, Loop_done d' evs')" and "fresh_ids d" and "dr_allocated d = []"
  shows "length (allocated_ids d') = unat n \<and> distinct (allocated_ids d')
     \<and> (\<forall>i w. um_find i (dr_allocated d') = Some w \<longrightarrow> h_id w = i \<and> h_running w \<and> h_notify w = 0)
     \<and> length spawned = unat n - length (dr_workers d) \<and> set spawned \<inter> set (map fst (dr_workers d)) = {}
     \<and> (\<exists>d''. deallocateWorkers raw spawned d' = Some d'' \<and> map fst (dr_workers d'') = map fst (dr_workers d)
          \<and> dr_allocated d'' = [] \<and> dr_sent d'' = dr_sent d' @ map (\<lambda>i. (i, terminate_bytes)) spawned \<and> fresh_ids d'')"
proof -
  obtain d1 where sp: "spawn_loop pids n [] d = Some (spawned, d1)"
      and tk: "take_loop raw (map fst (dr_workers d1)) n evs d1 = Loop_done d' evs'"
    using assms(1) by (auto simp: allocateWorkers_def split: option.splits)
  let ?ks = "map fst (dr_workers d)"
  from spawn_loop_adds [OF sp assms(2)] have k1: "map fst (dr_workers d1) = ?ks @ spawned" "fresh_ids d1"
      "length spawned = unat n - length (dr_workers d)" "dr_allocated d1 = []"
    using assms(3) by auto
  have distinct: "distinct (?ks @ spawned)"
    using k1(2) unfolding fresh_ids_def table_ok_def um_invar_def k1(1) by blast
  have "taking (?ks @ spawned) [] d1"
    using k1 by (simp add: taking_def fresh_ids_def table_ok_def um_find_def um_invar_def)
  from take_loop_takes [OF tk this] have t: "taking (?ks @ spawned) (take (unat n) (?ks @ spawned)) d'"
    using distinct by (simp add: k1(1))
  let ?al = "take (unat n) (?ks @ spawned)"
  have al: "allocated_ids d' = ?al" "map fst (dr_workers d') = ?ks @ spawned"
    using t by (simp_all add: taking_def)
  have "length ?al = unat n"
    using k1(3) by simp
  moreover have "distinct ?al"
    using distinct by (rule distinct_take)
  moreover have "h_id w = i \<and> h_running w \<and> h_notify w = 0" if "um_find i (dr_allocated d') = Some w" for i w
    using t that table_ok_id [OF _ that] by (simp add: taking_def)
  moreover have "set spawned \<subseteq> set ?al"
    using k1(3) by (cases "spawned = []") auto
  then have sub: "set spawned \<subseteq> set (allocated_ids d')"
    by (simp only: al(1))
  from deallocate_loop_erases [OF terminate_packet sub]
  have "deallocateWorkers raw spawned d' = Some (d'\<lparr>dr_workers := filter (\<lambda>e. fst e \<notin> set spawned) (dr_workers d'),
      dr_sent := dr_sent d' @ map (\<lambda>i. (i, terminate_bytes)) spawned, dr_allocated := []\<rparr>)"
    by (simp add: deallocateWorkers_def)
  moreover have keys: "map fst (filter (\<lambda>e. fst e \<notin> set spawned) (dr_workers d')) = ?ks"
  proof -
    have "map fst (filter (\<lambda>e. fst e \<notin> set spawned) (dr_workers d')) = filter (\<lambda>i. i \<notin> set spawned) (?ks @ spawned)"
      unfolding al(2) [symmetric] by (simp add: filter_map o_def)
    also have "\<dots> = ?ks"
      using distinct by (auto simp: filter_id_conv)
    finally show ?thesis .
  qed
  moreover have "fresh_ids (d'\<lparr>dr_workers := filter (\<lambda>e. fst e \<notin> set spawned) (dr_workers d'),
      dr_sent := dr_sent d' @ map (\<lambda>i. (i, terminate_bytes)) spawned, dr_allocated := []\<rparr>)"
  proof -
    have len: "length (filter (\<lambda>e. fst e \<notin> set spawned) (dr_workers d')) = length (dr_workers d)"
      using arg_cong [OF keys, of length] by simp
    have "table_ok (filter (\<lambda>e. fst e \<notin> set spawned) (dr_workers d'))"
      using t by (auto simp: taking_def table_ok_def um_invar_def distinct_map_filter)
    then show ?thesis
      using assms(2) unfolding fresh_ids_def by (simp add: len keys [unfolded list.set_map] flip: set_map)
  qed
  ultimately show ?thesis
    using k1(3) distinct al(1) by auto
qed


theorem allocate_and_give_back_witness:
  "\<exists>d' d''. allocateWorkers (\<lambda>_. 0) [77] 1 [Conn (replicate 30 (Ready 3)) (start_bytes 1 sample_addr)] driver_init
        = Some ([1], Loop_done d' [])
     \<and> length (allocated_ids d') = 1 \<and> deallocateWorkers (\<lambda>_. 0) [1] d' = Some d'' \<and> dr_workers d'' = []
     \<and> dr_sent d'' = dr_sent d' @ [(1, terminate_bytes)]"
proof -
  let ?ev = "Conn (replicate 30 (Ready 3)) (start_bytes 1 sample_addr)"
  let ?h = "handle_assign (handle_assign handle_default (handle_new 1 77)) (handle_new 1 77)"
  let ?d = "driver_init\<lparr>dr_workers := [(1, ?h)]\<rparr>"
  have ready: "\<forall>a \<in> set (replicate 30 (Ready 3)). positive_answer a" "30 \<le> length (replicate 30 (Ready 3))"
    by (simp_all add: positive_answer_def)
  have spawn: "spawn_loop [77] 1 [] driver_init = Some ([1], ?d)"
    by (simp add: spawn_loop.simps spawnWorker_def driver_init_def assign_at_def um_find_def Let_def) (simp add: handle_new_def um_find_def)
  have find: "um_find 1 (dr_workers ?d) = Some ?h" and idle: "\<not> is_running 1 ?d"
    by (simp_all add: um_find_def is_running_def handle_assign_def handle_new_def handle_default_def)
  let ?d1 = "?d\<lparr>dr_workers := [(1, ?h\<lparr>h_addr := sockaddr_bytes sample_addr, h_running := True\<rparr>)]\<rparr>"
  have "super_until (\<lambda>_. 0) (is_running 1) [?ev] ?d = Loop_done ?d1 []"
    using registration [OF ready find, of "\<lambda>_. 0" sample_addr "[]"] idle
    by (simp add: super_until_def event_loop.simps [of _ _ _ _ "[?ev]"] event_loop.simps [of _ _ _ _ "[]"] is_running_def um_find_def
        del: wait_event.simps)
  then have al: "allocateWorkers (\<lambda>_. 0) [77] 1 [?ev] driver_init = Some ([1], Loop_done (take_worker 1 ?d1) [])"
    using spawn by (simp add: allocateWorkers_def)
  have "fresh_ids driver_init" "dr_allocated driver_init = []"
    by (simp_all add: fresh_ids_def table_ok_def um_invar_def driver_init_def)
  note g = allocate_and_give_back [OF al this]
  then obtain d'' where "deallocateWorkers (\<lambda>_. 0) [1] (take_worker 1 ?d1) = Some d''"
      "map fst (dr_workers d'') = map fst (dr_workers driver_init)" "dr_sent d'' = dr_sent (take_worker 1 ?d1) @ map (\<lambda>i. (i, terminate_bytes)) [1]"
    by (elim conjE exE) (rule that)
  moreover have "dr_workers driver_init = []"
    by (simp add: driver_init_def)
  ultimately show ?thesis
    using al g by (intro exI conjI) (assumption | simp)+
qed

end
