(* ===== verification/Command_Line.thy ===== *)
theory Command_Line
  imports Contexts_Setup Scheduler
begin

text \<open>
  The program itself (\<^verbatim>\<open>src/dtest.cpp\<close>): scanning the arguments, finding and loading the test libraries,
  and running as a driver or as a worker. The file system, the dynamic linker and name lookup are the
  host's: a directory is the list of its entries in the order \<^verbatim>\<open>readdir\<close> gives them, and loading a library
  does to the registry what its static objects do. \<open>None\<close> for a missing argument is the null pointer that
  follows the last one.
\<close>

section \<open>The host\<close>

text \<open>
  A path that \<^verbatim>\<open>stat\<close> cannot resolve leaves the local variable uninitialised; the flag says whether it then
  looks like a directory. The flag of a directory says whether \<^verbatim>\<open>opendir\<close> succeeds.
\<close>

datatype node = Regular | Unresolved bool | Directory bool "(string \<times> node) list"

record host =
  ho_access :: "string \<Rightarrow> bool"
  ho_node :: "string \<Rightarrow> node"
  ho_dlopen :: "string \<Rightarrow> (registry \<Rightarrow> registry) option"
  ho_dlsym :: "string \<Rightarrow> string \<Rightarrow> addr"
  ho_symsize :: "addr \<Rightarrow> u64"
  ho_lookup :: "string \<Rightarrow> string \<Rightarrow> sockaddr list option"

text \<open>The static variables of the program and the objects the options work on.\<close>

record cli =
  cl_run_worker :: bool
  cl_worker_id :: u32
  cl_modules :: "string list"
  cl_loaded :: "string list"
  cl_driver :: driver
  cl_endpoint :: endpoint
  cl_registry :: registry
  cl_memory :: memory

datatype 'a cli_end = Goes_on 'a | Exit_code int | Aborts string | Cli_undefined

section \<open>Finding and loading tests\<close>

definition lower :: "char \<Rightarrow> char" where
  "lower c = (if 65 \<le> (of_char c :: nat) \<and> (of_char c :: nat) \<le> 90 then char_of ((of_char c :: nat) + 32) else c)"

definition strcaseeq :: "string \<Rightarrow> string \<Rightarrow> bool" where
  "strcaseeq a b \<longleftrightarrow> map lower a = map lower b"

definition PATH_MAX :: nat where
  "PATH_MAX = 4096"

definition loadTests :: "host \<Rightarrow> string \<Rightarrow> cli \<Rightarrow> cli cli_end" where
  "loadTests h path c =
    (let c = c\<lparr>cl_loaded := cl_loaded c @ [path]\<rparr> in
     case ho_dlopen h path of
       None \<Rightarrow> Exit_code 1
     | Some init \<Rightarrow>
         Goes_on (c\<lparr>cl_registry := init (cl_registry c),
           cl_memory := reinitialize (ho_dlsym h path) (ho_symsize h) (cl_memory c)\<rparr>))"

definition is_test_file :: "string \<Rightarrow> bool" where
  "is_test_file path \<longleftrightarrow> length path \<ge> 9 \<and> strcaseeq (drop (length path - 9) path) ''.dtest.so''"

definition load_file :: "host \<Rightarrow> string \<Rightarrow> cli \<Rightarrow> cli cli_end" where
  "load_file h path c = (if is_test_file path then loadTests h path c else Goes_on c)"

definition skipped_name :: "string \<Rightarrow> bool" where
  "skipped_name name \<longleftrightarrow> name = ''.'' \<or> name = ''..'' \<or> name = ''dtest''"

definition child_path :: "string \<Rightarrow> string \<Rightarrow> string" where
  "child_path path name = path @ ''/'' @ name"

text \<open>A child's path that does not fit its array of \<^verbatim>\<open>PATH_MAX\<close> bytes is written past the end.\<close>

fun findTests :: "host \<Rightarrow> string \<Rightarrow> node \<Rightarrow> cli \<Rightarrow> cli cli_end"
  and find_entries :: "host \<Rightarrow> string \<Rightarrow> (string \<times> node) list \<Rightarrow> cli \<Rightarrow> cli cli_end" where
  "findTests h path (Directory readable es) c = (if readable then find_entries h path es c else Goes_on c)"
| "findTests h path (Unresolved dir) c = (if dir then Goes_on c else load_file h path c)"
| "findTests h path Regular c = load_file h path c"
| "find_entries h path [] c = Goes_on c"
| "find_entries h path ((name, node) # es) c =
    (if skipped_name name then find_entries h path es c
     else
       (let child = child_path path name in
        if length child \<ge> PATH_MAX then Cli_undefined
        else (case findTests h child node c of
                Goes_on c \<Rightarrow> find_entries h path es c
              | r \<Rightarrow> r)))"

section \<open>Arguments\<close>

text \<open>
  \<^verbatim>\<open>atoi\<close>: blanks, a sign, digits. The C standard leaves a number that no \<^verbatim>\<open>int\<close> can hold undefined.
\<close>

definition is_blank :: "char \<Rightarrow> bool" where
  "is_blank c \<longleftrightarrow> (of_char c :: nat) = 32 \<or> 9 \<le> (of_char c :: nat) \<and> (of_char c :: nat) \<le> 13"

definition atoi :: "string \<Rightarrow> int option" where
  "atoi s =
    (let t = dropWhile is_blank s;
         neg = (t \<noteq> [] \<and> hd t = CHR ''-'');
         ds = takeWhile is_digit (if t \<noteq> [] \<and> (hd t = CHR ''-'' \<or> hd t = CHR ''+'') then tl t else t);
         n = (if neg then - int (read_nat ds) else int (read_nat ds))
     in if - (2 ^ 31) \<le> n \<and> n < 2 ^ 31 then Some n else None)"

definition addWorkers :: "u32 \<Rightarrow> driver \<Rightarrow> driver" where
  "addWorkers n d = fold (\<lambda>i. addWorker (of_nat i)) [0..<unat n] d"

text \<open>The loop over the arguments; the flag is \<^verbatim>\<open>gotTestLocation\<close>.\<close>

fun parse_args :: "host \<Rightarrow> string list \<Rightarrow> bool \<Rightarrow> cli \<Rightarrow> (bool \<times> cli) cli_end" where
  "parse_args h [] got c = Goes_on (got, c)"
| "parse_args h (a # args) got c =
    (if take 1 a = ''-'' then
       (if strcaseeq a ''--port'' then
          (case args of
             [] \<Rightarrow> Cli_undefined
           | v # args \<Rightarrow>
               (case atoi v of
                  None \<Rightarrow> Cli_undefined
                | Some n \<Rightarrow> parse_args h args got (c\<lparr>cl_endpoint := driver_setPort (of_int n) (cl_endpoint c)\<rparr>)))
        else if strcaseeq a ''--workers'' then
          (case args of
             [] \<Rightarrow> Cli_undefined
           | v # args \<Rightarrow>
               (case atoi v of
                  None \<Rightarrow> Cli_undefined
                | Some n \<Rightarrow> parse_args h args got (c\<lparr>cl_driver := addWorkers (of_int n) (cl_driver c)\<rparr>)))
        else if strcaseeq a ''--driver'' then
          (case args of
             [] \<Rightarrow> Cli_undefined
           | v # args \<Rightarrow>
               (case driver_setAddress (ho_lookup h) v (cl_endpoint c) of
                  Gives e \<Rightarrow> parse_args h args got (c\<lparr>cl_run_worker := True, cl_endpoint := e\<rparr>)
                | Addr_throws msg \<Rightarrow> Aborts msg
                | Addr_exits \<Rightarrow> Exit_code 1
                | Addr_undefined \<Rightarrow> Cli_undefined))
        else if strcaseeq a ''--worker-id'' then
          (case args of
             [] \<Rightarrow> Cli_undefined
           | v # args \<Rightarrow>
               (case atoi v of
                  None \<Rightarrow> Cli_undefined
                | Some n \<Rightarrow> parse_args h args got (c\<lparr>cl_worker_id := of_int n\<rparr>)))
        else if strcaseeq a ''--module'' then
          (case args of
             [] \<Rightarrow> Cli_undefined
           | v # args \<Rightarrow> parse_args h args got (c\<lparr>cl_modules := set_insert v (cl_modules c)\<rparr>))
        else if strcaseeq a ''-h'' \<or> strcaseeq a ''--help'' then Exit_code 0
        else Exit_code 1)
     else if ho_access h a then
       (case findTests h a (ho_node h a) c of
          Goes_on c \<Rightarrow> parse_args h args True c
        | Exit_code n \<Rightarrow> Exit_code n
        | Aborts msg \<Rightarrow> Aborts msg
        | Cli_undefined \<Rightarrow> Cli_undefined)
     else Exit_code 1)"

definition parseArguments :: "host \<Rightarrow> string list \<Rightarrow> string \<Rightarrow> cli \<Rightarrow> cli cli_end" where
  "parseArguments h args cwd c =
    (case parse_args h args False c of
       Goes_on (got, c) \<Rightarrow> if got then Goes_on c else findTests h cwd (ho_node h cwd) c
     | Exit_code n \<Rightarrow> Exit_code n
     | Aborts msg \<Rightarrow> Aborts msg
     | Cli_undefined \<Rightarrow> Cli_undefined)"

section \<open>The program\<close>

text \<open>What the kernel answers to the sockets of the two roles, and the functions the tests run.\<close>

record 's roles =
  ro_strerr :: string
  ro_sys1 :: server_sys
  ro_sys2 :: server_sys
  ro_run :: "test \<Rightarrow> 's \<Rightarrow> test \<times> 's"
  ro_context :: 's
  ro_fd :: int
  ro_connected :: bool
  ro_raw :: "nat \<Rightarrow> u8"
  ro_worker_run :: "test \<Rightarrow> worker \<Rightarrow> (status \<times> string) \<times> worker"
  ro_events :: "event list"

datatype main_end = Main_exits int "string option" | Main_aborts string | Main_waits | Main_undefined

text \<open>As a worker: every exception ends the process with 1, the command to terminate with 0.\<close>

definition main_worker :: "'s roles \<Rightarrow> cli \<Rightarrow> main_end" where
  "main_worker r c =
    (case runWorker (ro_strerr r) (ro_sys1 r) (ro_fd r) (ro_connected r) (ep_super_address (cl_endpoint c)) (ro_raw r)
        (reg_tests (cl_registry c)) (ro_worker_run r) (ro_events r) (cl_worker_id c) worker_init of
       Gives (Loop_done k evs) \<Rightarrow> Main_exits 0 None
     | Gives (Loop_exits k) \<Rightarrow> Main_exits 0 None
     | Gives (Loop_waits k) \<Rightarrow> Main_waits
     | Gives Loop_undefined \<Rightarrow> Main_undefined
     | Addr_throws msg \<Rightarrow> Main_exits 1 None
     | Addr_exits \<Rightarrow> Main_exits 1 None
     | Addr_undefined \<Rightarrow> Main_undefined)"

definition main_config :: "string \<Rightarrow> string list \<Rightarrow> string \<Rightarrow> cli \<Rightarrow> (string \<times> string) list" where
  "main_config exe args cwd c =
    [(''executable'', exe), (''args'', jsonify_argv args 2), (''working_dir'', cwd),
     (''loaded_test_files'', jsonify_container (cl_loaded c) 2)]"

text \<open>
  As a driver: the context starts, then the suite runs. The second component of the end is the log. An
  exception of the start is caught by nobody.
\<close>

definition main_driver :: "'s roles \<Rightarrow> string \<Rightarrow> string list \<Rightarrow> string \<Rightarrow> cli \<Rightarrow> main_end" where
  "main_driver r exe args cwd c =
    (case fst (driver_start (ro_strerr r) (ro_sys1 r) (ro_sys2 r) (cl_endpoint c)) of
       Addr_throws msg \<Rightarrow> Main_aborts msg
     | Addr_exits \<Rightarrow> Main_exits 1 None
     | Addr_undefined \<Rightarrow> Main_undefined
     | Gives _ \<Rightarrow>
         (case runAll (ro_run r) (main_config exe args cwd c) (cl_modules c) (reg_tests (cl_registry c)) (ro_context r) of
            None \<Rightarrow> Main_undefined
          | Some (success, s, _) \<Rightarrow> Main_exits (if success then 0 else 1) (Some (s_out s))))"

definition main_program :: "host \<Rightarrow> 's roles \<Rightarrow> string \<Rightarrow> string list \<Rightarrow> string \<Rightarrow> cli \<Rightarrow> main_end" where
  "main_program h r exe args cwd c =
    (case parseArguments h args cwd c of
       Goes_on c \<Rightarrow> if cl_run_worker c then main_worker r c else main_driver r exe args cwd c
     | Exit_code n \<Rightarrow> Main_exits n None
     | Aborts msg \<Rightarrow> Main_aborts msg
     | Cli_undefined \<Rightarrow> Main_undefined)"

end
