(* ===== verification/Command_Line_Props.thy ===== *)
theory Command_Line_Props
  imports Command_Line Scheduler_Props Allocation_Props
begin

text \<open>
  What the program does with its arguments: the libraries it loads are the test files reachable in the
  directories named, options written in the usual way have their effects in order, a value that is missing is
  read past the last argument, and the exit status tells whether the tests that ran ended as expected.
\<close>

section \<open>Test files\<close>

text \<open>The test files of a tree in the order of the walk, loaded one after the other.\<close>

definition file_if_test :: "string \<Rightarrow> string list" where
  "file_if_test path = (if is_test_file path then [path] else [])"

fun test_files :: "string \<Rightarrow> node \<Rightarrow> string list"
  and entry_files :: "string \<Rightarrow> (string \<times> node) list \<Rightarrow> string list" where
  "test_files path (Directory readable es) = (if readable then entry_files path es else [])"
| "test_files path (Unresolved dir) = (if dir then [] else file_if_test path)"
| "test_files path Regular = file_if_test path"
| "entry_files path [] = []"
| "entry_files path ((name, node) # es) =
    (if skipped_name name then [] else test_files (child_path path name) node) @ entry_files path es"

fun load_list :: "host \<Rightarrow> string list \<Rightarrow> cli \<Rightarrow> cli cli_end" where
  "load_list h [] c = Goes_on c"
| "load_list h (p # ps) c = (case loadTests h p c of Goes_on c \<Rightarrow> load_list h ps c | r \<Rightarrow> r)"

text \<open>Every path of the walk fits its array.\<close>

fun paths_fit :: "string \<Rightarrow> node \<Rightarrow> bool"
  and entries_fit :: "string \<Rightarrow> (string \<times> node) list \<Rightarrow> bool" where
  "paths_fit path (Directory readable es) \<longleftrightarrow> readable \<longrightarrow> entries_fit path es"
| "paths_fit path (Unresolved dir) \<longleftrightarrow> True"
| "paths_fit path Regular \<longleftrightarrow> True"
| "entries_fit path [] \<longleftrightarrow> True"
| "entries_fit path ((name, node) # es) \<longleftrightarrow>
    (skipped_name name \<or> length (child_path path name) < PATH_MAX \<and> paths_fit (child_path path name) node)
      \<and> entries_fit path es"

lemma load_list_append: "load_list h (ps @ qs) c = (case load_list h ps c of Goes_on c \<Rightarrow> load_list h qs c | r \<Rightarrow> r)"
  by (induction ps arbitrary: c) (auto split: cli_end.splits)

lemma load_file_list: "load_file h path c = load_list h (file_if_test path) c"
  by (simp add: load_file_def file_if_test_def split: cli_end.splits)

lemma findTests_loads:
  "paths_fit path node \<Longrightarrow> findTests h path node c = load_list h (test_files path node) c"
  "entries_fit path es \<Longrightarrow> find_entries h path es c = load_list h (entry_files path es) c"
proof (induction path node and path es arbitrary: c and c rule: test_files_entry_files.induct)
  case (5 path name node es)
  then show ?case
    by (cases "skipped_name name") (auto simp: load_list_append Let_def split: cli_end.splits)
qed (simp_all add: load_file_list)

text \<open>The same files as a relation: what can be reached from a path through entries that are not skipped.\<close>

inductive found :: "string \<Rightarrow> node \<Rightarrow> string \<Rightarrow> bool" where
  found_regular: "is_test_file path \<Longrightarrow> found path Regular path"
| found_unresolved: "is_test_file path \<Longrightarrow> found path (Unresolved False) path"
| found_entry: "(name, node) \<in> set es \<Longrightarrow> \<not> skipped_name name \<Longrightarrow> found (child_path path name) node p \<Longrightarrow>
    found path (Directory True es) p"

inductive_simps found_Directory: "found path (Directory readable es) p"
inductive_simps found_Unresolved: "found path (Unresolved dir) p"
inductive_simps found_Regular: "found path Regular p"

lemma test_files_found:
  "set (test_files path node) = {p. found path node p}"
  "set (entry_files path es) = {p. \<exists>(name, node) \<in> set es. \<not> skipped_name name \<and> found (child_path path name) node p}"
proof (induction path node and path es rule: test_files_entry_files.induct)
  case (1 path readable es)
  then show ?case by (auto simp: found_Directory)
next
  case (2 path dir)
  then show ?case by (auto simp: found_Unresolved file_if_test_def)
next
  case (3 path)
  then show ?case by (auto simp: found_Regular file_if_test_def)
qed auto

text \<open>
  The same with the position of each file: the numbers of the entries that lead to it. The walk goes through the positions
  in lexicographic order.
\<close>

inductive found_at :: "string \<Rightarrow> node \<Rightarrow> nat list \<Rightarrow> string \<Rightarrow> bool" where
  at_regular: "is_test_file path \<Longrightarrow> found_at path Regular [] path"
| at_unresolved: "is_test_file path \<Longrightarrow> found_at path (Unresolved False) [] path"
| at_entry: "i < length es \<Longrightarrow> es ! i = (name, node) \<Longrightarrow> \<not> skipped_name name \<Longrightarrow> found_at (child_path path name) node pos p \<Longrightarrow>
    found_at path (Directory True es) (i # pos) p"

inductive_simps found_at_Directory: "found_at path (Directory readable es) pos p"
inductive_simps found_at_Unresolved: "found_at path (Unresolved dir) pos p"
inductive_simps found_at_Regular: "found_at path Regular pos p"

fun files_at :: "string \<Rightarrow> node \<Rightarrow> (nat list \<times> string) list"
  and entries_at :: "nat \<Rightarrow> string \<Rightarrow> (string \<times> node) list \<Rightarrow> (nat list \<times> string) list" where
  "files_at path (Directory readable es) = (if readable then entries_at 0 path es else [])"
| "files_at path (Unresolved dir) = (if dir then [] else map (Pair []) (file_if_test path))"
| "files_at path Regular = map (Pair []) (file_if_test path)"
| "entries_at i path [] = []"
| "entries_at i path ((name, node) # es) =
    (if skipped_name name then [] else map (\<lambda>(pos, p). (i # pos, p)) (files_at (child_path path name) node)) @ entries_at (Suc i) path es"

lemma files_at_paths:
  "map snd (files_at path node) = test_files path node"
  "map snd (entries_at i path es) = entry_files path es"
  by (induction path node and i path es rule: files_at_entries_at.induct) (simp_all add: o_def case_prod_unfold)

lemma found_at_entry: "found_at path (Directory readable es) pos p \<longleftrightarrow>
    readable \<and> (\<exists>k pos'. pos = k # pos' \<and> k < length es \<and> \<not> skipped_name (fst (es ! k))
      \<and> found_at (child_path path (fst (es ! k))) (snd (es ! k)) pos' p)"
  unfolding found_at_Directory by (metis fst_conv snd_conv prod.collapse)

lemma entries_from:
  "{(k # pos, p) | k pos p. i \<le> k \<and> k < i + length (e # es) \<and> P ((e # es) ! (k - i)) pos p}
    = {(i # pos, p) | pos p. P e pos p}
      \<union> {(k # pos, p) | k pos p. Suc i \<le> k \<and> k < Suc i + length es \<and> P (es ! (k - Suc i)) pos p}" (is "?L = ?R")
proof -
  have "i \<le> k \<and> k < i + length (e # es) \<and> P ((e # es) ! (k - i)) pos p
      \<longleftrightarrow> k = i \<and> P e pos p \<or> Suc i \<le> k \<and> k < Suc i + length es \<and> P (es ! (k - Suc i)) pos p" for k pos p
  proof (cases "k = i")
    case False
    then have "i \<le> k \<Longrightarrow> k - i = Suc (k - Suc i)"
      by simp
    then show ?thesis
      using False by auto
  qed simp
  then have "?L = {(k # pos, p) | k pos p. k = i \<and> P e pos p \<or> Suc i \<le> k \<and> k < Suc i + length es \<and> P (es ! (k - Suc i)) pos p}"
    by simp
  also have "\<dots> = ?R"
    by blast
  finally show ?thesis .
qed

lemma files_at_set:
  "set (files_at path node) = {(pos, p). found_at path node pos p}"
  "set (entries_at i path es) = {(k # pos, p) | k pos p. i \<le> k \<and> k < i + length es \<and> \<not> skipped_name (fst (es ! (k - i)))
     \<and> found_at (child_path path (fst (es ! (k - i)))) (snd (es ! (k - i))) pos p}"
proof (induction path node and i path es rule: files_at_entries_at.induct)
  case (1 path readable es)
  then show ?case
    by (simp add: found_at_entry) blast
next
  case (2 path dir)
  then show ?case by (auto simp: found_at_Unresolved file_if_test_def)
next
  case (3 path)
  then show ?case by (auto simp: found_at_Regular file_if_test_def)
next
  case (5 i path name node es)
  let ?P = "\<lambda>e pos p. \<not> skipped_name (fst e) \<and> found_at (child_path path (fst e)) (snd e) pos p"
  have "set (entries_at i path ((name, node) # es)) = {(i # pos, p) | pos p. ?P (name, node) pos p}
      \<union> {(k # pos, p) | k pos p. Suc i \<le> k \<and> k < Suc i + length es \<and> ?P (es ! (k - Suc i)) pos p}"
    using 5 by auto
  then show ?case
    unfolding entries_from [of i "(name, node)" es ?P, symmetric] .
qed simp

lemma entries_at_first: "(pos, p) \<in> set (entries_at i path es) \<Longrightarrow> \<exists>k pos'. pos = k # pos' \<and> i \<le> k"
  by (auto simp: files_at_set(2))

lemma files_at_sorted:
  "sorted_wrt ord_class.lexordp (map fst (files_at path node))"
  "sorted_wrt ord_class.lexordp (map fst (entries_at i path es))"
proof (induction path node and i path es rule: files_at_entries_at.induct)
  case (5 i path name node es)
  have "ord_class.lexordp (fst x) (fst y)"
    if "x \<in> set (map (\<lambda>(pos, p). (i # pos, p)) (files_at (child_path path name) node))" "y \<in> set (entries_at (Suc i) path es)" for x y
    using that entries_at_first [of "fst y" "snd y" "Suc i" path es] by auto
  moreover have "sorted_wrt ord_class.lexordp (map fst (map (\<lambda>(pos, p). (i # pos, p)) (files_at (child_path path name) node)))"
    if "\<not> skipped_name name"
    using 5(1) [OF that] by (simp add: sorted_wrt_map case_prod_unfold)
  ultimately show ?case
    using 5(2) by (auto simp: sorted_wrt_append)
qed (auto simp: file_if_test_def)

text \<open>Loading a list of libraries.\<close>

lemma load_list_result:
  "if \<forall>p \<in> set ps. ho_dlopen h p \<noteq> None
   then \<exists>c'. load_list h ps c = Goes_on c' \<and> cl_loaded c' = cl_loaded c @ ps
     \<and> cl_registry c' = fold (\<lambda>p. the (ho_dlopen h p)) ps (cl_registry c)
   else load_list h ps c = Exit_code 1"
proof (induction ps arbitrary: c)
  case (Cons p ps)
  show ?case
  proof (cases "ho_dlopen h p")
    case (Some init)
    let ?c = "c\<lparr>cl_loaded := cl_loaded c @ [p], cl_registry := init (cl_registry c),
      cl_memory := reinitialize (ho_dlsym h p) (ho_symsize h) (cl_memory c)\<rparr>"
    have "load_list h (p # ps) c = load_list h ps ?c"
      using Some by (simp add: loadTests_def Let_def)
    then show ?thesis
      using Cons.IH [of ?c] Some by (auto split: if_splits)
  qed (simp add: loadTests_def Let_def)
qed simp

lemma load_list_frame:
  "load_list h ps c = Goes_on c' \<Longrightarrow> cl_run_worker c' = cl_run_worker c \<and> cl_endpoint c' = cl_endpoint c"
  by (induction ps arbitrary: c) (force simp: loadTests_def Let_def split: cli_end.splits option.splits)+

section \<open>Options\<close>

text \<open>Options as the help text describes them, how they are written, and what they do.\<close>

datatype cli_option = Opt_port nat | Opt_workers nat | Opt_driver string | Opt_worker_id nat | Opt_module string | Opt_path string

fun render :: "cli_option \<Rightarrow> string list" where
  "render (Opt_port n) = [''--port'', show_nat n]"
| "render (Opt_workers n) = [''--workers'', show_nat n]"
| "render (Opt_driver s) = [''--driver'', s]"
| "render (Opt_worker_id n) = [''--worker-id'', show_nat n]"
| "render (Opt_module m) = [''--module'', m]"
| "render (Opt_path p) = [p]"

fun option_fits :: "cli_option \<Rightarrow> bool" where
  "option_fits (Opt_port n) \<longleftrightarrow> n < 2 ^ 31"
| "option_fits (Opt_workers n) \<longleftrightarrow> n < 2 ^ 31"
| "option_fits (Opt_worker_id n) \<longleftrightarrow> n < 2 ^ 31"
| "option_fits (Opt_path p) \<longleftrightarrow> take 1 p \<noteq> ''-''"
| "option_fits _ \<longleftrightarrow> True"

fun cli_bind :: "'a cli_end \<Rightarrow> ('a \<Rightarrow> 'b cli_end) \<Rightarrow> 'b cli_end" where
  "cli_bind (Goes_on a) f = f a"
| "cli_bind (Exit_code n) f = Exit_code n"
| "cli_bind (Aborts msg) f = Aborts msg"
| "cli_bind Cli_undefined f = Cli_undefined"

fun effect :: "host \<Rightarrow> cli_option \<Rightarrow> bool \<times> cli \<Rightarrow> (bool \<times> cli) cli_end" where
  "effect h (Opt_port n) (got, c) = Goes_on (got, c\<lparr>cl_endpoint := driver_setPort (of_nat n) (cl_endpoint c)\<rparr>)"
| "effect h (Opt_workers n) (got, c) = Goes_on (got, c\<lparr>cl_driver := addWorkers (of_nat n) (cl_driver c)\<rparr>)"
| "effect h (Opt_driver s) (got, c) =
    (case driver_setAddress (ho_lookup h) s (cl_endpoint c) of
       Gives e \<Rightarrow> Goes_on (got, c\<lparr>cl_run_worker := True, cl_endpoint := e\<rparr>)
     | Addr_throws msg \<Rightarrow> Aborts msg
     | Addr_exits \<Rightarrow> Exit_code 1
     | Addr_undefined \<Rightarrow> Cli_undefined)"
| "effect h (Opt_worker_id n) (got, c) = Goes_on (got, c\<lparr>cl_worker_id := of_nat n\<rparr>)"
| "effect h (Opt_module m) (got, c) = Goes_on (got, c\<lparr>cl_modules := set_insert m (cl_modules c)\<rparr>)"
| "effect h (Opt_path p) (got, c) =
    (if ho_access h p then cli_bind (findTests h p (ho_node h p) c) (\<lambda>c. Goes_on (True, c)) else Exit_code 1)"

fun effects :: "host \<Rightarrow> cli_option list \<Rightarrow> bool \<times> cli \<Rightarrow> (bool \<times> cli) cli_end" where
  "effects h [] s = Goes_on s"
| "effects h (opt # opts) s = cli_bind (effect h opt s) (effects h opts)"

lemma lower_digit: "is_digit c \<Longrightarrow> \<not> is_blank c \<and> c \<noteq> CHR ''-'' \<and> c \<noteq> CHR ''+''"
  by (auto simp: is_digit_def is_blank_def of_char_def)

lemma atoi_show: "n < 2 ^ 31 \<Longrightarrow> atoi (show_nat n) = Some (int n)"
proof -
  assume n: "n < 2 ^ 31"
  have digits: "\<forall>c \<in> set (show_nat n). is_digit c"
    using show_nat_digits by blast
  obtain d ds where d: "show_nat n = d # ds"
    by (cases "show_nat n") (auto simp: show_nat.simps [of n] split: if_splits)
  have first: "\<not> is_blank d" "d \<noteq> CHR ''-''" "d \<noteq> CHR ''+''"
    using digits d lower_digit [of d] by auto
  have "takeWhile is_digit (d # ds) = d # ds"
    using digits d by (simp add: takeWhile_eq_all_conv)
  then show ?thesis
    using n first read_show [of n] by (simp add: atoi_def d Let_def)
qed

lemma option_names:
  "strcaseeq ''--port'' ''--port''" "\<not> strcaseeq ''--workers'' ''--port''" "strcaseeq ''--workers'' ''--workers''"
  "\<not> strcaseeq ''--driver'' ''--port''" "\<not> strcaseeq ''--driver'' ''--workers''" "strcaseeq ''--driver'' ''--driver''"
  "\<not> strcaseeq ''--worker-id'' ''--port''" "\<not> strcaseeq ''--worker-id'' ''--workers''" "\<not> strcaseeq ''--worker-id'' ''--driver''"
  "strcaseeq ''--worker-id'' ''--worker-id''"
  "\<not> strcaseeq ''--module'' ''--port''" "\<not> strcaseeq ''--module'' ''--workers''" "\<not> strcaseeq ''--module'' ''--driver''"
  "\<not> strcaseeq ''--module'' ''--worker-id''" "strcaseeq ''--module'' ''--module''"
  by (simp_all add: strcaseeq_def lower_def)

lemma parse_option:
  assumes "option_fits opt"
  shows "parse_args h (render opt @ args) got c = cli_bind (effect h opt (got, c)) (\<lambda>(got, c). parse_args h args got c)"
  using assms
  by (cases opt) (auto simp: option_names atoi_show split: addr_result.splits cli_end.splits)

lemma parse_options:
  "\<forall>opt \<in> set opts. option_fits opt \<Longrightarrow>
     parse_args h (concat (map render opts) @ args) got c = cli_bind (effects h opts (got, c)) (\<lambda>(got, c). parse_args h args got c)"
proof (induction opts arbitrary: got c)
  case (Cons opt opts)
  then show ?case
    using parse_option [of opt h "concat (map render opts) @ args" got c]
    by (cases "effect h opt (got, c)") auto
qed simp

definition value_options :: "string set" where
  "value_options = {''--port'', ''--workers'', ''--driver'', ''--worker-id'', ''--module''}"

lemma parse_missing: "flag \<in> value_options \<Longrightarrow> parse_args h [flag] got c = Cli_undefined"
  by (auto simp: value_options_def option_names)

section \<open>The workers listed by number\<close>

text \<open>\<^verbatim>\<open>--workers\<close> enters the workers from 0, the number the driver has itself; allocation can work with the table.\<close>

lemma add_worker_absent:
  assumes "table_ok (dr_workers d)" and "i \<notin> set (map fst (dr_workers d))"
  shows "map fst (dr_workers (addWorker i d)) = map fst (dr_workers d) @ [i]" and "table_ok (dr_workers (addWorker i d))"
proof -
  have absent: "um_find i (dr_workers d) = None"
    using assms(2) by (rule table_ok_absent)
  then show "map fst (dr_workers (addWorker i d)) = map fst (dr_workers d) @ [i]"
    by (simp add: addWorker_def assign_at_def um_set_absent)
  have "dr_workers (addWorker i d) = um_set i (handle_assign handle_default (handle_new i 0)) (dr_workers d)"
    using absent by (simp add: addWorker_def assign_at_def)
  then show "table_ok (dr_workers (addWorker i d))"
    using table_ok_set [OF assms(1), of "handle_assign handle_default (handle_new i 0)" i]
    by (simp add: handle_assign_def handle_new_def)
qed

lemma add_workers_ids:
  "k \<le> 2 ^ 32 \<Longrightarrow> map fst (dr_workers (fold (\<lambda>i. addWorker (of_nat i)) [0..<k] driver_init)) = map of_nat [0..<k]
     \<and> table_ok (dr_workers (fold (\<lambda>i. addWorker (of_nat i)) [0..<k] driver_init))"
proof (induction k)
  case 0
  then show ?case by (simp add: driver_init_def table_ok_def um_invar_def)
next
  case (Suc k)
  let ?d = "fold (\<lambda>i. addWorker (of_nat i)) [0..<k] driver_init"
  have d: "map fst (dr_workers ?d) = map of_nat [0..<k]" "table_ok (dr_workers ?d)"
    using Suc by simp_all
  have neq: "(of_nat k :: u32) \<noteq> of_nat j" if "j < k" for j
    using that Suc.prems by (auto simp: unat_of_nat take_bit_nat_eq_self dest!: arg_cong [of _ _ unat])
  have "of_nat k \<notin> set (map fst (dr_workers ?d))"
    unfolding d(1) using neq by (simp add: image_iff)
  from add_worker_absent [OF d(2) this] show ?case
    by (simp add: d(1))
qed

theorem workers_from_zero:
  "map fst (dr_workers (addWorkers n driver_init)) = map of_nat [0..<unat n] \<and> fresh_ids (addWorkers n driver_init)"
proof -
  have n: "unat n \<le> 2 ^ 32"
    using unsigned_less [of n, where 'a = nat] by simp
  note w = add_workers_ids [OF n]
  have len: "length (dr_workers (fold (\<lambda>i. addWorker (of_nat i)) [0..<unat n] driver_init)) = unat n"
    using arg_cong [OF conjunct1 [OF w], of length] by simp
  have "unat i \<le> unat n" if "i \<in> set (map of_nat [0..<unat n])" for i :: u32
    using that n by (auto simp: unat_of_nat take_bit_nat_eq_self)
  then show ?thesis
    using w len by (simp add: addWorkers_def fresh_ids_def del: set_map)
qed

section \<open>The registry while arguments are read\<close>

text \<open>The static objects of a test library only define and configure tests.\<close>

definition registers_tests :: "host \<Rightarrow> bool" where
  "registers_tests h \<longleftrightarrow> (\<forall>p init. ho_dlopen h p = Some init \<longrightarrow> (\<exists>es. init = fold reg_apply es))"

lemma dlopen_ok: "registers_tests h \<Longrightarrow> ho_dlopen h p = Some init \<Longrightarrow> registry_ok r \<Longrightarrow> registry_ok (init r)"
  unfolding registers_tests_def using fold_reg_ok by blast

lemma load_file_ok:
  assumes "registers_tests h" and "registry_ok (cl_registry c)" and "load_file h p c = Goes_on c'"
  shows "registry_ok (cl_registry c')"
  using assms
  by (auto simp: load_file_def loadTests_def Let_def dlopen_ok split: if_splits option.splits)

lemma findTests_ok:
  "registers_tests h \<Longrightarrow> registry_ok (cl_registry c) \<Longrightarrow> findTests h path node c = Goes_on c' \<Longrightarrow> registry_ok (cl_registry c')"
  "registers_tests h \<Longrightarrow> registry_ok (cl_registry c) \<Longrightarrow> find_entries h path es c = Goes_on c' \<Longrightarrow> registry_ok (cl_registry c')"
proof (induction h path node c and h path es c arbitrary: c' and c' rule: findTests_find_entries.induct)
  case (1 h path readable es c)
  then show ?case by (cases readable) auto
next
  case (2 h path dir c)
  then show ?case by (cases dir) (auto intro: load_file_ok)
next
  case (3 h path c)
  then show ?case by (auto intro: load_file_ok)
next
  case (5 h path name node es c)
  show ?case
  proof (cases "skipped_name name")
    case True
    then have "find_entries h path es c = Goes_on c'"
      using 5(6) by (simp only: find_entries.simps if_True)
    then show ?thesis
      by (rule 5(1) [OF True 5(4,5)])
  next
    case False
    then obtain c1 where c1: "findTests h (child_path path name) node c = Goes_on c1" "find_entries h path es c1 = Goes_on c'"
        "\<not> PATH_MAX \<le> length (child_path path name)"
      using 5(6) by (auto simp: Let_def split: if_splits cli_end.splits)
    have "registry_ok (cl_registry c1)"
      by (rule 5(2) [OF False refl c1(3) 5(4,5) c1(1)])
    then show ?thesis
      by (rule 5(3) [OF False refl c1(3) c1(1) 5(4) _ c1(2)])
  qed
qed simp

text \<open>One step of the scan: the arguments left, and what has become of the registry.\<close>

lemma parse_args_step:
  assumes "parse_args h (a # args) got c = Goes_on r"
  shows "\<exists>args' got' c'. length args' \<le> length args \<and> parse_args h args' got' c' = Goes_on r
    \<and> (cl_registry c' = cl_registry c \<or> findTests h a (ho_node h a) c = Goes_on c')"
proof (cases "take 1 a = ''-''")
  case False
  then show ?thesis
    using assms by (auto split: if_splits cli_end.splits)
next
  case True
  show ?thesis
  proof (cases args)
    case Nil
    then show ?thesis
      using assms True by (simp split: if_splits)
  next
    case (Cons v rest)
    define goal where "goal \<longleftrightarrow> (\<exists>args' got' c'. length args' \<le> length args \<and> parse_args h args' got' c' = Goes_on r
      \<and> (cl_registry c' = cl_registry c \<or> findTests h a (ho_node h a) c = Goes_on c'))"
    have same: goal if "parse_args h rest got c' = Goes_on r" "cl_registry c' = cl_registry c" for c'
      unfolding goal_def using that Cons by (intro exI [of _ rest] exI [of _ got] exI [of _ c']) simp
    have goal
      using assms [unfolded Cons] True by (auto split: if_splits option.splits addr_result.splits intro: same)
    then show ?thesis
      unfolding goal_def .
  qed
qed

lemma parse_args_ok:
  "registers_tests h \<Longrightarrow> registry_ok (cl_registry c) \<Longrightarrow> parse_args h args got c = Goes_on (got', c') \<Longrightarrow> registry_ok (cl_registry c')"
proof (induction "length args" arbitrary: args got c rule: less_induct)
  case less
  show ?case
  proof (cases args)
    case Nil
    then show ?thesis using less.prems by simp
  next
    case (Cons a rest)
    obtain args' got1 c1 where s: "length args' \<le> length rest" "parse_args h args' got1 c1 = Goes_on (got', c')"
        "cl_registry c1 = cl_registry c \<or> findTests h a (ho_node h a) c = Goes_on c1"
      using parse_args_step [OF less.prems(3) [unfolded Cons]] by blast
    have "registry_ok (cl_registry c1)"
      using s(3) less.prems(2) findTests_ok(1) [OF less.prems(1,2)] by auto
    then show ?thesis
      using less.hyps [OF _ less.prems(1) _ s(2)] s(1) Cons by simp
  qed
qed

lemma parseArguments_ok:
  assumes "registers_tests h" and "registry_ok (cl_registry c)" and "parseArguments h args cwd c = Goes_on c'"
  shows "registry_ok (cl_registry c')"
proof -
  obtain got c1 where c1: "parse_args h args False c = Goes_on (got, c1)" "c' = c1 \<or> findTests h cwd (ho_node h cwd) c1 = Goes_on c'"
    using assms(3) by (auto simp: parseArguments_def split: cli_end.splits if_splits)
  have "registry_ok (cl_registry c1)"
    by (rule parse_args_ok [OF assms(1,2) c1(1)])
  then show ?thesis
    using c1(2) findTests_ok(1) [OF assms(1)] by blast
qed


section \<open>Examples\<close>

definition sample_tree :: node where
  "sample_tree = Directory True
    [(''.'', Regular), (''suite.dtest.so'', Regular), (''dtest'', Directory True [(''own.dtest.so'', Regular)]),
     (''lib'', Directory True [(''NET.DTEST.SO'', Regular), (''net.so'', Regular)]), (''gone.dtest.so'', Unresolved True)]"

definition sample_library :: "string \<Rightarrow> reg_event list option" where
  "sample_library p =
    (if p = ''t/suite.dtest.so'' then Some [Register ''app'' ''b'', Depends ''app'' 0 [''net'']]
     else if p = ''t/lib/NET.DTEST.SO'' then Some [Register ''net'' ''a''] else None)"

definition sample_host :: host where
  "sample_host =
    \<lparr>ho_access = (\<lambda>p. p = ''t''), ho_node = (\<lambda>_. sample_tree),
     ho_dlopen = (\<lambda>p. map_option (fold reg_apply) (sample_library p)),
     ho_dlsym = (\<lambda>_ _. 0), ho_symsize = (\<lambda>_. 0), ho_lookup = numeric_lookup\<rparr>"

definition cli_start :: cli where
  "cli_start =
    \<lparr>cl_run_worker = False, cl_worker_id = 0, cl_modules = [], cl_loaded = [], cl_driver = driver_init,
     cl_endpoint = no_endpoint 0, cl_registry = registry_empty, cl_memory = memory_fields\<rparr>"

lemma sample_files:
  "test_files ''t'' sample_tree = [''t/suite.dtest.so'', ''t/lib/NET.DTEST.SO'']"
  "paths_fit ''t'' sample_tree"
  by code_simp+

lemma sample_loads: "\<forall>p. found ''t'' sample_tree p \<longrightarrow> ho_dlopen sample_host p \<noteq> None"
proof -
  have "{p. found ''t'' sample_tree p} = {''t/suite.dtest.so'', ''t/lib/NET.DTEST.SO''}"
    unfolding test_files_found(1) [symmetric] sample_files(1) by simp
  then have "found ''t'' sample_tree p \<longleftrightarrow> p = ''t/suite.dtest.so'' \<or> p = ''t/lib/NET.DTEST.SO''" for p
    by (auto simp: set_eq_iff)
  then show ?thesis
    by (simp add: sample_host_def sample_library_def)
qed

section \<open>Properties\<close>

text \<open>C25. Searching a directory tree loads exactly the test files that can be reached in it without passing
  a directory named \<^verbatim>\<open>dtest\<close>, each once and in the order of the walk: entry by entry, a directory's files
  before its later siblings. Each library's tests are registered when it is loaded; when one
  of them cannot be loaded the program ends with 1, whatever the others are.\<close>

theorem find_tests_exact:
  assumes "paths_fit path node"
  shows "if \<forall>p. found path node p \<longrightarrow> ho_dlopen h p \<noteq> None
     then \<exists>c' at. findTests h path node c = Goes_on c'
       \<and> set at = {(pos, p). found_at path node pos p} \<and> sorted_wrt ord_class.lexordp (map fst at)
       \<and> cl_loaded c' = cl_loaded c @ map snd at \<and> set (map snd at) = {p. found path node p}
       \<and> cl_registry c' = fold (\<lambda>p. the (ho_dlopen h p)) (map snd at) (cl_registry c)
     else findTests h path node c = Exit_code 1"
proof (cases "\<forall>p. found path node p \<longrightarrow> ho_dlopen h p \<noteq> None")
  case True
  then have "\<forall>p \<in> set (test_files path node). ho_dlopen h p \<noteq> None"
    using test_files_found(1) [of path node] by blast
  then obtain c' where "load_list h (test_files path node) c = Goes_on c'" "cl_loaded c' = cl_loaded c @ test_files path node"
      "cl_registry c' = fold (\<lambda>p. the (ho_dlopen h p)) (test_files path node) (cl_registry c)"
    using load_list_result [of "test_files path node" h c] by auto
  then show ?thesis
    unfolding if_P [OF True] findTests_loads(1) [OF assms] test_files_found(1) [symmetric] files_at_paths(1) [symmetric]
    using files_at_set(1) [of path node] files_at_sorted(1) [of path node] by blast
next
  case False
  then have "\<not> (\<forall>p \<in> set (test_files path node). ho_dlopen h p \<noteq> None)"
    using test_files_found(1) [of path node] by blast
  then show ?thesis
    using False load_list_result [of "test_files path node" h c] findTests_loads(1) [OF assms, of h c] by (simp only: if_False)
qed

theorem find_tests_exact_witness:
  "\<exists>c' at. findTests sample_host ''t'' sample_tree cli_start = Goes_on c' \<and> cl_loaded c' = map snd at
     \<and> sorted_wrt ord_class.lexordp (map fst at) \<and> ([1 :: nat], ''t/suite.dtest.so'') \<in> set at \<and> ([3 :: nat, 0], ''t/lib/NET.DTEST.SO'') \<in> set at"
proof -
  obtain c' at where r: "findTests sample_host ''t'' sample_tree cli_start = Goes_on c'"
      "set at = {(pos, p). found_at ''t'' sample_tree pos p}" "sorted_wrt ord_class.lexordp (map fst at)"
      "cl_loaded c' = cl_loaded cli_start @ map snd at"
    using find_tests_exact [OF sample_files(2), of sample_host cli_start] unfolding if_P [OF sample_loads] by blast
  have "([1 :: nat], ''t/suite.dtest.so'') \<in> set (files_at ''t'' sample_tree)" "([3 :: nat, 0], ''t/lib/NET.DTEST.SO'') \<in> set (files_at ''t'' sample_tree)"
    by code_simp+
  then show ?thesis
    using r unfolding files_at_set(1) by (intro exI [of _ c'] exI [of _ at]) (simp add: cli_start_def)
qed

text \<open>C26. Options written as the help text says take their effects from left to right, numbers that fit an \<^verbatim>\<open>int\<close> being
  read as written; an option that stands last without its value makes the program read past the end of its
  arguments.\<close>

theorem options_take_effect:
  assumes "\<forall>opt \<in> set opts. option_fits opt"
  shows "parse_args h (concat (map render opts)) got c = effects h opts (got, c)
     \<and> (\<forall>flag \<in> value_options. \<forall>s. effects h opts (got, c) = Goes_on s \<longrightarrow>
          parse_args h (concat (map render opts) @ [flag]) got c = Cli_undefined)"
proof -
  have "cli_bind r (\<lambda>(got, c). Goes_on (got, c)) = r" for r :: "(bool \<times> cli) cli_end"
    by (cases r) auto
  then show ?thesis
    using parse_options [OF assms, of h "[]" got c] parse_options [OF assms, of h "[_]" got c] parse_missing by simp
qed

theorem options_take_effect_witness:
  "parse_args sample_host [''--workers'', show_nat 3, ''--module'', ''net'', ''--port'', show_nat 70000] False cli_start
     = effects sample_host [Opt_workers 3, Opt_module ''net'', Opt_port 70000] (False, cli_start)
   \<and> parse_args sample_host [''--workers'', show_nat 3, ''--module'', ''net'', ''--port'', show_nat 70000, ''--worker-id''] False cli_start
     = Cli_undefined"
proof -
  let ?opts = "[Opt_workers 3, Opt_module ''net'', Opt_port 70000]"
  have opts: "concat (map render ?opts) = [''--workers'', show_nat 3, ''--module'', ''net'', ''--port'', show_nat 70000]"
    "\<forall>opt \<in> set ?opts. option_fits opt"
    by simp_all
  obtain s where s: "effects sample_host ?opts (False, cli_start) = Goes_on s"
    by simp
  have flag: "''--worker-id'' \<in> value_options"
    by (simp add: value_options_def)
  note o = options_take_effect [OF opts(2), of sample_host False cli_start, unfolded opts(1)]
  show ?thesis
    using conjunct1 [OF o] conjunct2 [OF o, rule_format, OF flag s] by (simp only: append.simps simp_thms)
qed

text \<open>C8. From the arguments to the exit status: a driver whose libraries only define and configure tests
  and whose sockets open runs the suite of the tests found, with the modules asked for, writes its log, and
  exits with 0 exactly when every test that was run ended as it was expected to.\<close>

theorem exit_status:
  assumes "parseArguments h args cwd c = Goes_on c1" and "\<not> cl_run_worker c1"
    and "registers_tests h" and "registry_ok (cl_registry c)" and "ro_run r = test_run ops drv n"
    and "fst (driver_start (ro_strerr r) (ro_sys1 r) (ro_sys2 r) (cl_endpoint c1)) = Gives ()"
  shows "\<exists>s success ctx. runAll (test_run ops drv n) (main_config exe args cwd c1) (cl_modules c1) (reg_tests (cl_registry c1)) (ro_context r)
        = Some (success, s, ctx)
     \<and> main_program h r exe args cwd c = Main_exits (if \<forall>(i, t) \<in> set (s_finished s). t_success t then 0 else 1) (Some (s_out s))
     \<and> registry_ok (cl_registry c1) \<and> s_total s = of_nat (length (all_tests (reg_tests (cl_registry c1))))"
proof -
  have ok: "registry_ok (cl_registry c1)"
    by (rule parseArguments_ok [OF assms(3,4,1)])
  from runner.runAll_inv [OF registry_ok_ready [OF ok], of ops drv n "main_config exe args cwd c1" "cl_modules c1" "ro_context r"]
  obtain s ctx where s: "runAll (test_run ops drv n) (main_config exe args cwd c1) (cl_modules c1) (reg_tests (cl_registry c1)) (ro_context r)
        = Some (s_success s, s, ctx)" "counts_inv s" "s_total s = of_nat (length (all_tests (reg_tests (cl_registry c1))))"
    by blast
  have "s_success s = list_all t_success (map snd (s_finished s))"
    using s(2) unfolding counts_inv_def Let_def by blast
  then have success: "s_success s \<longleftrightarrow> (\<forall>(i, t) \<in> set (s_finished s). t_success t)"
    by (auto simp: list_all_iff)
  have "main_program h r exe args cwd c = Main_exits (if s_success s then 0 else 1) (Some (s_out s))"
    using assms(1,2,5,6) s(1) by (simp add: main_program_def main_driver_def)
  then show ?thesis
    unfolding success using ok s(1,3) by blast
qed

definition sample_roles :: "unit roles" where
  "sample_roles =
    \<lparr>ro_strerr = [], ro_sys1 = sample_server 7000, ro_sys2 = sample_server 7001, ro_run = test_run sample_ops True 0,
     ro_context = (), ro_fd = 3, ro_connected = True, ro_raw = (\<lambda>_. 0),
     ro_worker_run = (\<lambda>t k. ((PASS, []), k)), ro_events = []\<rparr>"

lemma sample_registers: "registers_tests sample_host"
  by (auto simp: registers_tests_def sample_host_def)

lemma sample_driver: "fst (driver_start [] (sample_server 7000) (sample_server 7001) e) = Gives ()"
  by (simp add: driver_start_def start_socket_def sample_socket)

theorem exit_status_witness:
  "\<exists>c1. \<exists>s :: sched. parseArguments sample_host [''t''] ''t'' cli_start = Goes_on c1 \<and> cl_loaded c1 = [''t/suite.dtest.so'', ''t/lib/NET.DTEST.SO'']
     \<and> main_program sample_host sample_roles ''dtest'' [''t''] ''t'' cli_start
       = Main_exits (if \<forall>(i, t) \<in> set (s_finished s). t_success t then 0 else 1) (Some (s_out s))"
proof -
  have "\<forall>p \<in> set (test_files ''t'' sample_tree). ho_dlopen sample_host p \<noteq> None"
    using sample_loads test_files_found(1) [of "''t''" sample_tree] by blast
  then obtain c1 where c1: "findTests sample_host ''t'' sample_tree cli_start = Goes_on c1"
      "cl_loaded c1 = cl_loaded cli_start @ [''t/suite.dtest.so'', ''t/lib/NET.DTEST.SO'']"
    using load_list_result [of "test_files ''t'' sample_tree" sample_host cli_start]
    unfolding findTests_loads(1) [OF sample_files(2)] sample_files(1) by auto
  have p: "parseArguments sample_host [''t''] ''t'' cli_start = Goes_on c1"
    using c1(1) by (simp add: parseArguments_def sample_host_def)
  have worker: "\<not> cl_run_worker c1"
    using load_list_frame [of sample_host "test_files ''t'' sample_tree" cli_start c1] c1(1)
    unfolding findTests_loads(1) [OF sample_files(2)] by (simp add: cli_start_def)
  have reg: "registry_ok (cl_registry cli_start)"
    by (simp add: cli_start_def registry_empty_ok)
  have roles: "ro_run sample_roles = test_run sample_ops True 0"
    "fst (driver_start (ro_strerr sample_roles) (ro_sys1 sample_roles) (ro_sys2 sample_roles) (cl_endpoint c1)) = Gives ()"
    by (simp_all add: sample_roles_def sample_driver)
  from exit_status [OF p worker sample_registers reg roles, of "''dtest''"] obtain s :: sched where
      "main_program sample_host sample_roles ''dtest'' [''t''] ''t'' cli_start
       = Main_exits (if \<forall>(i, t) \<in> set (s_finished s). t_success t then 0 else 1) (Some (s_out s))"
    by (elim exE conjE) (rule that)
  moreover have "cl_loaded c1 = [''t/suite.dtest.so'', ''t/lib/NET.DTEST.SO'']"
    using c1(2) by (simp add: cli_start_def)
  ultimately show ?thesis
    using p by blast
qed

end
