(* ===== verification/User_Messages.thy ===== *)
theory User_Messages
  imports Contexts_Props
begin

text \<open>
  The macros of \<^verbatim>\<open>include/dtest.h\<close> with which the driver's and the workers' parts of a test talk:
  \<^verbatim>\<open>dtest_send_msg(a << b << ...)\<close> and \<^verbatim>\<open>dtest_recv_msg(a >> b >> ...)\<close>. The series of values is a function that
  inserts or extracts them; the laws it needs are those of the locale of the encodings.
\<close>

section \<open>The macros\<close>

definition driver_send_msg :: "(nat \<Rightarrow> u8) \<Rightarrow> (message \<Rightarrow> message option) \<Rightarrow> driver \<Rightarrow> driver option" where
  "driver_send_msg raw put d =
    Option.bind (Option.bind (driver_createUserMessage raw) put) (\<lambda>m. map_option snd (driver_sendUserMessage m d))"

definition worker_send_msg :: "(nat \<Rightarrow> u8) \<Rightarrow> (message \<Rightarrow> message option) \<Rightarrow> worker \<Rightarrow> worker option" where
  "worker_send_msg raw put k =
    Option.bind (Option.bind (worker_createUserMessage raw k) put) (\<lambda>m. map_option snd (worker_sendUserMessage m k))"

text \<open>The extraction from the message that was received; a waiting call has no value yet.\<close>

fun extract_value :: "(message \<Rightarrow> ('a \<times> message) option) \<Rightarrow> (message option \<times> 'd) loop_end \<Rightarrow> ('a option \<times> 'd) loop_end" where
  "extract_value get (Loop_done (None, d) evs) = Loop_undefined"
| "extract_value get (Loop_done (Some m, d) evs) =
    (case get m of None \<Rightarrow> Loop_undefined | Some (x, _) \<Rightarrow> Loop_done (Some x, d) evs)"
| "extract_value get (Loop_waits (_, d)) = Loop_waits (None, d)"
| "extract_value get (Loop_exits (_, d)) = Loop_exits (None, d)"
| "extract_value get Loop_undefined = Loop_undefined"

definition driver_recv_msg :: "(nat \<Rightarrow> u8) \<Rightarrow> (message \<Rightarrow> ('a \<times> message) option) \<Rightarrow> event list \<Rightarrow> driver \<Rightarrow>
    ('a option \<times> driver) loop_end" where
  "driver_recv_msg raw get evs d = extract_value get (driver_getUserMessage raw evs d)"

definition worker_recv_msg :: "(nat \<Rightarrow> u8) \<Rightarrow> (string, test list) umap \<Rightarrow> (test \<Rightarrow> worker \<Rightarrow> (status \<times> string) \<times> worker) \<Rightarrow>
    (message \<Rightarrow> ('a \<times> message) option) \<Rightarrow> event list \<Rightarrow> worker \<Rightarrow> ('a option \<times> worker) loop_end" where
  "worker_recv_msg raw tests run get evs k = extract_value get (worker_getUserMessage raw tests run evs k)"

section \<open>Frames\<close>

text \<open>A frame with an operation, received.\<close>

definition op_frame :: "opcode \<Rightarrow> u8 list \<Rightarrow> u8 list" where
  "op_frame op body = word_bytes (of_nat (8 + length (word_bytes (op_code op) @ body)) :: u64) @ word_bytes (op_code op) @ body"

lemma op_frame_received:
  assumes "frame_arrives answers (2 + length body)" and "length body < 2 ^ 61"
  obtains m m1 x where "event_msg raw (Conn answers (op_frame op body)) = Some m" and "shr_word m = Some (op_code op, m1)"
    and "msg_ok 0 m1" and "unread m1 = body @ x"
proof -
  let ?body = "word_bytes (op_code op) @ body"
  have len: "length ?body = 2 + length body"
    by (simp add: size_of_def)
  have "msg_ok (length ?body + 1024) (message_new raw DEFAULT_BUFFER_SIZE)" "frame_arrives answers (length ?body)"
    unfolding len using assms by (simp_all add: new_message_ok)
  from msg_recv_arrives [OF this(2,1), of raw "[]"] obtain m answers' x where
      m: "msg_recv raw answers (word_bytes (of_nat (8 + length ?body) :: u64) @ ?body) (message_new raw DEFAULT_BUFFER_SIZE) = (Received m, [], answers')"
        "msg_has m" "msg_ok 0 m" "unread m = ?body @ x"
    by auto
  have u: "unread m = word_bytes (op_code op) @ (body @ x)"
    using m(4) by simp
  let ?m1 = "m\<lparr>msg_pos := msg_pos m + length (word_bytes (op_code op))\<rparr>"
  have r: "shr_word m = Some (op_code op, ?m1)"
    by (rule word.get_reads [OF _ m(3) u]) simp
  have "event_msg raw (Conn answers (op_frame op body)) = Some m"
    using m(1,2) by (simp add: op_frame_def)
  from that [OF this r advance_ok [OF u m(3)] unread_advance [OF u]] show thesis .
qed

text \<open>Sending a message leaves it such that sending it again gives the same bytes.\<close>

lemma msg_send_again: "msg_send m = Some (bs, m') \<Longrightarrow> msg_send m' = Some (bs, m')"
  by (auto simp: msg_send_def Let_def size_of_def split: if_splits)

lemma send_each_same:
  "msg_send m = Some (bs, m') \<Longrightarrow>
     \<exists>m2. send_each is m d = Some (m2, d\<lparr>dr_sent := dr_sent d @ map (\<lambda>i. (i, bs)) is\<rparr>)"
proof (induction "is" arbitrary: m d)
  case (Cons i "is")
  from Cons.IH [OF msg_send_again [OF Cons.prems], of "send_to i bs d"] show ?case
    using Cons.prems by (auto simp: send_to_def)
qed simp

section \<open>Sending\<close>

text \<open>\<^verbatim>\<open>packet\<close> and the two ways of sending a user message produce the same frames.\<close>

lemma packet_message:
  assumes "packet raw op put = Some bs"
  obtains m m' where "Option.bind (op_message raw op) put = Some m" and "msg_send m = Some (bs, m')"
  using assms by (auto simp: packet_def bind_eq_Some_conv)

context field
begin

lemma user_packet:
  assumes "valid x" and "cost x < 2 ^ 62"
  shows "packet raw op (put x) = Some (op_frame op (enc x))"
  unfolding op_frame_def
  by (rule packet_frame [where cost = "cost x"]) (use put_appends [OF assms(1), of 0] assms(2) in auto)

lemma driver_sends:
  assumes "valid x" and "cost x < 2 ^ 62"
  shows "driver_send_msg raw (put x) d
    = Some (d\<lparr>dr_sent := dr_sent d @ map (\<lambda>i. (i, op_frame OP_USER_MESSAGE (enc x))) (allocated_ids d)\<rparr>)"
proof -
  obtain m m' where m: "Option.bind (op_message raw OP_USER_MESSAGE) (put x) = Some m"
      "msg_send m = Some (op_frame OP_USER_MESSAGE (enc x), m')"
    by (rule packet_message [OF user_packet [OF assms]])
  from send_each_same [OF m(2), of "allocated_ids d" d] show ?thesis
    using m(1) by (auto simp: driver_send_msg_def driver_createUserMessage_def driver_sendUserMessage_def)
qed

lemma worker_receives:
  assumes "valid x" and "frame_arrives answers (2 + length (enc x))"
    and "length (enc x) < 2 ^ 61" and "k_messages k = []"
  shows "worker_recv_msg raw tests run get (Conn answers (op_frame OP_USER_MESSAGE (enc x)) # evs) k = Loop_done (Some x, k) evs"
proof -
  let ?ev = "Conn answers (op_frame OP_USER_MESSAGE (enc x))"
  obtain m m1 y where m: "event_msg raw ?ev = Some m" "shr_word m = Some (op_code OP_USER_MESSAGE, m1)" "msg_ok 0 m1" "unread m1 = enc x @ y"
    by (rule op_frame_received [OF assms(2,3)])
  have "worker_handler raw tests run m k = Handled () (k\<lparr>k_messages := [m1]\<rparr>)"
    using m(2) assms(4) by (simp add: worker_handler_def)
  then have "wait_event raw (worker_handler raw tests run) (?ev # evs) k = Event () (k\<lparr>k_messages := [m1]\<rparr>) evs"
    using wait_event_message [OF m(1), of "worker_handler raw tests run" evs k] by simp
  then have "worker_getUserMessage raw tests run (?ev # evs) k = Loop_done (Some m1, k\<lparr>k_messages := []\<rparr>) evs"
    using assms(4) by (simp add: worker_getUserMessage_def event_loop.simps [of _ _ _ _ "?ev # evs"] event_loop.simps [of _ _ _ _ evs]
        del: wait_event.simps)
  moreover have "k\<lparr>k_messages := []\<rparr> = k"
    using assms(4) by simp
  ultimately show ?thesis
    using get_reads [OF assms(1) m(3,4)] by (simp add: worker_recv_msg_def)
qed

lemma driver_receives:
  assumes "valid x" and "frame_arrives answers (6 + length (enc x))"
    and "length (enc x) < 2 ^ 60" and "dr_messages d = []"
  shows "driver_recv_msg raw get (Conn answers (op_frame OP_USER_MESSAGE (word_bytes (i :: u32) @ enc x)) # evs) d = Loop_done (Some x, d) evs"
proof -
  let ?ev = "Conn answers (op_frame OP_USER_MESSAGE (word_bytes i @ enc x))"
  have "frame_arrives answers (2 + length (word_bytes i @ enc x))" "length (word_bytes i @ enc x) < 2 ^ 61"
    using assms(2,3) by (simp_all add: size_of_def)
  from op_frame_received [OF this] obtain m m1 y where
      m: "event_msg raw ?ev = Some m" "shr_word m = Some (op_code OP_USER_MESSAGE, m1)" "msg_ok 0 m1" "unread m1 = (word_bytes i @ enc x) @ y"
    by blast
  have u: "unread m1 = word_bytes i @ (enc x @ y)"
    using m(4) by simp
  let ?m2 = "m1\<lparr>msg_pos := msg_pos m1 + length (word_bytes i)\<rparr>"
  have "shr_word m1 = Some (i, ?m2)"
    by (rule word.get_reads [OF _ m(3) u]) simp
  then have "driver_handler m d = Handled i (d\<lparr>dr_messages := [?m2]\<rparr>)"
    using m(2) assms(4) by (simp add: driver_handler_def read_header_def)
  then have "wait_event raw driver_handler (?ev # evs) d = Event i (d\<lparr>dr_messages := [?m2]\<rparr>) evs"
    using wait_event_message [OF m(1), of driver_handler evs d] by simp
  then have "driver_getUserMessage raw (?ev # evs) d = Loop_done (Some ?m2, d\<lparr>dr_messages := []\<rparr>) evs"
    using assms(4) by (simp add: driver_getUserMessage_def event_loop.simps [of _ _ _ _ "?ev # evs"] event_loop.simps [of _ _ _ _ evs]
        del: wait_event.simps)
  moreover have "d\<lparr>dr_messages := []\<rparr> = d"
    using assms(4) by simp
  ultimately show ?thesis
    using get_reads [OF assms(1) advance_ok [OF u m(3)] unread_advance [OF u]] by (simp add: driver_recv_msg_def)
qed

end

text \<open>A worker's message starts with its identifier.\<close>

lemma worker_sends:
  assumes "field put get enc cost valid" and "valid x" and "cost x < 2 ^ 61"
  shows "worker_send_msg raw (put x) k
    = Some (k\<lparr>k_sent := k_sent k @ [op_frame OP_USER_MESSAGE (word_bytes (k_id k) @ enc x)]\<rparr>)"
proof -
  have idf: "field (shl_word raw) shr_word (\<lambda>i :: u32. word_bytes i) (\<lambda>i. 1028) (\<lambda>i. True)"
    using word.field_axioms [where raw = raw and 'a = 32] by (simp add: size_of_def)
  note f = field_pair [OF idf assms(1)]
  have "packet raw OP_USER_MESSAGE (put_pair (shl_word raw) put (k_id k, x)) = Some (op_frame OP_USER_MESSAGE (word_bytes (k_id k) @ enc x))"
    using field.user_packet [OF f, of "(k_id k, x)" raw OP_USER_MESSAGE] assms(2,3) by simp
  from packet_message [OF this] obtain m m' where
      "Option.bind (op_message raw OP_USER_MESSAGE) (put_pair (shl_word raw) put (k_id k, x)) = Some m"
      "msg_send m = Some (op_frame OP_USER_MESSAGE (word_bytes (k_id k) @ enc x), m')"
    by blast
  moreover from this(1) obtain m1 m2 where "op_message raw OP_USER_MESSAGE = Some m1" "shl_word raw (k_id k) m1 = Some m2" "put x m2 = Some m"
    by (auto simp: put_pair_def bind_eq_Some_conv)
  ultimately show ?thesis
    by (simp add: worker_send_msg_def worker_createUserMessage_def worker_sendUserMessage_def)
qed

section \<open>Properties\<close>



end
