(* ===== verification/Test_Options.thy ===== *)
theory Test_Options
  imports Performance_Test Distributed_Test
begin

text \<open>
  Defining tests (\<^verbatim>\<open>include/dtest.h\<close>, \<^verbatim>\<open>unit_test.h\<close>, \<^verbatim>\<open>performance_test.h\<close>,
  \<^verbatim>\<open>distributed_unit_test.h\<close>): the objects the macros construct and the options that are chained after
  them. The two subclasses hand every option of the base class on to it.
\<close>

section \<open>Unit tests\<close>

record unit_test =
  ut_test :: test
  ut_config :: unit_config
  ut_code :: user_code

definition no_code :: user_code where
  "no_code = \<lparr>uc_init = None, uc_body = None, uc_complete = None\<rparr>"

text \<open>
  The macros with one and with two arguments; \<open>deps\<close> are the dependencies the module has when the object is
  constructed. Other numbers of arguments do not compile.
\<close>

definition macro_test :: "bool \<Rightarrow> string list \<Rightarrow> string list \<Rightarrow> test option" where
  "macro_test disable_all args deps =
    map_option (if disable_all then disable else id)
      (case args of
         [name] \<Rightarrow> Some (test_new ''root'' name deps)
       | [m, name] \<Rightarrow> Some (test_new m name deps)
       | _ \<Rightarrow> None)"

definition unit_new :: "test \<Rightarrow> unit_test" where
  "unit_new t = \<lparr>ut_test = t, ut_config = unit_config_init, ut_code = no_code\<rparr>"

datatype unit_option =
  Depends_on "string list"
| On_init "user_fn option"
| Body "user_fn option"
| On_complete "user_fn option"
| Timeout_nanos u64
| Timeout_micros u64
| Timeout_millis u64
| Timeout u64
| Expect_status status
| Memory_bytes_limit u64
| Memory_blocks_limit u64
| Disabled
| Enabled
| Ignore_memory_leak bool
| In_process bool
| Input string
| Body_only bool

definition on_test :: "(test \<Rightarrow> test) \<Rightarrow> unit_test \<Rightarrow> unit_test" where
  "on_test f u = u\<lparr>ut_test := f (ut_test u)\<rparr>"

definition on_config :: "(unit_config \<Rightarrow> unit_config) \<Rightarrow> unit_test \<Rightarrow> unit_test" where
  "on_config f u = u\<lparr>ut_config := f (ut_config u)\<rparr>"

definition on_code :: "(user_code \<Rightarrow> user_code) \<Rightarrow> unit_test \<Rightarrow> unit_test" where
  "on_code f u = u\<lparr>ut_code := f (ut_code u)\<rparr>"

fun unit_apply :: "unit_option \<Rightarrow> unit_test \<Rightarrow> unit_test" where
  "unit_apply (Depends_on ds) = on_test (dependsOn ds)"
| "unit_apply (On_init f) = on_code (\<lambda>c. c\<lparr>uc_init := f\<rparr>)"
| "unit_apply (Body f) = on_code (\<lambda>c. c\<lparr>uc_body := f\<rparr>)"
| "unit_apply (On_complete f) = on_code (\<lambda>c. c\<lparr>uc_complete := f\<rparr>)"
| "unit_apply (Timeout_nanos n) = on_config (timeoutNanos n)"
| "unit_apply (Timeout_micros n) = on_config (timeoutMicros n)"
| "unit_apply (Timeout_millis n) = on_config (timeoutMillis n)"
| "unit_apply (Timeout n) = on_config (timeoutSeconds n)"
| "unit_apply (Expect_status st) = on_test (expect st)"
| "unit_apply (Memory_bytes_limit n) = on_config (memoryBytesLimit n)"
| "unit_apply (Memory_blocks_limit n) = on_config (memoryBlocksLimit n)"
| "unit_apply Disabled = on_test disable"
| "unit_apply Enabled = on_test enable"
| "unit_apply (Ignore_memory_leak b) = on_config (ignoreMemoryLeak b)"
| "unit_apply (In_process b) = on_config (inProcess b)"
| "unit_apply (Input s) = on_config (unit_input s)"
| "unit_apply (Body_only b) = on_config (resourceSnapshotBodyOnly b)"

section \<open>Performance tests\<close>

record perf_test =
  pt_test :: test
  pt_config :: perf_config
  pt_code :: user_code
  pt_baseline :: "user_fn option"

definition perf_new :: "test \<Rightarrow> perf_test" where
  "perf_new t = \<lparr>pt_test = t, pt_config = perf_config_init, pt_code = no_code, pt_baseline = None\<rparr>"

definition perf_unit :: "perf_test \<Rightarrow> unit_test" where
  "perf_unit p = \<lparr>ut_test = pt_test p, ut_config = pf_unit (pt_config p), ut_code = pt_code p\<rparr>"

text \<open>A method of the base class called on the object.\<close>

definition perf_base :: "(unit_test \<Rightarrow> unit_test) \<Rightarrow> perf_test \<Rightarrow> perf_test" where
  "perf_base f p =
    (let u = f (perf_unit p)
     in p\<lparr>pt_test := ut_test u, pt_config := (pt_config p)\<lparr>pf_unit := ut_config u\<rparr>, pt_code := ut_code u\<rparr>)"

datatype perf_option =
  Perf_unit unit_option
| Baseline "user_fn option"
| Margin_nanos u64
| Margin_micros u64
| Margin_millis u64
| Margin u64
| Margin_ratio frac

definition on_perf_config :: "(perf_config \<Rightarrow> perf_config) \<Rightarrow> perf_test \<Rightarrow> perf_test" where
  "on_perf_config f p = p\<lparr>pt_config := f (pt_config p)\<rparr>"

fun perf_apply :: "perf_option \<Rightarrow> perf_test \<Rightarrow> perf_test" where
  "perf_apply (Perf_unit opt) = perf_base (unit_apply opt)"
| "perf_apply (Baseline f) = (\<lambda>p. p\<lparr>pt_baseline := f\<rparr>)"
| "perf_apply (Margin_nanos n) = on_perf_config (performanceMarginNanos n)"
| "perf_apply (Margin_micros n) = on_perf_config (performanceMarginMicros n)"
| "perf_apply (Margin_millis n) = on_perf_config (performanceMarginMillis n)"
| "perf_apply (Margin n) = on_perf_config (performanceMargin n)"
| "perf_apply (Margin_ratio r) = on_perf_config (performanceMarginAsBaselineRatio r)"

section \<open>Distributed tests\<close>

record dist_test =
  ds_test :: test
  ds_config :: dist_config
  ds_code :: user_code
  ds_worker :: "user_fn option"

definition dist_new :: "test \<Rightarrow> dist_test" where
  "dist_new t = \<lparr>ds_test = t, ds_config = dist_config_init, ds_code = no_code, ds_worker = None\<rparr>"

definition dist_unit :: "dist_test \<Rightarrow> unit_test" where
  "dist_unit p = \<lparr>ut_test = ds_test p, ut_config = dt_unit (ds_config p), ut_code = ds_code p\<rparr>"

definition dist_base :: "(unit_test \<Rightarrow> unit_test) \<Rightarrow> dist_test \<Rightarrow> dist_test" where
  "dist_base f p =
    (let u = f (dist_unit p)
     in p\<lparr>ds_test := ut_test u, ds_config := (ds_config p)\<lparr>dt_unit := ut_config u\<rparr>, ds_code := ut_code u\<rparr>)"

text \<open>The body of the base class is set by \<^verbatim>\<open>driver\<close> here.\<close>

datatype dist_option =
  Dist_unit unit_option
| Worker "user_fn option"
| Workers u16
| Faulty_network frac u64

fun dist_apply :: "dist_option \<Rightarrow> dist_test \<Rightarrow> dist_test" where
  "dist_apply (Dist_unit opt) = dist_base (unit_apply opt)"
| "dist_apply (Worker f) = (\<lambda>p. p\<lparr>ds_worker := f\<rparr>)"
| "dist_apply (Workers n) = (\<lambda>p. p\<lparr>ds_test := (ds_test p)\<lparr>t_run := (t_run (ds_test p))\<lparr>r_workers := n\<rparr>\<rparr>\<rparr>)"
| "dist_apply (Faulty_network chance millis) = (\<lambda>p. p\<lparr>ds_config := faultyNetwork chance millis (ds_config p)\<rparr>)"

text \<open>The objects the macros construct, with the options chained after them.\<close>

definition unit_macro :: "bool \<Rightarrow> string list \<Rightarrow> string list \<Rightarrow> unit_option list \<Rightarrow> unit_test option" where
  "unit_macro disable_all args deps opts = map_option (\<lambda>t. fold unit_apply opts (unit_new t)) (macro_test disable_all args deps)"

definition perf_macro :: "bool \<Rightarrow> string list \<Rightarrow> string list \<Rightarrow> perf_option list \<Rightarrow> perf_test option" where
  "perf_macro disable_all args deps opts = map_option (\<lambda>t. fold perf_apply opts (perf_new t)) (macro_test disable_all args deps)"

definition dunit_macro :: "bool \<Rightarrow> string list \<Rightarrow> string list \<Rightarrow> dist_option list \<Rightarrow> dist_test option" where
  "dunit_macro disable_all args deps opts = map_option (\<lambda>t. fold dist_apply opts (dist_new t)) (macro_test disable_all args deps)"

section \<open>Facts\<close>

text \<open>What an option sets.\<close>

datatype target = To_deps | To_init | To_body | To_complete | To_timeout | To_expected | To_bytes | To_blocks | To_enabled | To_leak
  | To_process | To_input | To_body_only

fun target_of :: "unit_option \<Rightarrow> target" where
  "target_of (Depends_on _) = To_deps"
| "target_of (On_init _) = To_init"
| "target_of (Body _) = To_body"
| "target_of (On_complete _) = To_complete"
| "target_of (Timeout_nanos _) = To_timeout"
| "target_of (Timeout_micros _) = To_timeout"
| "target_of (Timeout_millis _) = To_timeout"
| "target_of (Timeout _) = To_timeout"
| "target_of (Expect_status _) = To_expected"
| "target_of (Memory_bytes_limit _) = To_bytes"
| "target_of (Memory_blocks_limit _) = To_blocks"
| "target_of Disabled = To_enabled"
| "target_of Enabled = To_enabled"
| "target_of (Ignore_memory_leak _) = To_leak"
| "target_of (In_process _) = To_process"
| "target_of (Input _) = To_input"
| "target_of (Body_only _) = To_body_only"

lemmas option_defs = on_test_def on_config_def on_code_def dependsOn_def expect_def disable_def enable_def timeoutNanos_def
  timeoutMicros_def timeoutMillis_def timeoutSeconds_def memoryBytesLimit_def memoryBlocksLimit_def ignoreMemoryLeak_def
  inProcess_def unit_input_def resourceSnapshotBodyOnly_def

lemma unit_apply_commute: "target_of a \<noteq> target_of b \<Longrightarrow> unit_apply a (unit_apply b u) = unit_apply b (unit_apply a u)"
  by (cases a; cases b) (simp_all add: option_defs)

lemma unit_apply_again: "target_of a = target_of b \<Longrightarrow> target_of a \<noteq> To_deps \<Longrightarrow> unit_apply a (unit_apply b u) = unit_apply a u"
  by (cases a; cases b) (simp_all add: option_defs)

text \<open>The order of options that set different things does not matter, and of two that set the same thing
  (other than dependencies, which add up) the last one wins.\<close>

theorem options_any_order:
  assumes "distinct (map target_of opts)" and "mset opts' = mset opts"
  shows "fold unit_apply opts' u = fold unit_apply opts u"
proof -
  have "unit_apply a \<circ> unit_apply b = unit_apply b \<circ> unit_apply a" if "a \<in> set opts" "b \<in> set opts" for a b
  proof (cases "a = b")
    case False
    then have "target_of a \<noteq> target_of b"
      using assms(1) that by (auto simp: distinct_map inj_on_def)
    then show ?thesis
      by (simp add: fun_eq_iff unit_apply_commute)
  qed simp
  then have "fold unit_apply opts = fold unit_apply opts'"
    by (intro fold_multiset_equiv) (use assms(2) in simp_all)
  then show ?thesis by simp
qed

theorem last_option_wins:
  assumes "\<forall>o' \<in> set later. target_of o' \<noteq> target_of opt" and "target_of opt = target_of old" and "target_of opt \<noteq> To_deps"
  shows "fold unit_apply (old # later @ [opt]) u = fold unit_apply (later @ [opt]) u"
proof -
  have "fold unit_apply later (unit_apply old u) = unit_apply old (fold unit_apply later u)" for u
    using assms(1) by (induction later arbitrary: u) (simp_all add: assms(2) unit_apply_commute [where b = old])
  then show ?thesis
    using assms(2,3) by (simp add: unit_apply_again)
qed

text \<open>The base class's part of a test of a subclass is the unit test with the base class's options.\<close>

fun perf_units :: "perf_option list \<Rightarrow> unit_option list" where
  "perf_units [] = []"
| "perf_units (Perf_unit opt # opts) = opt # perf_units opts"
| "perf_units (_ # opts) = perf_units opts"

lemma perf_base_unit [simp]: "perf_unit (perf_base f p) = f (perf_unit p)"
  by (simp add: perf_base_def perf_unit_def Let_def)

lemma dist_base_unit [simp]: "dist_unit (dist_base f p) = f (dist_unit p)"
  by (simp add: dist_base_def dist_unit_def Let_def)

lemma perf_own_unit [simp]:
  "perf_unit (on_perf_config (performanceMarginNanos n) p) = perf_unit p"
  "perf_unit (on_perf_config (performanceMarginMicros n) p) = perf_unit p"
  "perf_unit (on_perf_config (performanceMarginMillis n) p) = perf_unit p"
  "perf_unit (on_perf_config (performanceMargin n) p) = perf_unit p"
  "perf_unit (on_perf_config (performanceMarginAsBaselineRatio r) p) = perf_unit p"
  "perf_unit (p\<lparr>pt_baseline := f\<rparr>) = perf_unit p"
  by (simp_all add: on_perf_config_def perf_unit_def performanceMarginNanos_def performanceMarginMicros_def
      performanceMarginMillis_def performanceMargin_def performanceMarginAsBaselineRatio_def)

theorem perf_options_inherited: "perf_unit (fold perf_apply opts p) = fold unit_apply (perf_units opts) (perf_unit p)"
  by (induction opts arbitrary: p rule: perf_units.induct) simp_all

text \<open>A test's number of workers is the one thing of the base class a distributed test sets itself.\<close>

definition with_workers :: "u16 \<Rightarrow> unit_test \<Rightarrow> unit_test" where
  "with_workers n = on_test (\<lambda>t. t\<lparr>t_run := (t_run t)\<lparr>r_workers := n\<rparr>\<rparr>)"

lemma dist_own_unit [simp]:
  "dist_unit (p\<lparr>ds_worker := f\<rparr>) = dist_unit p" "dist_unit (p\<lparr>ds_config := faultyNetwork c m (ds_config p)\<rparr>) = dist_unit p"
  "dist_unit (p\<lparr>ds_test := (ds_test p)\<lparr>t_run := (t_run (ds_test p))\<lparr>r_workers := n\<rparr>\<rparr>\<rparr>) = with_workers n (dist_unit p)"
  by (simp_all add: dist_unit_def faultyNetwork_def with_workers_def on_test_def)

fun dist_part :: "dist_option \<Rightarrow> unit_test \<Rightarrow> unit_test" where
  "dist_part (Dist_unit opt) = unit_apply opt"
| "dist_part (Workers n) = with_workers n"
| "dist_part _ = (\<lambda>u. u)"

theorem dist_options_inherited: "dist_unit (fold dist_apply opts p) = fold dist_part opts (dist_unit p)"
proof (induction opts arbitrary: p)
  case (Cons opt opts)
  then show ?case by (cases opt) simp_all
qed simp

text \<open>With \<^verbatim>\<open>DTEST_DISABLE_ALL\<close> every test whose options do not enable it again is skipped when it is run.\<close>

lemma disabled_stays:
  assumes "Enabled \<notin> set opts" and "\<not> t_enabled (ut_test u)"
  shows "\<not> t_enabled (ut_test (fold unit_apply opts u))"
  using assms
proof (induction opts arbitrary: u)
  case (Cons opt opts)
  have "\<not> t_enabled (ut_test (unit_apply opt u))"
    using Cons.prems by (cases opt) (simp_all add: option_defs)
  then show ?case
    using Cons by simp
qed simp

theorem disable_all_skips:
  assumes "unit_macro True args deps opts = Some u" and "Enabled \<notin> set opts"
  shows "test_run ops drv n (ut_test u) s = (test_skip (ut_test u), s)"
proof -
  obtain t where "u = fold unit_apply opts (unit_new (disable t))"
    using assms(1) by (auto simp: unit_macro_def macro_test_def)
  moreover have "\<not> t_enabled (ut_test (unit_new (disable t)))"
    by (simp add: unit_new_def disable_def)
  ultimately show ?thesis
    using disabled_stays [OF assms(2)] by (simp add: test_run_def)
qed

end
