(* ===== verification/Libc.thy ===== *)
theory Libc
  imports Sandbox
begin

text \<open>
  Finding the functions of the C library behind the hooks (\<^verbatim>\<open>LibC\<close> of \<^verbatim>\<open>include/dtest_core/sandbox.h\<close> and
  \<^verbatim>\<open>src/sandbox.cpp\<close>). The pointers are looked up one after the other with \<^verbatim>\<open>dlsym\<close>, which may itself call
  hooked functions, as may other threads meanwhile; those calls are an argument, and they ask for the library like any
  other. A call through a pointer that is still null is \<open>None\<close>.
\<close>

section \<open>State\<close>

datatype c_fn =
  C_malloc | C_calloc | C_memalign | C_posix_memalign | C_valloc | C_pvalloc | C_aligned_alloc | C_realloc
| C_reallocarray | C_free | C_mmap | C_mremap | C_munmap | C_send | C_sendto | C_recv | C_recvfrom

record libc =
  lc_initialized :: bool
  lc_ptr :: "c_fn \<Rightarrow> addr"

definition libc_instance :: libc where
  "libc_instance = \<lparr>lc_initialized = False, lc_ptr = (\<lambda>_. null_ptr)\<rparr>"

section \<open>Calls of hooked functions\<close>

text \<open>
  What happens in a hooked call: \<open>Looked_up\<close> is a look-up with \<^verbatim>\<open>dlsym\<close>, \<open>Forward\<close> calls the function found,
  \<open>Static_array\<close> is the answer of \<^verbatim>\<open>calloc\<close> before it is found, and \<open>Ignored\<close> the release of that array.
\<close>

datatype c_call = Hooked c_fn | Free_static

datatype c_effect = Looked_up c_fn | Forward c_fn addr | Static_array | Ignored

definition through :: "c_fn \<Rightarrow> libc \<Rightarrow> c_effect option" where
  "through f lc = (if lc_ptr lc f = null_ptr then None else Some (Forward f (lc_ptr lc f)))"

definition dispatch :: "c_fn \<Rightarrow> libc \<Rightarrow> c_effect option" where
  "dispatch f lc = (if f = C_calloc \<and> lc_ptr lc C_calloc = null_ptr then Some Static_array else through f lc)"

text \<open>A hooked call: every hook but the release of the static array asks for \<^verbatim>\<open>libc()\<close> (\<open>get\<close>) first.\<close>

type_synonym libc_access = "libc \<Rightarrow> (c_effect list \<times> libc) option"

definition c_hook :: "libc_access \<Rightarrow> c_call \<Rightarrow> libc \<Rightarrow> (c_effect list \<times> libc) option" where
  "c_hook get c lc =
    (case c of
       Free_static \<Rightarrow> Some ([Ignored], lc)
     | Hooked f \<Rightarrow>
         (case get lc of
            None \<Rightarrow> None
          | Some (es, lc) \<Rightarrow> map_option (\<lambda>e. (es @ [e], lc)) (dispatch f lc)))"

fun c_hooks :: "libc_access \<Rightarrow> c_call list \<Rightarrow> libc \<Rightarrow> (c_effect list list \<times> libc) option" where
  "c_hooks get [] lc = Some ([], lc)"
| "c_hooks get (c # cs) lc =
    (case c_hook get c lc of
       None \<Rightarrow> None
     | Some (es, lc) \<Rightarrow> map_option (\<lambda>(ess, lc). (es # ess, lc)) (c_hooks get cs lc))"

section \<open>Initialisation\<close>

text \<open>\<^verbatim>\<open>dlsym\<close>: the address it answers and the hooked calls that are made meanwhile.\<close>

record loader =
  ld_addr :: "c_fn \<Rightarrow> addr"
  ld_calls :: "c_fn \<Rightarrow> c_call list"

definition look_up :: "libc_access \<Rightarrow> loader \<Rightarrow> c_fn \<Rightarrow> libc \<Rightarrow> (c_effect list \<times> libc) option" where
  "look_up get ld f lc =
    map_option (\<lambda>(ess, lc). (concat ess @ [Looked_up f], lc\<lparr>lc_ptr := (lc_ptr lc)(f := ld_addr ld f)\<rparr>))
      (c_hooks get (ld_calls ld f) lc)"

fun look_up_all :: "libc_access \<Rightarrow> loader \<Rightarrow> c_fn list \<Rightarrow> libc \<Rightarrow> (c_effect list \<times> libc) option" where
  "look_up_all get ld [] lc = Some ([], lc)"
| "look_up_all get ld (f # fs) lc =
    (case look_up get ld f lc of
       None \<Rightarrow> None
     | Some (es, lc) \<Rightarrow> map_option (\<lambda>(es', lc). (es @ es', lc)) (look_up_all get ld fs lc))"

definition c_fns :: "c_fn list" where
  "c_fns = [C_malloc, C_calloc, C_memalign, C_posix_memalign, C_valloc, C_pvalloc, C_aligned_alloc, C_realloc,
     C_reallocarray, C_free, C_mmap, C_mremap, C_munmap, C_send, C_sendto, C_recv, C_recvfrom]"

definition libc_init :: "libc_access \<Rightarrow> loader \<Rightarrow> libc_access" where
  "libc_init get ld lc = look_up_all get ld c_fns (lc\<lparr>lc_initialized := True\<rparr>)"

text \<open>\<^verbatim>\<open>libc()\<close>, with as much fuel as initialisations may be started within each other.\<close>

primrec libc_get :: "nat \<Rightarrow> loader \<Rightarrow> libc_access" where
  "libc_get 0 ld = (\<lambda>lc. if \<not> lc_initialized lc then None else Some ([], lc))"
| "libc_get (Suc n) ld = (\<lambda>lc. if \<not> lc_initialized lc then libc_init (libc_get n ld) ld lc else Some ([], lc))"

definition c_run :: "nat \<Rightarrow> loader \<Rightarrow> c_call list \<Rightarrow> libc \<Rightarrow> (c_effect list list \<times> libc) option" where
  "c_run n ld = c_hooks (libc_get n ld)"

section \<open>What initialisation needs\<close>

text \<open>A call that can be made when the functions of a set have been found, and where it goes.\<close>

definition answerable :: "loader \<Rightarrow> c_fn set \<Rightarrow> c_call \<Rightarrow> bool" where
  "answerable ld F c \<longleftrightarrow> c = Free_static \<or> c = Hooked C_calloc \<or> (\<exists>f \<in> F. c = Hooked f \<and> ld_addr ld f \<noteq> null_ptr)"

definition goes_to :: "loader \<Rightarrow> c_fn set \<Rightarrow> c_call \<Rightarrow> c_effect" where
  "goes_to ld F c =
    (case c of
       Free_static \<Rightarrow> Ignored
     | Hooked f \<Rightarrow> if f \<in> F \<and> ld_addr ld f \<noteq> null_ptr then Forward f (ld_addr ld f) else Static_array)"

definition found :: "loader \<Rightarrow> c_fn set \<Rightarrow> c_fn \<Rightarrow> addr" where
  "found ld F f = (if f \<in> F then ld_addr ld f else null_ptr)"

lemma found_insert: "(found ld F)(f := ld_addr ld f) = found ld (insert f F)"
  by (auto simp: found_def fun_eq_iff)

lemma libc_get_initialized: "lc_initialized lc \<Longrightarrow> libc_get n ld lc = Some ([], lc)"
  by (cases n) simp_all

lemma c_hooks_found:
  "lc_initialized lc \<Longrightarrow> lc_ptr lc = found ld F \<Longrightarrow>
    c_hooks (libc_get n ld) cs lc
      = (if \<forall>c \<in> set cs. answerable ld F c then Some (map (\<lambda>c. [goes_to ld F c]) cs, lc) else None)"
proof (induction cs)
  case (Cons c cs)
  have "c_hook (libc_get n ld) c lc = (if answerable ld F c then Some ([goes_to ld F c], lc) else None)"
    using Cons.prems by (cases c) (auto simp: c_hook_def libc_get_initialized dispatch_def through_def answerable_def goes_to_def found_def)
  then show ?case
    using Cons by auto
qed simp

text \<open>The log of the look-ups: each function with the calls made meanwhile.\<close>

definition stage_log :: "loader \<Rightarrow> c_fn set \<Rightarrow> c_fn \<Rightarrow> c_effect list" where
  "stage_log ld F f = map (goes_to ld F) (ld_calls ld f) @ [Looked_up f]"

definition stages :: "(c_fn set \<Rightarrow> c_fn \<Rightarrow> 'a) \<Rightarrow> c_fn set \<Rightarrow> c_fn list \<Rightarrow> 'a list" where
  "stages g F fs = map (\<lambda>i. g (F \<union> set (take i fs)) (fs ! i)) [0..<length fs]"

lemma stages_simps: "stages g F [] = []" "stages g F (f # fs) = g F f # stages g (insert f F) fs"
proof -
  show "stages g F (f # fs) = g F f # stages g (insert f F) fs"
    unfolding stages_def length_Cons upt_conv_Cons [OF zero_less_Suc] list.map map_Suc_upt [symmetric] by simp
qed (simp add: stages_def)

lemma look_up_all_found:
  "lc_initialized lc \<Longrightarrow> lc_ptr lc = found ld F \<Longrightarrow>
    look_up_all (libc_get n ld) ld fs lc
      = (if list_all id (stages (\<lambda>F f. \<forall>c \<in> set (ld_calls ld f). answerable ld F c) F fs)
         then Some (concat (stages (stage_log ld) F fs), lc\<lparr>lc_ptr := found ld (F \<union> set fs)\<rparr>) else None)"
proof (induction fs arbitrary: F lc)
  case (Cons f fs)
  let ?lc = "lc\<lparr>lc_ptr := found ld (insert f F)\<rparr>"
  have "look_up (libc_get n ld) ld f lc
      = (if \<forall>c \<in> set (ld_calls ld f). answerable ld F c then Some (stage_log ld F f, ?lc) else None)"
    using Cons.prems by (simp add: look_up_def c_hooks_found stage_log_def found_insert concat_map_singleton)
  then show ?case
    using Cons.IH [of ?lc "insert f F"] Cons.prems(1) by (simp add: stages_simps)
qed (simp add: stages_simps)

lemma set_c_fns [simp]: "set c_fns = UNIV"
proof -
  have "f \<in> set c_fns" for f
    by (cases f) (simp_all add: c_fns_def)
  then show ?thesis
    by auto
qed

section \<open>Properties\<close>

text \<open>C20. Using the C library works from the first hooked call on exactly when every hooked function that is
  called while a function is looked up, by \<^verbatim>\<open>dlsym\<close> or by another thread, has already been found, or is
  \<^verbatim>\<open>calloc\<close>, or releases its static array. Then each function is looked up once, in order, all of them in the first call and
  none in a later one; no call, not even one made during a look-up, starts a second initialisation; and every call of
  the program reaches the library's function of its name, \<^verbatim>\<open>calloc\<close> answering its static array only if the library
  has no such function.\<close>

theorem libc_found_once:
  assumes "c \<noteq> Free_static"
  shows "c_run (Suc n) ld (c # cs) libc_instance =
    (if (\<forall>i < length c_fns. \<forall>c \<in> set (ld_calls ld (c_fns ! i)). answerable ld (set (take i c_fns)) c)
      \<and> (\<forall>c \<in> set (c # cs). answerable ld UNIV c)
     then Some ((concat (map (\<lambda>i. map (goes_to ld (set (take i c_fns))) (ld_calls ld (c_fns ! i)) @ [Looked_up (c_fns ! i)])
                   [0..<length c_fns]) @ [goes_to ld UNIV c]) # map (\<lambda>c. [goes_to ld UNIV c]) cs,
                \<lparr>lc_initialized = True, lc_ptr = ld_addr ld\<rparr>) else None)"
proof -
  let ?lc = "libc_instance\<lparr>lc_initialized := True\<rparr>" and ?found = "\<lparr>lc_initialized = True, lc_ptr = ld_addr ld\<rparr>"
  let ?ok = "\<forall>i < length c_fns. \<forall>c \<in> set (ld_calls ld (c_fns ! i)). answerable ld (set (take i c_fns)) c"
  let ?log = "concat (map (\<lambda>i. map (goes_to ld (set (take i c_fns))) (ld_calls ld (c_fns ! i)) @ [Looked_up (c_fns ! i)]) [0..<length c_fns])"
  have all: "found ld UNIV = ld_addr ld"
    by (simp add: found_def fun_eq_iff)
  have start: "lc_initialized ?lc" "lc_ptr ?lc = found ld {}"
    by (simp_all add: libc_instance_def found_def fun_eq_iff)
  have "?lc\<lparr>lc_ptr := found ld UNIV\<rparr> = ?found"
    by (simp add: libc_instance_def all)
  then have init: "libc_get (Suc n) ld libc_instance = (if ?ok then Some (?log, ?found) else None)"
    using look_up_all_found [OF start, of n c_fns]
    by (simp add: libc_init_def libc_instance_def stages_def stage_log_def list_all_iff atLeast0LessThan)
  obtain f where c: "c = Hooked f"
    using assms by (cases c) simp_all
  have run: "c_hooks (libc_get (Suc n) ld) ds ?found
      = (if \<forall>c \<in> set ds. answerable ld UNIV c then Some (map (\<lambda>c. [goes_to ld UNIV c]) ds, ?found) else None)" for ds
    by (rule c_hooks_found) (simp_all add: all)
  have first: "c_hook (libc_get (Suc n) ld) c libc_instance
      = (if ?ok \<and> answerable ld UNIV c then Some (?log @ [goes_to ld UNIV c], ?found) else None)"
    unfolding c_hook_def c c_call.case init
    by (auto simp: dispatch_def through_def answerable_def goes_to_def)
  show ?thesis
    unfolding c_run_def c_hooks.simps first using run [of cs] by simp
qed

text \<open>A \<^verbatim>\<open>dlsym\<close> that needs \<^verbatim>\<open>calloc\<close>, as the C library's does for its error buffer, and one that needs \<^verbatim>\<open>malloc\<close>.\<close>

definition loader_calloc :: loader where
  "loader_calloc = \<lparr>ld_addr = (\<lambda>_. 4096), ld_calls = (\<lambda>f. if f = C_malloc then [Hooked C_calloc, Free_static] else [])\<rparr>"

definition loader_malloc :: loader where
  "loader_malloc = \<lparr>ld_addr = (\<lambda>_. 4096), ld_calls = (\<lambda>_. [Hooked C_malloc])\<rparr>"

theorem libc_found_once_witness:
  "c_run 1 loader_calloc [Hooked C_free, Free_static, Hooked C_calloc] libc_instance
     = Some ([[Static_array, Ignored] @ map Looked_up c_fns @ [Forward C_free 4096], [Ignored], [Forward C_calloc 4096]],
         \<lparr>lc_initialized = True, lc_ptr = (\<lambda>_. 4096)\<rparr>)
   \<and> c_run 1 loader_malloc [Hooked C_free] libc_instance = None"
proof -
  have upt: "[0..<length c_fns] = [0, 1, 2, 3, 4, 5, 6, 7, 8, 9, 10, 11, 12, 13, 14, 15, 16]"
    by (simp add: c_fns_def upt_rec)
  have "c_run (Suc 0) loader_calloc [Hooked C_free, Free_static, Hooked C_calloc] libc_instance
     = Some ([[Static_array, Ignored] @ map Looked_up c_fns @ [Forward C_free 4096], [Ignored], [Forward C_calloc 4096]],
         \<lparr>lc_initialized = True, lc_ptr = (\<lambda>_. 4096)\<rparr>)"
    unfolding libc_found_once [of "Hooked C_free" 0 loader_calloc "[Free_static, Hooked C_calloc]", simplified] upt
    by (simp add: loader_calloc_def answerable_def goes_to_def c_fns_def All_less_Suc2)
  moreover have "c_run (Suc 0) loader_malloc [Hooked C_free] libc_instance = None"
    using libc_found_once [of "Hooked C_free" 0 loader_malloc "[]"]
    by (auto simp: loader_malloc_def answerable_def c_fns_def All_less_Suc2)
  ultimately show ?thesis
    by (simp add: One_nat_def)
qed

end
