(* ===== verification/Message_Heap.thy ===== *)
theory Message_Heap
  imports Buffer Message_Props Sandbox_Props
begin

text \<open>
  The messages of \<^verbatim>\<open>include/dtest_core/message.h\<close> as they are in memory: an allocated block with its length, a
  pointer into it and the flag for received data, with the private operations on the block and the constructors,
  assignments and the destructor over the explicit heap of theory \<open>Buffer\<close>. Theory \<open>Message\<close> has the same
  operations on values; the property below says that the two agree. \<^verbatim>\<open>malloc\<close> and \<^verbatim>\<open>realloc\<close> succeed here.
\<close>

section \<open>The object\<close>

text \<open>
  \<open>mo_buf\<close> is \<^verbatim>\<open>_allocBuf\<close> with \<^verbatim>\<open>_allocLen\<close>, \<open>mo_pos\<close> is \<^verbatim>\<open>_buf - _allocBuf\<close>.
\<close>

record message_obj =
  mo_buf :: buffer
  mo_pos :: nat
  mo_has :: bool

definition mo_invalid :: message_obj where
  "mo_invalid = \<lparr>mo_buf = buf_empty, mo_pos = 0, mo_has = False\<rparr>"

definition mo_new :: "(nat \<Rightarrow> u8) \<Rightarrow> u64 \<Rightarrow> heap \<Rightarrow> message_obj \<times> heap" where
  "mo_new raw len h = (case buf_alloc raw len h of (b, h) \<Rightarrow> (\<lparr>mo_buf = b, mo_pos = 8, mo_has = False\<rparr>, h))"

definition mo_dispose :: "message_obj \<Rightarrow> heap \<Rightarrow> heap option" where
  "mo_dispose o1 h = buf_free (mo_buf o1) h"

text \<open>\<^verbatim>\<open>_copy\<close> allocates \<^verbatim>\<open>_allocLen\<close> bytes, copies as many and points at the same offset.\<close>

definition mo_copy :: "message_obj \<Rightarrow> heap \<Rightarrow> (message_obj \<times> heap) option" where
  "mo_copy rhs h =
    map_option (\<lambda>(b, h). (\<lparr>mo_buf = b, mo_pos = mo_pos rhs, mo_has = mo_has rhs\<rparr>, h)) (buf_copy (mo_buf rhs) h)"

text \<open>\<^verbatim>\<open>_move\<close> followed by \<^verbatim>\<open>rhs._invalidate()\<close>: the new object and what is left of the source.\<close>

definition mo_move :: "message_obj \<Rightarrow> message_obj \<times> message_obj" where
  "mo_move rhs = (\<lparr>mo_buf = mo_buf rhs, mo_pos = mo_pos rhs, mo_has = mo_has rhs\<rparr>, mo_invalid)"

definition mo_assign :: "message_obj \<Rightarrow> message_obj \<Rightarrow> heap \<Rightarrow> (message_obj \<times> heap) option" where
  "mo_assign o1 rhs h = Option.bind (mo_dispose o1 h) (mo_copy rhs)"

definition mo_move_assign :: "message_obj \<Rightarrow> message_obj \<Rightarrow> heap \<Rightarrow> ((message_obj \<times> message_obj) \<times> heap) option" where
  "mo_move_assign o1 rhs h = map_option (\<lambda>h. (mo_move rhs, h)) (mo_dispose o1 h)"

definition mo_fit :: "(nat \<Rightarrow> u8) \<Rightarrow> u64 \<Rightarrow> message_obj \<Rightarrow> heap \<Rightarrow> (message_obj \<times> heap) option" where
  "mo_fit raw sz o1 h =
    (let len = of_nat (mo_pos o1) :: u64;
         rem = b_size (mo_buf o1) - len
     in if rem < sz then
          (let alloc_len = b_size (mo_buf o1) + (if sz < DEFAULT_BUFFER_SIZE then DEFAULT_BUFFER_SIZE else sz)
           in map_option (\<lambda>(p, h). (o1\<lparr>mo_buf := \<lparr>b_size = alloc_len, b_data = p\<rparr>\<rparr>, h))
                (h_realloc raw True (b_data (mo_buf o1)) (unat alloc_len) h))
        else Some (o1, h))"

text \<open>Writing into the block of an object.\<close>

definition h_write :: "buffer \<Rightarrow> nat \<Rightarrow> u8 list \<Rightarrow> heap \<Rightarrow> heap option" where
  "h_write b off bs h =
    (case buf_bytes h b of
       None \<Rightarrow> None
     | Some c \<Rightarrow>
         if off + length bs \<le> length c then
           Some (case b_data b of
                   None \<Rightarrow> h
                 | Some p \<Rightarrow> h\<lparr>h_blocks := um_set p (take off c @ bs @ drop (off + length bs) c) (h_blocks h)\<rparr>)
         else None)"

text \<open>\<^verbatim>\<open>put\<close> and \<^verbatim>\<open>operator<<\<close>, \<^verbatim>\<open>get\<close> and \<^verbatim>\<open>operator>>\<close>.\<close>

definition mo_store :: "u8 list \<Rightarrow> message_obj \<times> heap \<Rightarrow> (message_obj \<times> heap) option" where
  "mo_store bs = (\<lambda>(o1, h). map_option (\<lambda>h. (o1, h)) (h_write (mo_buf o1) (mo_pos o1) bs h))"

definition mo_put :: "(nat \<Rightarrow> u8) \<Rightarrow> u8 list \<Rightarrow> message_obj \<Rightarrow> heap \<Rightarrow> (message_obj \<times> heap) option" where
  "mo_put raw bs o1 h =
    map_option (\<lambda>(o1, h). (o1\<lparr>mo_pos := mo_pos o1 + length bs\<rparr>, h))
      (Option.bind (mo_fit raw (of_nat (length bs)) o1 h) (mo_store bs))"

definition mo_get :: "nat \<Rightarrow> message_obj \<Rightarrow> heap \<Rightarrow> (u8 list \<times> message_obj) option" where
  "mo_get len o1 h =
    (case buf_bytes h (mo_buf o1) of
       None \<Rightarrow> None
     | Some c \<Rightarrow>
         if mo_pos o1 + len \<le> length c
         then Some (take len (drop (mo_pos o1) c), o1\<lparr>mo_pos := mo_pos o1 + len\<rparr>) else None)"

text \<open>\<^verbatim>\<open>send\<close>: the bytes given to the socket.\<close>

definition mo_send :: "message_obj \<Rightarrow> heap \<Rightarrow> (u8 list \<times> heap) option" where
  "mo_send o1 h =
    (case h_write (mo_buf o1) 0 (word_bytes (of_nat (mo_pos o1) :: u64)) h of
       None \<Rightarrow> None
     | Some h \<Rightarrow> map_option (\<lambda>(bs, _). (bs, h)) (mo_get (mo_pos o1) (o1\<lparr>mo_pos := 0\<rparr>) h))"

text \<open>\<^verbatim>\<open>recv\<close> after the header has announced \<open>len\<close> more bytes and the bytes \<open>bs\<close> have come.\<close>

definition mo_receive :: "(nat \<Rightarrow> u8) \<Rightarrow> u64 \<Rightarrow> u8 list \<Rightarrow> message_obj \<Rightarrow> heap \<Rightarrow> (message_obj \<times> heap) option" where
  "mo_receive raw len bs o1 h =
    map_option (\<lambda>(o1, h). (o1\<lparr>mo_has := True\<rparr>, h)) (Option.bind (mo_fit raw len o1 h) (mo_store bs))"

section \<open>A program's messages\<close>

text \<open>
  Objects are named by numbers; \<open>ms_live\<close> are those constructed and not yet destroyed. An operation on an
  object that is not live, or the construction of one that is, does nothing. The result has the bytes an
  operation gives back; \<open>None\<close> is an access outside the block, or a block freed twice.
\<close>

datatype mop =
  M_new nat u64
| M_copy nat nat
| M_move nat nat
| M_assign nat nat
| M_move_assign nat nat
| M_put nat "u8 list"
| M_get nat nat
| M_send nat
| M_receive nat u64 "u8 list"
| M_destroy nat

record messages =
  ms_heap :: heap
  ms_live :: "(nat, message_obj) umap"

definition ms_put :: "nat \<Rightarrow> (message_obj \<times> heap) option \<Rightarrow> messages \<Rightarrow> (u8 list \<times> messages) option" where
  "ms_put i r s = map_option (\<lambda>(o1, h). ([], \<lparr>ms_heap = h, ms_live = um_set i o1 (ms_live s)\<rparr>)) r"

fun mop_apply :: "(nat \<Rightarrow> u8) \<Rightarrow> mop \<Rightarrow> messages \<Rightarrow> (u8 list \<times> messages) option" where
  "mop_apply raw (M_new i len) s =
    (case um_find i (ms_live s) of Some _ \<Rightarrow> Some ([], s) | None \<Rightarrow> ms_put i (Some (mo_new raw len (ms_heap s))) s)"
| "mop_apply raw (M_copy i j) s =
    (case (um_find i (ms_live s), um_find j (ms_live s)) of
       (None, Some rhs) \<Rightarrow> ms_put i (mo_copy rhs (ms_heap s)) s
     | _ \<Rightarrow> Some ([], s))"
| "mop_apply raw (M_move i j) s =
    (case (um_find i (ms_live s), um_find j (ms_live s)) of
       (None, Some rhs) \<Rightarrow>
         (case mo_move rhs of (o1, rhs) \<Rightarrow> Some ([], s\<lparr>ms_live := um_set j rhs (um_set i o1 (ms_live s))\<rparr>))
     | _ \<Rightarrow> Some ([], s))"
| "mop_apply raw (M_assign i j) s =
    (case (um_find i (ms_live s), um_find j (ms_live s)) of
       (Some o1, Some rhs) \<Rightarrow> if i \<noteq> j then ms_put i (mo_assign o1 rhs (ms_heap s)) s else Some ([], s)
     | _ \<Rightarrow> Some ([], s))"
| "mop_apply raw (M_move_assign i j) s =
    (case (um_find i (ms_live s), um_find j (ms_live s)) of
       (Some o1, Some rhs) \<Rightarrow>
         if i \<noteq> j then
           map_option (\<lambda>((o1, rhs), h). ([], \<lparr>ms_heap = h, ms_live = um_set j rhs (um_set i o1 (ms_live s))\<rparr>))
             (mo_move_assign o1 rhs (ms_heap s))
         else Some ([], s)
     | _ \<Rightarrow> Some ([], s))"
| "mop_apply raw (M_put i bs) s =
    (case um_find i (ms_live s) of None \<Rightarrow> Some ([], s) | Some o1 \<Rightarrow> ms_put i (mo_put raw bs o1 (ms_heap s)) s)"
| "mop_apply raw (M_get i len) s =
    (case um_find i (ms_live s) of None \<Rightarrow> Some ([], s)
     | Some o1 \<Rightarrow> map_option (\<lambda>(bs, o1). (bs, s\<lparr>ms_live := um_set i o1 (ms_live s)\<rparr>)) (mo_get len o1 (ms_heap s)))"
| "mop_apply raw (M_send i) s =
    (case um_find i (ms_live s) of None \<Rightarrow> Some ([], s)
     | Some o1 \<Rightarrow> map_option (\<lambda>(bs, h). (bs, s\<lparr>ms_heap := h\<rparr>)) (mo_send o1 (ms_heap s)))"
| "mop_apply raw (M_receive i len bs) s =
    (case um_find i (ms_live s) of None \<Rightarrow> Some ([], s)
     | Some o1 \<Rightarrow> ms_put i (mo_receive raw len bs o1 (ms_heap s)) s)"
| "mop_apply raw (M_destroy i) s =
    (case um_find i (ms_live s) of None \<Rightarrow> Some ([], s)
     | Some o1 \<Rightarrow> map_option (\<lambda>h. ([], \<lparr>ms_heap = h, ms_live = um_erase i (ms_live s)\<rparr>)) (mo_dispose o1 (ms_heap s)))"

text \<open>A program, with what its operations have given back so far.\<close>

definition logged :: "('op \<Rightarrow> 's \<Rightarrow> ('o \<times> 's) option) \<Rightarrow> 'op \<Rightarrow> 'o list \<times> 's \<Rightarrow> ('o list \<times> 's) option" where
  "logged step op = (\<lambda>(outs, s). map_option (\<lambda>(out, s). (outs @ [out], s)) (step op s))"

definition mop_run :: "(nat \<Rightarrow> u8) \<Rightarrow> mop list \<Rightarrow> messages \<Rightarrow> (u8 list list \<times> messages) option" where
  "mop_run raw ops s = run_steps (logged (mop_apply raw)) ops ([], s)"

section \<open>The same on values\<close>

fun mop_value :: "(nat \<Rightarrow> u8) \<Rightarrow> mop \<Rightarrow> (nat \<Rightarrow> message option) \<Rightarrow> (u8 list \<times> (nat \<Rightarrow> message option)) option" where
  "mop_value raw (M_new i len) v = Some ([], if v i = None then v(i := Some (message_new raw len)) else v)"
| "mop_value raw (M_copy i j) v =
    Some ([], if v i = None then (case v j of None \<Rightarrow> v | Some m \<Rightarrow> v(i := Some (msg_copy m))) else v)"
| "mop_value raw (M_move i j) v =
    Some ([], if v i = None
      then (case v j of None \<Rightarrow> v | Some m \<Rightarrow> (case msg_move m of (m, m') \<Rightarrow> v(i := Some m, j := Some m'))) else v)"
| "mop_value raw (M_assign i j) v =
    Some ([], if v i \<noteq> None \<and> i \<noteq> j then (case v j of None \<Rightarrow> v | Some m \<Rightarrow> v(i := Some (msg_copy m))) else v)"
| "mop_value raw (M_move_assign i j) v =
    Some ([], if v i \<noteq> None \<and> i \<noteq> j
      then (case v j of None \<Rightarrow> v | Some m \<Rightarrow> (case msg_move m of (m, m') \<Rightarrow> v(i := Some m, j := Some m'))) else v)"
| "mop_value raw (M_put i bs) v =
    (case v i of None \<Rightarrow> Some ([], v) | Some m \<Rightarrow> map_option (\<lambda>m. ([], v(i := Some m))) (msg_put raw bs m))"
| "mop_value raw (M_get i len) v =
    (case v i of None \<Rightarrow> Some ([], v) | Some m \<Rightarrow> map_option (\<lambda>(bs, m). (bs, v(i := Some m))) (msg_get len m))"
| "mop_value raw (M_send i) v =
    (case v i of None \<Rightarrow> Some ([], v) | Some m \<Rightarrow> map_option (\<lambda>(bs, m). (bs, v(i := Some m))) (msg_send m))"
| "mop_value raw (M_receive i len bs) v =
    (case v i of None \<Rightarrow> Some ([], v)
     | Some m \<Rightarrow> map_option (\<lambda>m. ([], v(i := Some (m\<lparr>msg_has := True\<rparr>)))) (msg_store bs (msg_fit raw len m)))"
| "mop_value raw (M_destroy i) v = Some ([], v(i := None))"

definition mop_values :: "(nat \<Rightarrow> u8) \<Rightarrow> mop list \<Rightarrow> (nat \<Rightarrow> message option) \<Rightarrow> (u8 list list \<times> (nat \<Rightarrow> message option)) option" where
  "mop_values raw ops v = run_steps (logged (mop_value raw)) ops ([], v)"

section \<open>Refinement\<close>

definition bufs_of :: "messages \<Rightarrow> nat \<Rightarrow> buffer option" where
  "bufs_of s i = map_option mo_buf (um_find i (ms_live s))"

definition ms_ok :: "messages \<Rightarrow> bool" where
  "ms_ok s \<longleftrightarrow> owns (ms_heap s) (bufs_of s)"

definition mo_value :: "heap \<Rightarrow> message_obj \<Rightarrow> message" where
  "mo_value h o1 = \<lparr>msg_mem = buf_value h (mo_buf o1), msg_pos = mo_pos o1, msg_has = mo_has o1\<rparr>"

definition ms_values :: "messages \<Rightarrow> nat \<Rightarrow> message option" where
  "ms_values s i = map_option (mo_value (ms_heap s)) (um_find i (ms_live s))"

lemma message_eta: "\<lparr>msg_mem = msg_mem m, msg_pos = msg_pos m, msg_has = msg_has m\<rparr> = m" for m :: message
  by simp

lemma ms_live_update: "s\<lparr>ms_live := l\<rparr> = \<lparr>ms_heap = ms_heap s, ms_live = l\<rparr>" for s :: messages
  by simp

lemma um_set_same: "um_find k m = Some v \<Longrightarrow> um_set k v m = m"
  by (induction m) (auto simp: um_find_def split: if_splits)

lemma ms_values_alt:
  "ms_values s j = map_option (\<lambda>o1. \<lparr>msg_mem = the (values_of (ms_heap s) (bufs_of s) j), msg_pos = mo_pos o1, msg_has = mo_has o1\<rparr>)
     (um_find j (ms_live s))"
  by (auto simp: ms_values_def values_of_def bufs_of_def mo_value_def option.map_comp intro!: option.map_cong)

lemma bufs_of_set [simp]:
  "bufs_of \<lparr>ms_heap = h, ms_live = um_set i o1 l\<rparr> = (\<lambda>j. map_option mo_buf (um_find j l))(i := Some (mo_buf o1))"
  by (auto simp: bufs_of_def fun_eq_iff um_find_set)

text \<open>One object gets a new state, the others keep theirs.\<close>

lemma ms_updated:
  assumes "owns h ((bufs_of s)(i := Some (mo_buf o1)))"
    and "values_of h ((bufs_of s)(i := Some (mo_buf o1))) = (values_of (ms_heap s) (bufs_of s))(i := Some v)"
  shows "ms_ok \<lparr>ms_heap = h, ms_live = um_set i o1 (ms_live s)\<rparr>"
    and "ms_values \<lparr>ms_heap = h, ms_live = um_set i o1 (ms_live s)\<rparr>
      = (ms_values s)(i := Some \<lparr>msg_mem = v, msg_pos = mo_pos o1, msg_has = mo_has o1\<rparr>)"
proof -
  let ?s = "\<lparr>ms_heap = h, ms_live = um_set i o1 (ms_live s)\<rparr>"
  have bufs: "bufs_of ?s = (bufs_of s)(i := Some (mo_buf o1))"
    by (auto simp: bufs_of_def fun_eq_iff um_find_set)
  show "ms_ok ?s"
    using assms(1) by (simp add: ms_ok_def bufs del: bufs_of_set)
  show "ms_values ?s = (ms_values s)(i := Some \<lparr>msg_mem = v, msg_pos = mo_pos o1, msg_has = mo_has o1\<rparr>)"
    by (auto simp: fun_eq_iff ms_values_alt bufs assms(2) um_find_set simp del: bufs_of_set)
qed

text \<open>A block goes from one object to another, whose own is gone.\<close>

lemma ms_handed_over:
  assumes "owns h ((bufs_of s)(i := Some (mo_buf o2), j := Some buf_empty))" and "um_find j (ms_live s) = Some o2" and "i \<noteq> j"
    and "values_of h ((bufs_of s)(i := Some (mo_buf o2), j := Some buf_empty))
      = (values_of (ms_heap s) (bufs_of s))(i := Some (buf_value (ms_heap s) (mo_buf o2)), j := Some [])"
  shows "ms_ok \<lparr>ms_heap = h, ms_live = um_set j mo_invalid (um_set i (fst (mo_move o2)) (ms_live s))\<rparr>"
    and "ms_values \<lparr>ms_heap = h, ms_live = um_set j mo_invalid (um_set i (fst (mo_move o2)) (ms_live s))\<rparr>
      = (ms_values s)(i := ms_values s j, j := Some (msg_invalidate m))"
proof -
  let ?s = "\<lparr>ms_heap = h, ms_live = um_set j mo_invalid (um_set i (fst (mo_move o2)) (ms_live s))\<rparr>"
  have bufs: "bufs_of ?s = (bufs_of s)(i := Some (mo_buf o2), j := Some buf_empty)"
    by (auto simp: bufs_of_def fun_eq_iff um_find_set mo_invalid_def mo_move_def)
  show "ms_ok ?s"
    using assms(1) by (simp add: ms_ok_def bufs del: bufs_of_set)
  show "ms_values ?s = (ms_values s)(i := ms_values s j, j := Some (msg_invalidate m))"
  proof
    fix k
    have "ms_values s j = Some (mo_value (ms_heap s) o2)"
      using assms(2) by (simp add: ms_values_def)
    then show "ms_values ?s k = ((ms_values s)(i := ms_values s j, j := Some (msg_invalidate m))) k"
      using assms(3) unfolding ms_values_alt [of ?s] bufs
      by (simp add: assms(4) um_find_set mo_value_def mo_move_def mo_invalid_def msg_invalidate_def ms_values_alt [of s k])
  qed
qed

text \<open>The operations on the block of one object.\<close>

lemma owns_write:
  assumes own: "owns h f" and i: "f i = Some b"
  shows "if off + length bs \<le> length (buf_value h b)
    then \<exists>h'. h_write b off bs h = Some h' \<and> owns h' f
      \<and> values_of h' f = (values_of h f)(i := Some (take off (buf_value h b) @ bs @ drop (off + length bs) (buf_value h b)))
    else h_write b off bs h = None"
proof (cases "b_data b")
  case None
  then show ?thesis
    using own values_at [of f i b h, OF i] by (auto simp: h_write_def buf_value_def buf_bytes_def fun_upd_idem)
next
  case (Some p)
  then obtain c where c: "um_find p (h_blocks h) = Some c" "length c = unat (b_size b)"
    using ownsD(1) [OF own i] by (auto simp: buf_ok_def)
  have v: "buf_value h b = c"
    using Some c by (simp add: buf_value_def buf_bytes_def)
  have pi: "ptr_of f i = Some p"
    using i Some by (simp add: ptr_of_def)
  have other: "b_data b' = Some p \<longleftrightarrow> j = i" if "f j = Some b'" for j b'
    using ownsD(2) [OF own pi, of j] that i Some by (auto simp: ptr_of_def)
  let ?c = "take off c @ bs @ drop (off + length bs) c"
  let ?h = "h\<lparr>h_blocks := um_set p ?c (h_blocks h)\<rparr>"
  show ?thesis
  proof (cases "off + length bs \<le> length c")
    case True
    have "buf_ok ?h b'" if "f j = Some b'" for j b'
      using ownsD(1) [OF own that] c True by (auto simp: buf_ok_def um_find_set split: option.splits)
    then have "owns ?h f"
      using own c(1) unfolding owns_def by (auto simp: um_find_set split: if_splits)
    moreover have "values_of ?h f = (values_of h f)(i := Some ?c)"
    proof
      fix j
      show "values_of ?h f j = ((values_of h f)(i := Some ?c)) j"
        using other [of j] i by (cases "f j") (auto simp: values_of_def buf_value_def buf_bytes_def um_find_set split: option.splits)
    qed
    ultimately show ?thesis
      using True Some c by (auto simp: h_write_def v buf_bytes_def)
  qed (use Some c in \<open>simp add: h_write_def v buf_bytes_def\<close>)
qed

text \<open>An object that stands for a message, and an operation on it that does what one on messages does.\<close>

definition stands_for :: "heap \<Rightarrow> (nat \<Rightarrow> buffer option) \<Rightarrow> nat \<Rightarrow> message_obj \<Rightarrow> message \<Rightarrow> bool" where
  "stands_for h f i o1 m \<longleftrightarrow> owns h f \<and> f i = Some (mo_buf o1) \<and> mo_value h o1 = m"

fun agrees :: "heap \<Rightarrow> (nat \<Rightarrow> buffer option) \<Rightarrow> nat \<Rightarrow> (message_obj \<times> heap) option \<Rightarrow> message option \<Rightarrow> bool" where
  "agrees h f i r None \<longleftrightarrow> r = None"
| "agrees h f i r (Some m) \<longleftrightarrow> (\<exists>o1 h'. r = Some (o1, h')
     \<and> owns h' (f(i := Some (mo_buf o1))) \<and> values_of h' (f(i := Some (mo_buf o1))) = (values_of h f)(i := Some (msg_mem m))
     \<and> mo_pos o1 = msg_pos m \<and> mo_has o1 = msg_has m)"

lemma agrees_cases:
  assumes "agrees h f i r (Some m)"
  obtains o1 h' where "r = Some (o1, h')" and "stands_for h' (f(i := Some (mo_buf o1))) i o1 m"
    and "values_of h' (f(i := Some (mo_buf o1))) = (values_of h f)(i := Some (msg_mem m))"
proof -
  obtain o1 h' where r: "r = Some (o1, h')" "owns h' (f(i := Some (mo_buf o1)))"
      "values_of h' (f(i := Some (mo_buf o1))) = (values_of h f)(i := Some (msg_mem m))"
      "mo_pos o1 = msg_pos m" "mo_has o1 = msg_has m"
    using assms by auto
  from fun_cong [OF r(3), of i] have "buf_value h' (mo_buf o1) = msg_mem m"
    by (simp add: values_of_def)
  then have "stands_for h' (f(i := Some (mo_buf o1))) i o1 m"
    using r(2,4,5) by (simp add: stands_for_def mo_value_def)
  from that [OF r(1) this r(3)] show thesis .
qed

lemma agrees_bind:
  assumes r: "agrees h f i r v"
    and step: "\<And>o1 h' f' m. stands_for h' f' i o1 m \<Longrightarrow> agrees h' f' i (g (o1, h')) (g' m)"
  shows "agrees h f i (Option.bind r g) (Option.bind v g')"
proof (cases v)
  case None
  then show ?thesis
    using r by simp
next
  case (Some m)
  then have "agrees h f i r (Some m)"
    using r by (simp only: Some)
  then obtain o1 h' where o1: "r = Some (o1, h')" "stands_for h' (f(i := Some (mo_buf o1))) i o1 m"
      "values_of h' (f(i := Some (mo_buf o1))) = (values_of h f)(i := Some (msg_mem m))"
    by (rule agrees_cases)
  from step [OF o1(2)] show ?thesis
    using Some o1(1,3) by (cases "g' m") simp_all
qed

lemma agrees_map:
  assumes "agrees h f i r v"
    and "\<And>o1 m. mo_pos o1 = msg_pos m \<Longrightarrow> mo_has o1 = msg_has m \<Longrightarrow>
      mo_buf (g o1) = mo_buf o1 \<and> msg_mem (g' m) = msg_mem m \<and> mo_pos (g o1) = msg_pos (g' m) \<and> mo_has (g o1) = msg_has (g' m)"
  shows "agrees h f i (map_option (\<lambda>(o1, h). (g o1, h)) r) (map_option g' v)"
  using assms by (cases v) fastforce+

lemma stands_for_length:
  assumes "stands_for h f i o1 m"
  shows "length (msg_mem m) = unat (b_size (mo_buf o1))"
  using assms ownsD(1) [of h f i "mo_buf o1"]
  by (auto simp: stands_for_def mo_value_def buf_value_def buf_bytes_def buf_ok_def split: option.splits)

lemma fit_agrees:
  assumes st: "stands_for h f i o1 m"
  shows "agrees h f i (mo_fit raw sz o1 h) (Some (msg_fit raw sz m))"
proof -
  have own: "owns h f" and i: "f i = Some (mo_buf o1)" and m: "m = mo_value h o1"
    using st by (simp_all add: stands_for_def)
  have len: "of_nat (length (msg_mem m)) = b_size (mo_buf o1)" and pos: "msg_pos m = mo_pos o1"
    and mem: "msg_mem m = buf_value h (mo_buf o1)" and has: "msg_has m = mo_has o1"
    using stands_for_length [OF st] m by (simp_all add: mo_value_def)
  show ?thesis
  proof (cases "b_size (mo_buf o1) - (of_nat (mo_pos o1) :: u64) < sz")
    case False
    then have "mo_fit raw sz o1 h = Some (o1, h)" "msg_fit raw sz m = m"
      by (simp_all add: mo_fit_def msg_fit_def len pos Let_def)
    moreover have "f(i := Some (mo_buf o1)) = f" "(values_of h f)(i := Some (msg_mem m)) = values_of h f"
      using i values_at [of f i "mo_buf o1" h] mem by auto
    ultimately show ?thesis
      using own pos has by simp
  next
    case True
    let ?n = "b_size (mo_buf o1) + (if sz < DEFAULT_BUFFER_SIZE then DEFAULT_BUFFER_SIZE else sz)"
    obtain r b' h' where b': "buf_resize raw True ?n (mo_buf o1) h = Some (r, b', h')" "owns h' (f(i := Some b'))"
        "values_of h' (f(i := Some b')) = (values_of h f)(i := Some (resize raw (unat ?n) (buf_value h (mo_buf o1))))"
      using owns_resize [OF own i, of raw True ?n] by auto
    have "h_realloc raw True (b_data (mo_buf o1)) (unat ?n) h = Some (b_data b', h') \<and> b' = \<lparr>b_size = ?n, b_data = b_data b'\<rparr>"
      using b'(1) by (auto simp: buf_resize_def h_realloc_def unat_eq_0 split: option.splits if_splits prod.splits)
    then have "mo_fit raw sz o1 h = Some (o1\<lparr>mo_buf := b'\<rparr>, h')"
      using True by (simp add: mo_fit_def Let_def)
    moreover have "msg_fit raw sz m = m\<lparr>msg_mem := resize raw (unat ?n) (msg_mem m)\<rparr>"
      using True by (simp add: msg_fit_def len pos Let_def)
    ultimately show ?thesis
      using b'(2,3) pos mem has by simp
  qed
qed

lemma store_agrees:
  assumes st: "stands_for h f i o1 m"
  shows "agrees h f i (mo_store bs (o1, h)) (msg_store bs m)"
proof -
  have own: "owns h f" and i: "f i = Some (mo_buf o1)" and m: "m = mo_value h o1"
    using st by (simp_all add: stands_for_def)
  have self: "f(i := Some (mo_buf o1)) = f"
    using i by auto
  show ?thesis
    using owns_write [OF own i, of "mo_pos o1" bs] self
    by (auto simp: m mo_store_def msg_store_def mo_value_def split: if_splits)
qed

lemma fit_store_agrees:
  "stands_for h f i o1 m \<Longrightarrow>
     agrees h f i (Option.bind (mo_fit raw sz o1 h) (mo_store bs)) (msg_store bs (msg_fit raw sz m))"
  using agrees_bind [OF fit_agrees, where g = "mo_store bs" and g' = "msg_store bs"] store_agrees by simp

lemma put_agrees: "stands_for h f i o1 m \<Longrightarrow> agrees h f i (mo_put raw bs o1 h) (msg_put raw bs m)"
  unfolding mo_put_def msg_put_def by (rule agrees_map [OF fit_store_agrees]) simp_all

lemma receive_agrees:
  "stands_for h f i o1 m \<Longrightarrow>
     agrees h f i (mo_receive raw len bs o1 h) (map_option (\<lambda>m. m\<lparr>msg_has := True\<rparr>) (msg_store bs (msg_fit raw len m)))"
  unfolding mo_receive_def by (rule agrees_map [OF fit_store_agrees]) simp_all

text \<open>A whole operation: the outputs are the same, the objects stand for the new values.\<close>

definition op_refines :: "(u8 list \<times> messages) option \<Rightarrow> (u8 list \<times> (nat \<Rightarrow> message option)) option \<Rightarrow> bool" where
  "op_refines r v \<longleftrightarrow> map_option (\<lambda>(out, s). (out, ms_values s)) r = v \<and> (\<forall>out s. r = Some (out, s) \<longrightarrow> ms_ok s)"

lemma op_refinesI [intro]: "ms_ok s \<Longrightarrow> ms_values s = v \<Longrightarrow> op_refines (Some (out, s)) (Some (out, v))"
  by (simp add: op_refines_def)

lemma put_refines:
  assumes "agrees (ms_heap s) (bufs_of s) i r v"
  shows "op_refines (ms_put i r s) (map_option (\<lambda>m. ([], (ms_values s)(i := Some m))) v)"
proof (cases v)
  case None
  then show ?thesis
    using assms by (simp add: ms_put_def op_refines_def)
next
  case (Some m)
  then obtain o1 h' where r: "r = Some (o1, h')" "owns h' ((bufs_of s)(i := Some (mo_buf o1)))"
      "values_of h' ((bufs_of s)(i := Some (mo_buf o1))) = (values_of (ms_heap s) (bufs_of s))(i := Some (msg_mem m))"
      "mo_pos o1 = msg_pos m" "mo_has o1 = msg_has m"
    using assms by auto
  then show ?thesis
    using ms_updated [OF r(2,3)] Some by (simp add: ms_put_def op_refines_def message_eta)
qed

lemma values_live: "ms_values s i = None \<longleftrightarrow> um_find i (ms_live s) = None"
  "um_find i (ms_live s) = Some o1 \<Longrightarrow> ms_values s i = Some (mo_value (ms_heap s) o1)"
  by (simp_all add: ms_values_def)

lemma bufs_live: "um_find i (ms_live s) = Some o1 \<Longrightarrow> bufs_of s i = Some (mo_buf o1)"
  "um_find i (ms_live s) = None \<Longrightarrow> ptr_of (bufs_of s) i = None"
  by (simp_all add: bufs_of_def ptr_of_def)

lemma new_agrees:
  assumes "owns h f" and "ptr_of f i = None"
  shows "agrees h f i (Some (mo_new raw len h)) (Some (message_new raw len))"
proof -
  obtain p h' where m: "h_malloc (map raw [0..<unat len]) h = (p, h')"
    by (cases "h_malloc (map raw [0..<unat len]) h")
  then show ?thesis
    using owns_give [OF assms _ m] by (simp add: mo_new_def buf_alloc_def message_new_def)
qed

lemma copy_agrees:
  assumes "owns h f" and "ptr_of f i = None" and "f j = Some (mo_buf rhs)"
  shows "agrees h f i (mo_copy rhs h) (Some (msg_copy (mo_value h rhs)))"
  using owns_copy [OF assms] by (auto simp: mo_copy_def msg_copy_def mo_value_def)

lemma assign_agrees:
  assumes "owns h f" and "f i = Some (mo_buf o1)" and "f j = Some (mo_buf rhs)" and "i \<noteq> j"
  shows "agrees h f i (mo_assign o1 rhs h) (Some (msg_copy (mo_value h rhs)))"
proof -
  have "mo_assign o1 rhs h
      = map_option (\<lambda>(b, h). (\<lparr>mo_buf = b, mo_pos = mo_pos rhs, mo_has = mo_has rhs\<rparr>, h)) (buf_assign (mo_buf o1) (mo_buf rhs) h)"
    by (simp add: mo_assign_def mo_dispose_def mo_copy_def [abs_def] buf_assign_def split: option.splits)
  then show ?thesis
    using owns_assign [OF assms] by (auto simp: msg_copy_def mo_value_def)
qed

lemma get_value:
  assumes "stands_for h f i o1 m"
  shows "mo_get len o1 h = map_option (\<lambda>(bs, _). (bs, o1\<lparr>mo_pos := mo_pos o1 + len\<rparr>)) (msg_get len m)"
proof -
  obtain c where "buf_bytes h (mo_buf o1) = Some c"
    using assms ownsD(1) [of h f i "mo_buf o1"] by (auto simp: stands_for_def buf_bytes_def buf_ok_def split: option.splits)
  then show ?thesis
    using assms by (auto simp: stands_for_def mo_get_def msg_get_def mo_value_def buf_value_def)
qed

lemma send_refines:
  assumes ok: "ms_ok s" and i: "um_find i (ms_live s) = Some o1"
  shows "op_refines (map_option (\<lambda>(bs, h). (bs, s\<lparr>ms_heap := h\<rparr>)) (mo_send o1 (ms_heap s)))
    (map_option (\<lambda>(bs, m). (bs, (ms_values s)(i := Some m))) (msg_send (mo_value (ms_heap s) o1)))"
proof -
  let ?h = "ms_heap s" and ?hdr = "word_bytes (of_nat (mo_pos o1) :: u64)" and ?c = "buf_value (ms_heap s) (mo_buf o1)"
  have own: "owns ?h (bufs_of s)"
    using ok by (simp add: ms_ok_def)
  have hdr: "length ?hdr = 8"
    by (simp add: size_of_def)
  note w = owns_write [OF own bufs_live(1) [OF i], of 0 ?hdr, unfolded hdr, simplified]
  show ?thesis
  proof (cases "8 \<le> length ?c")
    case False
    then show ?thesis
      using w by (simp add: mo_send_def op_refines_def msg_send_def Let_def mo_value_def)
  next
    case True
    let ?c' = "?hdr @ drop 8 ?c"
    obtain h' where h': "h_write (mo_buf o1) 0 ?hdr ?h = Some h'" "owns h' (bufs_of s)"
        "values_of h' (bufs_of s) = (values_of ?h (bufs_of s))(i := Some ?c')"
      using w True by auto
    have "(bufs_of s)(i := Some (mo_buf o1)) = bufs_of s" "\<lparr>ms_heap = h', ms_live = um_set i o1 (ms_live s)\<rparr> = s\<lparr>ms_heap := h'\<rparr>"
      using bufs_live(1) [OF i] i by (auto simp: um_set_same)
    then have s': "ms_ok (s\<lparr>ms_heap := h'\<rparr>)"
        "ms_values (s\<lparr>ms_heap := h'\<rparr>) = (ms_values s)(i := Some \<lparr>msg_mem = ?c', msg_pos = mo_pos o1, msg_has = mo_has o1\<rparr>)"
      using ms_updated [of h' s i o1 ?c'] h'(2,3) by simp_all
    have "stands_for h' (bufs_of s) i (o1\<lparr>mo_pos := 0\<rparr>) \<lparr>msg_mem = ?c', msg_pos = 0, msg_has = mo_has o1\<rparr>"
      using h'(2) bufs_live(1) [OF i] fun_cong [OF h'(3), of i] by (simp add: stands_for_def mo_value_def values_of_def)
    from get_value [OF this, of "mo_pos o1"] show ?thesis
      using True h'(1) s' hdr by (simp add: mo_send_def op_refines_def msg_send_def Let_def mo_value_def msg_get_def)
  qed
qed

lemma op_refines_None [simp]: "op_refines None v \<longleftrightarrow> v = None"
  by (auto simp: op_refines_def)

lemma mop_apply_refines:
  assumes ok: "ms_ok s"
  shows "op_refines (mop_apply raw op s) (mop_value raw op (ms_values s))"
proof -
  have own: "owns (ms_heap s) (bufs_of s)"
    using ok by (simp add: ms_ok_def)
  note stay = op_refinesI [OF ok refl]
  have st: "stands_for (ms_heap s) (bufs_of s) i o1 (mo_value (ms_heap s) o1)" if "um_find i (ms_live s) = Some o1" for i o1
    using own bufs_live(1) [OF that] by (simp add: stands_for_def)
  show ?thesis
  proof (cases op)
    case (M_new i len)
    show ?thesis
    proof (cases "um_find i (ms_live s)")
      case None
      from put_refines [OF new_agrees [OF own bufs_live(2) [OF None]], of raw len] show ?thesis
        using None M_new values_live(1) [of s i] by simp
    qed (use M_new stay values_live(2) in simp)
  next
    case (M_copy i j)
    show ?thesis
    proof (cases "um_find i (ms_live s) = None \<and> um_find j (ms_live s) \<noteq> None")
      case True
      then obtain rhs where i: "um_find i (ms_live s) = None" and j: "um_find j (ms_live s) = Some rhs"
        by auto
      from put_refines [OF copy_agrees [OF own bufs_live(2) [OF i] bufs_live(1) [OF j]]] show ?thesis
        using i j M_copy values_live(1) [of s i] values_live(2) [OF j] by simp
    qed (use M_copy stay in \<open>auto simp: ms_values_def split: option.splits\<close>)
  next
    case (M_assign i j)
    show ?thesis
    proof (cases "um_find i (ms_live s) \<noteq> None \<and> um_find j (ms_live s) \<noteq> None \<and> i \<noteq> j")
      case True
      then obtain o1 rhs where i: "um_find i (ms_live s) = Some o1" and j: "um_find j (ms_live s) = Some rhs" and ij: "i \<noteq> j"
        by auto
      from put_refines [OF assign_agrees [OF own bufs_live(1) [OF i] bufs_live(1) [OF j] ij]] show ?thesis
        using i j ij M_assign values_live(2) [OF i] values_live(2) [OF j] by simp
    qed (use M_assign stay in \<open>auto simp: ms_values_def split: option.splits\<close>)
  next
    case (M_put i bs)
    show ?thesis
    proof (cases "um_find i (ms_live s)")
      case (Some o1)
      from put_refines [OF put_agrees [OF st [OF Some]], of raw bs] show ?thesis
        using Some M_put values_live(2) [OF Some] by simp
    qed (use M_put stay in \<open>simp add: ms_values_def\<close>)
  next
    case (M_receive i len bs)
    show ?thesis
    proof (cases "um_find i (ms_live s)")
      case (Some o1)
      from put_refines [OF receive_agrees [OF st [OF Some]], of raw len bs] show ?thesis
        using Some M_receive values_live(2) [OF Some] by (simp add: option.map_comp comp_def)
    qed (use M_receive stay in \<open>simp add: ms_values_def\<close>)
  next
    case (M_send i)
    show ?thesis
    proof (cases "um_find i (ms_live s)")
      case (Some o1)
      from send_refines [OF ok Some] show ?thesis
        using Some M_send values_live(2) [OF Some] by simp
    qed (use M_send stay in \<open>simp add: ms_values_def\<close>)
  next
    case (M_get i len)
    show ?thesis
    proof (cases "um_find i (ms_live s)")
      case (Some o1)
      let ?o = "o1\<lparr>mo_pos := mo_pos o1 + len\<rparr>" and ?c = "buf_value (ms_heap s) (mo_buf o1)"
      have "(bufs_of s)(i := Some (mo_buf ?o)) = bufs_of s" "values_of (ms_heap s) (bufs_of s) = (values_of (ms_heap s) (bufs_of s))(i := Some ?c)"
        using bufs_live(1) [OF Some] values_at [of "bufs_of s" i "mo_buf o1" "ms_heap s"] by auto
      with ms_updated [of "ms_heap s" s i ?o ?c] own have
        "ms_ok (s\<lparr>ms_live := um_set i ?o (ms_live s)\<rparr>)"
        "ms_values (s\<lparr>ms_live := um_set i ?o (ms_live s)\<rparr>) = (ms_values s)(i := Some \<lparr>msg_mem = ?c, msg_pos = mo_pos o1 + len, msg_has = mo_has o1\<rparr>)"
        by (simp_all add: ms_live_update)
      then show ?thesis
        using Some M_get values_live(2) [OF Some] get_value [OF st [OF Some], of len]
        by (auto simp: op_refines_def msg_get_def mo_value_def)
    qed (use M_get stay in \<open>simp add: ms_values_def\<close>)
  next
    case (M_move i j)
    show ?thesis
    proof (cases "um_find i (ms_live s) = None \<and> um_find j (ms_live s) \<noteq> None")
      case True
      then obtain rhs where i: "um_find i (ms_live s) = None" and j: "um_find j (ms_live s) = Some rhs" and ij: "i \<noteq> j"
        by (cases "i = j") auto
      note over = owns_hand_over [OF own ij bufs_live(2) [OF i] bufs_live(1) [OF j]]
      show ?thesis
        using ms_handed_over [OF conjunct1 [OF over] j ij conjunct2 [OF over]] i j ij M_move values_live(1) [of s i] values_live(2) [OF j]
        by (simp add: op_refines_def mo_move_def msg_move_def mo_value_def ms_live_update)
    qed (use M_move stay in \<open>auto simp: ms_values_def split: option.splits\<close>)
  next
    case (M_move_assign i j)
    show ?thesis
    proof (cases "um_find i (ms_live s) \<noteq> None \<and> um_find j (ms_live s) \<noteq> None \<and> i \<noteq> j")
      case True
      then obtain o1 rhs where i: "um_find i (ms_live s) = Some o1" and j: "um_find j (ms_live s) = Some rhs" and ij: "i \<noteq> j"
        by auto
      obtain h' where h': "buf_free (mo_buf o1) (ms_heap s) = Some h'"
          "owns h' ((bufs_of s)(i := Some (mo_buf rhs), j := Some buf_empty))"
          "values_of h' ((bufs_of s)(i := Some (mo_buf rhs), j := Some buf_empty))
            = (values_of (ms_heap s) (bufs_of s))(i := Some (buf_value (ms_heap s) (mo_buf rhs)), j := Some [])"
        using owns_move_assign [OF own bufs_live(1) [OF i] bufs_live(1) [OF j] ij] by (auto simp: buf_move_assign_def)
      show ?thesis
        using ms_handed_over [OF h'(2) j ij h'(3)] h'(1) i j ij M_move_assign values_live(2) [OF i] values_live(2) [OF j]
        by (simp add: op_refines_def mo_move_assign_def mo_dispose_def mo_move_def msg_move_def mo_value_def)
    qed (use M_move_assign stay in \<open>auto simp: ms_values_def split: option.splits\<close>)
  next
    case (M_destroy i)
    show ?thesis
    proof (cases "um_find i (ms_live s)")
      case None
      then have "(ms_values s)(i := None) = ms_values s"
        by (auto simp: ms_values_def fun_eq_iff)
      then show ?thesis
        using M_destroy None stay by simp
    next
      case (Some o1)
      obtain h' where h': "buf_free (mo_buf o1) (ms_heap s) = Some h'" "owns h' ((bufs_of s)(i := None))"
          "values_of h' ((bufs_of s)(i := None)) = (values_of (ms_heap s) (bufs_of s))(i := None)"
        using owns_destroy [OF own bufs_live(1) [OF Some]] by auto
      let ?s = "\<lparr>ms_heap = h', ms_live = um_erase i (ms_live s)\<rparr>"
      have bufs: "bufs_of ?s = (bufs_of s)(i := None)"
        by (auto simp: bufs_of_def fun_eq_iff um_find_erase)
      have "ms_ok ?s"
        using h'(2) by (simp add: ms_ok_def bufs)
      moreover have "ms_values ?s = (ms_values s)(i := None)"
        by (rule ext) (simp add: ms_values_alt [of ?s] ms_values_alt [of s] bufs h'(3) um_find_erase)
      ultimately show ?thesis
        using M_destroy Some h'(1) by (simp add: op_refines_def mo_dispose_def)
    qed
  qed
qed

definition messages_empty :: messages where
  "messages_empty = \<lparr>ms_heap = heap_empty, ms_live = []\<rparr>"

lemma messages_empty_ok: "ms_ok messages_empty" "ms_values messages_empty = (\<lambda>_. None)"
  by (simp_all add: ms_ok_def bufs_of_def [abs_def] ms_values_def fun_eq_iff messages_empty_def owns_def heap_empty_def um_find_def ptr_of_def)

interpretation messages: value_semantics "logged (mop_apply raw)" "logged (mop_value raw)" "\<lambda>(outs, s). ms_ok s"
    "\<lambda>(outs, s). (outs, ms_values s)" for raw
proof
  fix st :: "u8 list list \<times> messages" and op
  assume "case st of (outs, s) \<Rightarrow> ms_ok s"
  then have r: "op_refines (mop_apply raw op (snd st)) (mop_value raw op (ms_values (snd st)))"
    by (auto intro: mop_apply_refines)
  then show "logged (mop_value raw) op (case st of (outs, s) \<Rightarrow> (outs, ms_values s))
      = map_option (\<lambda>(outs, s). (outs, ms_values s)) (logged (mop_apply raw) op st)"
    by (cases "mop_apply raw op (snd st)") (auto simp: logged_def op_refines_def split: prod.splits)
  show "case st' of (outs, s) \<Rightarrow> ms_ok s" if "logged (mop_apply raw) op st = Some st'" for st'
    using that r by (auto simp: logged_def op_refines_def split: prod.splits)
qed

lemma mop_run_refines:
  assumes "ms_ok s"
  shows "map_option (\<lambda>(outs, s). (outs, ms_values s)) (mop_run raw ops s) = mop_values raw ops (ms_values s)"
    and "mop_run raw ops s = Some (outs, s') \<Longrightarrow> ms_ok s'"
  using messages.run_values [of "([], s)" raw ops] messages.run_ok [of "([], s)" raw ops "(outs, s')"] assms
  by (simp_all add: mop_run_def mop_values_def)

section \<open>The tracker\<close>

text \<open>\<^verbatim>\<open>_enter\<close> and \<^verbatim>\<open>_exit\<close> stand around every operation but extraction and the constructor with a length.\<close>

definition msg_enter :: "sandbox \<Rightarrow> sandbox" where
  "msg_enter s = sb_lock s"

definition msg_exit :: "sandbox \<Rightarrow> sandbox" where
  "msg_exit s = sb_unlock s"

lemma message_operation_untracked:
  assumes "m_locked (sb_memory s) \<noteq> size_max"
  shows "msg_exit ((msg_enter s)\<lparr>sb_memory := fold mem_apply es (sb_memory (msg_enter s))\<rparr>) = s"
  using locked_section_invisible [OF assms] by (simp add: msg_enter_def msg_exit_def)

section \<open>Property\<close>

text \<open>C13. The messages in memory behave as values: whatever a program constructs, copies, moves, assigns, fills, reads,
  sends, receives into and destroys, every output and every live message is what the operations on values
  give, an operation goes outside a block exactly when the operation on values does, no block is freed twice
  or used after it was freed, and every block still allocated belongs to exactly one live message.\<close>

theorem messages_are_values:
  "map_option (\<lambda>(outs, s). (outs, ms_values s)) (mop_run raw ops messages_empty) = mop_values raw ops (\<lambda>_. None)
    \<and> (\<forall>outs s p. mop_run raw ops messages_empty = Some (outs, s) \<longrightarrow> um_find p (h_blocks (ms_heap s)) \<noteq> None \<longrightarrow>
        (\<exists>!i. ptr_of (bufs_of s) i = Some p))"
proof -
  have unique: "\<exists>!i. ptr_of (bufs_of s) i = Some p" if "ms_ok s" "um_find p (h_blocks (ms_heap s)) \<noteq> None" for s p
    using that ownsD(2,4) [of "ms_heap s" "bufs_of s"] unfolding ms_ok_def by blast
  show ?thesis
    using mop_run_refines [OF messages_empty_ok(1), of raw ops] unique unfolding messages_empty_ok(2) by blast
qed

definition sample_mops :: "mop list" where
  "sample_mops = [M_new 1 16, M_put 1 [7, 8], M_copy 2 1, M_put 2 [9], M_new 3 0, M_move_assign 3 1, M_send 2, M_destroy 2, M_send 3]"

theorem messages_are_values_witness:
  "\<exists>s. mop_run (\<lambda>_. 0) sample_mops messages_empty
      = Some ([[], [], [], [], [], [], [11, 0, 0, 0, 0, 0, 0, 0, 7, 8, 9], [], [10, 0, 0, 0, 0, 0, 0, 0, 7, 8]], s)
    \<and> (\<forall>p. um_find p (h_blocks (ms_heap s)) \<noteq> None \<longrightarrow> (\<exists>!i. ptr_of (bufs_of s) i = Some p))"
proof -
  have "map_option fst (mop_values (\<lambda>_. 0) sample_mops (\<lambda>_. None))
      = Some [[], [], [], [], [], [], [11, 0, 0, 0, 0, 0, 0, 0, 7, 8, 9], [], [10, 0, 0, 0, 0, 0, 0, 0, 7, 8]]"
    unfolding sample_mops_def by code_simp
  then show ?thesis
    using messages_are_values [of "\<lambda>_. 0" sample_mops] by (auto simp: option.map_comp)
qed

end
