(* ===== verification/Call_Text.thy ===== *)
theory Call_Text
  imports Call_Stack Util
begin

text \<open>
  The text of a captured stack (\<^verbatim>\<open>CallStack::toString\<close> of \<^verbatim>\<open>src/call_stack.cpp\<close>). What the dynamic linker knows of
  an address, the demangler, the symbols of \<^verbatim>\<open>backtrace_symbols\<close> and the printing of \<^verbatim>\<open>%p\<close> are arguments. A frame that
  is not there is \<open>None\<close>.
\<close>

section \<open>Printing a frame\<close>

text \<open>\<^verbatim>\<open>Dl_info\<close>: the name of the nearest symbol, if there is one, and its address.\<close>

record dl_info =
  dli_sname :: "string option"
  dli_saddr :: addr

record names =
  nm_dladdr :: "addr \<Rightarrow> dl_info option"
  nm_demangle :: "string \<Rightarrow> string option"
  nm_symbol :: "addr \<Rightarrow> string"
  nm_pointer :: "addr \<Rightarrow> string"

text \<open>\<^verbatim>\<open>%-3d\<close>, \<^verbatim>\<open>%s\<close> of a null pointer, and \<^verbatim>\<open>snprintf\<close> into an array.\<close>

definition pad_right :: "nat \<Rightarrow> string \<Rightarrow> string" where
  "pad_right n s = s @ replicate (n - length s) CHR '' ''"

definition c_name :: "string option \<Rightarrow> string" where
  "c_name s = (case s of None \<Rightarrow> ''(null)'' | Some s \<Rightarrow> s)"

definition snprintf :: "nat \<Rightarrow> string \<Rightarrow> string" where
  "snprintf cap s = take (cap - 1) s"

definition symbol_name :: "names \<Rightarrow> string option \<Rightarrow> string" where
  "symbol_name nm sname =
    (case Option.bind sname (nm_demangle nm) of None \<Rightarrow> c_name sname | Some demangled \<Rightarrow> demangled)"

definition frame_text :: "names \<Rightarrow> nat \<Rightarrow> nat \<Rightarrow> addr \<Rightarrow> string" where
  "frame_text nm len i a =
    (let number = pad_right 3 (show_nat (len - i - 1)) @ ''  '' @ nm_pointer nm a @ ''  '';
         newline = (if i = len - 1 then '''' else ''\<newline>'')
     in snprintf 1024
          (case nm_dladdr nm a of
             Some info \<Rightarrow> number @ symbol_name nm (dli_sname info) @ '' + '' @ nm_pointer nm (a - dli_saddr info) @ newline
           | None \<Rightarrow> number @ nm_symbol nm a @ newline))"

section \<open>The text of a stack\<close>

fun frames_text :: "names \<Rightarrow> nat \<Rightarrow> addr list \<Rightarrow> nat \<Rightarrow> nat \<Rightarrow> string option" where
  "frames_text nm len st i 0 = Some []"
| "frames_text nm len st i (Suc n) =
    (if i < length st then map_option ((@) (frame_text nm len i (st ! i))) (frames_text nm len st (i + 1) n) else None)"

definition cs_toString :: "names \<Rightarrow> call_stack \<Rightarrow> string option" where
  "cs_toString nm cs =
    map_option (\<lambda>s. s @ (if cs_len cs = MAX_STACK_FRAMES + cs_skip cs then ''\<newline>[truncated]'' else ''''))
      (frames_text nm (cs_len cs) (case cs_stack cs of None \<Rightarrow> [] | Some st \<Rightarrow> st) (cs_skip cs) (cs_len cs - cs_skip cs))"

section \<open>Assignment and destruction\<close>

text \<open>The arrays given back to \<^verbatim>\<open>free\<close> of the C library, and the objects afterwards; \<open>same\<close> is \<^verbatim>\<open>this == &rhs\<close>.\<close>

definition cs_dispose :: "call_stack \<Rightarrow> addr list list" where
  "cs_dispose cs = (case cs_stack cs of None \<Rightarrow> [] | Some st \<Rightarrow> [st])"

definition cs_destroy :: "call_stack \<Rightarrow> addr list list \<times> call_stack" where
  "cs_destroy cs = (cs_dispose cs, cs_invalidate cs)"

definition cs_assign :: "bool \<Rightarrow> call_stack \<Rightarrow> call_stack \<Rightarrow> addr list list \<times> call_stack" where
  "cs_assign same cs rhs = (if \<not> same then (cs_dispose cs, cs_copy rhs) else ([], cs))"

definition cs_move_assign :: "bool \<Rightarrow> call_stack \<Rightarrow> call_stack \<Rightarrow> addr list list \<times> call_stack \<times> call_stack" where
  "cs_move_assign same cs rhs = (if \<not> same then (cs_dispose cs, cs_move rhs) else ([], cs, rhs))"

section \<open>What is printed\<close>

lemma frames_text_lines:
  "i + n \<le> length st \<Longrightarrow> frames_text nm len st i n = Some (concat (map (\<lambda>j. frame_text nm len j (st ! j)) [i..<i + n]))"
  by (induction n arbitrary: i) (simp_all add: upt_conv_Cons del: upt_Suc)

lemma frame_text_short: "length (frame_text nm len i a) \<le> 1023"
  by (simp add: frame_text_def Let_def snprintf_def)

text \<open>
  A stack that was just captured prints the frames of its callers, innermost first and numbered down to 0 for the
  outermost one captured; nothing is printed outside the array. The mark at the end also stands on
  a stack of exactly as many frames as fit.
\<close>

theorem traced_text:
  fixes bt :: "addr list"
  assumes "length raw = cs_capacity (skip + 1)"
  defines "n \<equiv> min (length bt) (cs_capacity (skip + 1))"
  shows "cs_toString nm (trace_stack bt raw skip)
    = Some (concat (map (\<lambda>j. frame_text nm n j (bt ! j)) [skip + 1..<n])
        @ (if length bt \<ge> cs_capacity (skip + 1) then ''\<newline>[truncated]'' else ''''))"
proof -
  let ?st = "take n bt @ drop n raw"
  have n: "n \<le> length bt" "n \<le> length ?st" "n = MAX_STACK_FRAMES + (skip + 1) \<longleftrightarrow> length bt \<ge> cs_capacity (skip + 1)"
    using assms by (auto simp: n_def cs_capacity_def)
  have "?st ! j = bt ! j" if "j < n" for j
    using that n(1) by (simp add: nth_append)
  then have same: "map (\<lambda>j. frame_text nm n j (?st ! j)) [skip + 1..<n] = map (\<lambda>j. frame_text nm n j (bt ! j)) [skip + 1..<n]"
    by simp
  have "frames_text nm n ?st (skip + 1) (n - (skip + 1)) = Some (concat (map (\<lambda>j. frame_text nm n j (?st ! j)) [skip + 1..<n]))"
  proof (cases "skip + 1 \<le> n")
    case True
    then show ?thesis
      using frames_text_lines [of "skip + 1" "n - (skip + 1)" ?st nm n] n(2) by simp
  qed simp
  moreover have "trace_stack bt raw skip = \<lparr>cs_len = n, cs_stack = Some ?st, cs_skip = skip + 1\<rparr>"
    by (simp add: trace_stack_def n_def Let_def)
  ultimately show ?thesis
    using n(3) unfolding same by (simp add: cs_toString_def)
qed

text \<open>Copying keeps the text; a moved stack leaves an empty one.\<close>

theorem copied_text:
  assumes "cs_stack cs = Some st" and "cs_len cs \<le> length st"
  shows "cs_toString nm (cs_copy cs) = cs_toString nm cs"
proof -
  have "frames_text nm len (take m st) i k = frames_text nm len st i k" if "i + k \<le> m" "m \<le> length st" for nm len m i k
    using that by (induction k arbitrary: i) auto
  from this [of "cs_skip cs" "cs_len cs - cs_skip cs" "cs_len cs"] show ?thesis
    using assms by (cases "cs_skip cs \<le> cs_len cs") (simp_all add: cs_toString_def cs_copy_def)
qed

theorem moved_text: "cs_toString nm (fst (cs_move cs)) = cs_toString nm cs \<and> cs_toString nm (snd (cs_move cs)) = Some []"
  by (simp add: cs_toString_def cs_move_def cs_invalidate_def MAX_STACK_FRAMES_def)

text \<open>Moving into a stack and destroying both gives every array back once.\<close>

theorem moved_freed_once:
  "cs_move_assign False cs rhs = (freed, cs', rhs') \<Longrightarrow>
     freed @ fst (cs_destroy cs') @ fst (cs_destroy rhs') = cs_dispose cs @ cs_dispose rhs \<and> fst (cs_destroy (snd (cs_destroy cs'))) = []"
  by (auto simp: cs_move_assign_def cs_move_def cs_destroy_def cs_dispose_def cs_invalidate_def)

end
