(* ===== verification/Run_Options.thy ===== *)
theory Run_Options
  imports Buffer
begin

text \<open>
  The options of a sandboxed run (\<^verbatim>\<open>Sandbox::Options\<close> of \<^verbatim>\<open>include/dtest_core/sandbox.h\<close>): whether it forks, and three
  byte buffers, the input it is given and the output and error streams it collects, over the heap of theory
  \<open>Buffer\<close>.
\<close>

section \<open>Operations\<close>

record run_options =
  ro_fork :: bool
  ro_in :: buffer
  ro_out :: buffer
  ro_err :: buffer

definition options_new :: run_options where
  "options_new = \<lparr>ro_fork = True, ro_in = buf_empty, ro_out = buf_empty, ro_err = buf_empty\<rparr>"

definition options_fork :: "bool \<Rightarrow> run_options \<Rightarrow> run_options" where
  "options_fork val opts = opts\<lparr>ro_fork := val\<rparr>"

text \<open>\<^verbatim>\<open>input\<close> assigns a copy, or takes the buffer that is moved in and leaves it empty.\<close>

definition options_input :: "buffer \<Rightarrow> run_options \<Rightarrow> heap \<Rightarrow> (run_options \<times> heap) option" where
  "options_input rhs opts h = map_option (\<lambda>(b, h). (opts\<lparr>ro_in := b\<rparr>, h)) (buf_assign (ro_in opts) rhs h)"

definition options_input_moved :: "buffer \<Rightarrow> run_options \<Rightarrow> heap \<Rightarrow> ((run_options \<times> buffer) \<times> heap) option" where
  "options_input_moved rhs opts h =
    map_option (\<lambda>((b, rhs), h). ((opts\<lparr>ro_in := b\<rparr>, rhs), h)) (buf_move_assign (ro_in opts) rhs h)"

definition options_output :: "run_options \<Rightarrow> buffer" where
  "options_output opts = ro_out opts"

definition options_error :: "run_options \<Rightarrow> buffer" where
  "options_error opts = ro_err opts"

text \<open>The members are destroyed in reverse order.\<close>

definition options_destroy :: "run_options \<Rightarrow> heap \<Rightarrow> heap option" where
  "options_destroy opts h =
    Option.bind (buf_free (ro_err opts) h) (\<lambda>h. Option.bind (buf_free (ro_out opts) h) (buf_free (ro_in opts)))"

section \<open>Ownership\<close>

text \<open>The options and one buffer of their user, as objects 0 to 3.\<close>

definition options_view :: "run_options \<Rightarrow> buffer \<Rightarrow> nat \<Rightarrow> buffer option" where
  "options_view opts user = (\<lambda>_. None)(0 := Some (ro_in opts), 1 := Some (ro_out opts), 2 := Some (ro_err opts), 3 := Some user)"

lemma options_view_simps [simp]:
  "options_view opts user 0 = Some (ro_in opts)" "options_view opts user 3 = Some user"
  "(options_view opts user)(0 := Some b) = options_view (opts\<lparr>ro_in := b\<rparr>) user"
  "(options_view opts user)(3 := Some b) = options_view opts b"
  by (auto simp: options_view_def fun_eq_iff)

lemma options_values_at: "values_of h (options_view opts user) =
    (\<lambda>_. None)(0 := Some (buf_value h (ro_in opts)), 1 := Some (buf_value h (ro_out opts)),
      2 := Some (buf_value h (ro_err opts)), 3 := Some (buf_value h user))"
  by (auto simp: values_of_def options_view_def fun_eq_iff)

text \<open>
  The input becomes the user's bytes, in a block of its own, and the old input is released; the output, the
  error stream and the user's buffer keep their bytes, but for the user's when it is moved.
\<close>

theorem input_copied:
  assumes "owns h (options_view opts user)"
  shows "\<exists>opts' h'. options_input user opts h = Some (opts', h') \<and> owns h' (options_view opts' user)
    \<and> buf_value h' (ro_in opts') = buf_value h user \<and> buf_value h' user = buf_value h user
    \<and> buf_value h' (ro_out opts') = buf_value h (ro_out opts) \<and> buf_value h' (ro_err opts') = buf_value h (ro_err opts)
    \<and> ro_fork opts' = ro_fork opts"
proof -
  obtain b h' where b: "buf_assign (ro_in opts) user h = Some (b, h')" "owns h' (options_view (opts\<lparr>ro_in := b\<rparr>) user)"
      "values_of h' (options_view (opts\<lparr>ro_in := b\<rparr>) user) = (values_of h (options_view opts user))(0 := Some (buf_value h user))"
    using owns_assign [OF assms options_view_simps(1,2)] by auto
  have "values_of h' (options_view (opts\<lparr>ro_in := b\<rparr>) user) j = ((values_of h (options_view opts user))(0 := Some (buf_value h user))) j" for j
    using b(3) by simp
  from this [of 0] this [of 1] this [of 2] this [of 3] show ?thesis
    using b(1,2) by (simp add: options_input_def options_values_at)
qed

theorem input_moved:
  assumes "owns h (options_view opts user)"
  shows "\<exists>opts' h'. options_input_moved user opts h = Some ((opts', buf_empty), h') \<and> owns h' (options_view opts' buf_empty)
    \<and> ro_in opts' = user \<and> buf_value h' (ro_in opts') = buf_value h user
    \<and> buf_value h' (ro_out opts') = buf_value h (ro_out opts) \<and> buf_value h' (ro_err opts') = buf_value h (ro_err opts)
    \<and> ro_fork opts' = ro_fork opts"
proof -
  obtain h' where b: "buf_move_assign (ro_in opts) user h = Some ((user, buf_empty), h')"
      "owns h' (options_view (opts\<lparr>ro_in := user\<rparr>) buf_empty)"
      "values_of h' (options_view (opts\<lparr>ro_in := user\<rparr>) buf_empty)
        = (values_of h (options_view opts user))(0 := Some (buf_value h user), 3 := Some [])"
    using owns_move_assign [OF assms options_view_simps(1,2)] by auto
  have "values_of h' (options_view (opts\<lparr>ro_in := user\<rparr>) buf_empty) j
      = ((values_of h (options_view opts user))(0 := Some (buf_value h user), 3 := Some [])) j" for j
    using b(3) by simp
  from this [of 0] this [of 1] this [of 2] show ?thesis
    using b(1,2) by (simp add: options_input_moved_def options_values_at)
qed

end
