(* ===== verification/Assertions.thy ===== *)
theory Assertions
  imports Unit_Test_Props Sandbox_Props Address
begin

text \<open>
  What a test's code calls of \<^verbatim>\<open>include/dtest_core/test.h\<close>: \<^verbatim>\<open>assert\<close>, \<^verbatim>\<open>fail\<close> and \<^verbatim>\<open>err\<close> with the exceptions they
  throw, and the dependencies of a module. \<open>es\<close> are the allocations made while an exception and its text are
  constructed.
\<close>

section \<open>Statements\<close>

definition assertion_text :: "string \<Rightarrow> string \<Rightarrow> nat \<Rightarrow> string \<Rightarrow> string" where
  "assertion_text expr file line caller =
    ''Assertion failed for expression '' @ [CHR 0x27] @ expr @ [CHR 0x27] @ '' in file '' @ file @ '':'' @ show_nat line
    @ '' '' @ caller"

text \<open>The macro locks, the constructor of the exception unlocks.\<close>

definition throw_locked :: "mem_event list \<Rightarrow> string \<Rightarrow> sandbox \<Rightarrow> exc \<times> sandbox" where
  "throw_locked es msg s =
    (Exc_sandbox msg, sb_unlock ((sb_lock s)\<lparr>sb_memory := fold mem_apply es (sb_memory (sb_lock s))\<rparr>))"

datatype statement =
  Assert "sandbox \<Rightarrow> bool" string string nat string
| Fail string
| Err string
| Code "sandbox \<Rightarrow> exc option \<times> sandbox"

text \<open>A statement: what it throws, the errors it logs, and the sandbox after it.\<close>

fun exec :: "mem_event list \<Rightarrow> statement \<Rightarrow> sandbox \<Rightarrow> exc option \<times> string list \<times> sandbox" where
  "exec es (Assert expr text file line caller) s =
    (if \<not> expr s then (case throw_locked es (assertion_text text file line caller) s of (e, s) \<Rightarrow> (Some e, [], s))
     else (None, [], s))"
| "exec es (Fail msg) s = (case throw_locked es msg s of (e, s) \<Rightarrow> (Some e, [], s))"
| "exec es (Err msg) s = (None, [msg], sb_unlock ((sb_lock s)\<lparr>sb_memory := fold mem_apply es (sb_memory (sb_lock s))\<rparr>))"
| "exec es (Code f) s = (case f s of (e, s) \<Rightarrow> (e, [], s))"

fun exec_all :: "mem_event list \<Rightarrow> statement list \<Rightarrow> sandbox \<Rightarrow> exc option \<times> string list \<times> sandbox" where
  "exec_all es [] s = (None, [], s)"
| "exec_all es (st # sts) s =
    (case exec es st s of
       (Some e, errs, s) \<Rightarrow> (Some e, errs, s)
     | (None, errs, s) \<Rightarrow> (case exec_all es sts s of (e, errs', s) \<Rightarrow> (e, errs @ errs', s)))"

text \<open>A function of a test that runs the statements and takes \<open>t\<close> nanoseconds.\<close>

definition test_code :: "mem_event list \<Rightarrow> u64 \<Rightarrow> statement list \<Rightarrow> user_fn" where
  "test_code es t sts s = (case exec_all es sts s of (e, errs, s) \<Rightarrow> ((e, t, errs), s))"

section \<open>What they do\<close>

lemma m_locked_kept: "m_locked (sb_memory s) \<noteq> size_max \<Longrightarrow>
    sb_unlock ((sb_lock s)\<lparr>sb_memory := fold mem_apply es (sb_memory (sb_lock s))\<rparr>) = s"
  using locked_section_invisible by blast

text \<open>Neither a passing nor a failing assertion, nor a logged error, shows in the accounts of the sandbox.\<close>

lemma exec_simps:
  assumes "m_locked (sb_memory s) \<noteq> size_max"
  shows "exec es (Assert expr text file line caller) s
      = (if expr s then None else Some (Exc_sandbox (assertion_text text file line caller)), [], s)"
    and "exec es (Fail msg) s = (Some (Exc_sandbox msg), [], s)"
    and "exec es (Err msg) s = (None, [msg], s)"
  using m_locked_kept [OF assms] by (simp_all add: throw_locked_def)

text \<open>
  A body of statements that leave the sandbox locked as often as they found it: it throws at the first
  statement that throws, with the errors logged before it, and the rest is not run.
\<close>

fun holds :: "statement \<Rightarrow> sandbox \<Rightarrow> bool" where
  "holds (Assert expr _ _ _ _) s = expr s"
| "holds (Fail _) s = False"
| "holds (Err _) s = True"
| "holds (Code f) s = (fst (f s) = None)"

lemma holds_iff: "fst (exec es st s) = None \<longleftrightarrow> holds st s"
  by (cases st) (simp_all add: throw_locked_def split: prod.splits)

lemma exec_all_append:
  "exec_all es (sts @ sts') s =
    (case exec_all es sts s of
       (Some e, errs, s) \<Rightarrow> (Some e, errs, s)
     | (None, errs, s) \<Rightarrow> (case exec_all es sts' s of (e, errs', s) \<Rightarrow> (e, errs @ errs', s)))"
  by (induction sts arbitrary: s) (auto split: prod.splits option.splits)

theorem first_failure_ends:
  assumes "exec_all es sts s = (None, errs, s1)" and "\<not> holds st s1"
  shows "\<exists>e errs1 s2. exec es st s1 = (Some e, errs1, s2) \<and> exec_all es (sts @ st # sts') s = (Some e, errs @ errs1, s2)"
proof -
  obtain e errs1 s2 where "exec es st s1 = (Some e, errs1, s2)"
    using assms(2) holds_iff [of es st s1] by (cases "exec es st s1") auto
  then show ?thesis
    using assms(1) by (auto simp: exec_all_append)
qed

text \<open>The sandbox in which the body of a test without an initialisation starts: after the first snapshot.\<close>

definition body_start :: "child_state \<Rightarrow> sandbox" where
  "body_start c = snd (resourceSnapshot (r_resources (u_base (snd c))) (unit_configure (sb_enter (fst c))))"

lemma failed_assertion_ends_body:
  assumes "uc_init code = None" and "uc_body code = Some (test_code es t (sts @ Assert expr text file line caller # sts'))"
    and "exec_all es sts (body_start c) = (None, errs, s1)" and "m_locked (sb_memory s1) \<noteq> size_max" and "\<not> expr s1"
  shows "\<exists>u1. unit_func unit_configure cfg code (on_sandbox sb_enter c) = (Some (Exc_sandbox (assertion_text text file line caller)), (s1, u1))
    \<and> r_errors (u_base u1) = r_errors (u_base (snd c)) @ errs"
proof -
  have "exec_all es (sts @ Assert expr text file line caller # sts') (body_start c)
      = (Some (Exc_sandbox (assertion_text text file line caller)), errs, s1)"
    using assms(3,5) exec_simps(1) [OF assms(4), of es expr "text" "file" line caller]
    by (simp add: exec_all_append del: exec.simps)
  then show ?thesis
    using assms(1,2) by (cases c) (auto simp: unit_func_def after_def plain_def time_into_def timeOf_def test_code_def
        snapshot_def body_start_def on_sandbox_def set_status_def add_errors_def split: prod.splits)
qed

lemma assertion_text_no_nul:
  "NUL \<notin> set expr \<Longrightarrow> NUL \<notin> set file \<Longrightarrow> NUL \<notin> set caller \<Longrightarrow> c_str (assertion_text expr file line caller) = assertion_text expr file line caller"
  using show_nat_digits [of NUL line] by (auto simp: assertion_text_def c_str_def takeWhile_eq_all_conv is_digit_def)

text \<open>C22. When the body of a unit test that is run in a forked process and has no initialization function comes to an assertion
  that does not hold, the statements after it are not run, and the driver reports the test as FAIL with the text of that assertion as the one new error: its
  expression, file, line and caller, whatever was allocated to build and throw the exception. The errors logged before
  are in the child's object only.\<close>

theorem assertion_reported:
  assumes "uc_init code = None" and "uc_body code = Some (test_code es t (sts @ Assert expr text file line caller # sts'))"
    and "exec_all es sts (body_start c) = (None, errs, s1)" and "m_locked (sb_memory s1) \<noteq> size_max" and "\<not> expr s1"
    and "NUL \<notin> set text" and "NUL \<notin> set file" and "NUL \<notin> set caller"
    and "msg = assertion_text text file line caller" and "length msg < 2 ^ 60"
    and "\<not> u_in_process cfg" and "sandbox_stdio fuel accept cap (u_input cfg) d = Some (st, d1)"
    and "\<forall>a \<in> set answers. positive_answer a" and "10 + length msg \<le> length answers"
    and "\<forall>el \<in> set els. el \<le> run_timeout cfg"
  shows "\<exists>bytes u1 out err d2. unit_child raw pad rep cfg code c = Some (bytes, (sb_exitAll s1, u1))
    \<and> r_errors (u_base u1) = r_errors (u_base (snd c)) @ errs
    \<and> unit_driverRun raw' fuel accept cap child cfg (Ended # ws) (map No_connection els @ Connection answers bytes # as) v u d
      = Run_ends True ((add_errors [msg] (set_status FAIL u))\<lparr>u_out := out, u_err := err\<rparr>, d2)"
proof -
  obtain u1 where u1: "unit_func unit_configure cfg code (on_sandbox sb_enter c) = (Some (Exc_sandbox msg), (s1, u1))"
      "r_errors (u_base u1) = r_errors (u_base (snd c)) @ errs"
    using failed_assertion_ends_body [OF assms(1-5)] assms(9) by blast
  have "exc_text (Exc_sandbox msg) = msg"
    using assertion_text_no_nul [OF assms(6-8)] assms(9) by simp
  with unit_thrown_reported [OF u1(1) _ assms(11-13) _ assms(15), of raw pad rep raw' child ws as v u] assms(10,14) u1(2)
  show ?thesis
    by (simp add: on_sandbox_def) blast
qed

text \<open>A body that logs an error, comes to a false assertion and never to the failure after it.\<close>

definition asserting_code :: user_code where
  "asserting_code = no_code\<lparr>uc_init := None, uc_body := Some (test_code [] 0
     ([Err ''first''] @ Assert (\<lambda>_. False) ''n == 1'' ''t.cpp'' 7 ''f'' # [Fail ''never'']))\<rparr>"

lemma asserting_text:
  "assertion_text ''n == 1'' ''t.cpp'' 7 ''f'' = ''Assertion failed for expression '' @ [CHR 0x27] @ ''n == 1'' @ [CHR 0x27] @ '' in file t.cpp:7 f''"
  by (simp add: assertion_text_def show_nat.simps char_of_def bit_iff_odd)

theorem assertion_reported_witness:
  "\<exists>bytes u1 s1 u' d2. unit_child (\<lambda>_. 0) [] (\<lambda>_. [], \<lambda>_. []) unit_config_init asserting_code start_state = Some (bytes, (s1, u1))
    \<and> r_errors (u_base u1) = [''first'']
    \<and> unit_driverRun (\<lambda>_. 0) 2 min 65536 id unit_config_init [Ended] [Connection (replicate 80 (Ready 9)) bytes]
        unit_run_init unit_run_init sample_descs = Run_ends True (u', d2)
    \<and> r_errors (u_base u') = [assertion_text ''n == 1'' ''t.cpp'' 7 ''f''] \<and> r_status (u_base u') = FAIL"
proof -
  obtain st d1 where st: "sandbox_stdio 2 min 65536 (u_input unit_config_init) sample_descs = Some (st, d1)"
    by (rule sample_stdio)
  have code: "uc_init asserting_code = None" "uc_body asserting_code = Some (test_code [] 0
      ([Err ''first''] @ Assert (\<lambda>_. False) ''n == 1'' ''t.cpp'' 7 ''f'' # [Fail ''never'']))"
    by (simp_all add: asserting_code_def)
  have locked: "m_locked (sb_memory (body_start start_state)) \<noteq> size_max"
    by (simp add: body_start_def start_state_def resourceSnapshot_def unit_configure_def disableFaultyNetwork_def sb_enter_def
        sb_track_def sandbox_init_def mem_track_activity_def reset_max_allocation_def memory_init_def reinitialize_def
        memory_fields_def Let_def)
  have run: "exec_all [] [Err ''first''] (body_start start_state) = (None, [''first''], body_start start_state)"
    using exec_simps(3) [OF locked, of "[]" "''first''"] by (simp del: exec.simps)
  have rest: "length (assertion_text ''n == 1'' ''t.cpp'' 7 ''f'') < 2 ^ 60" "\<not> u_in_process unit_config_init"
      "\<forall>a \<in> set (replicate 80 (Ready 9)). positive_answer a"
      "10 + length (assertion_text ''n == 1'' ''t.cpp'' 7 ''f'') \<le> length (replicate 80 (Ready 9))"
      "\<forall>el \<in> set []. el \<le> run_timeout unit_config_init"
    by (simp_all add: asserting_text unit_config_init_def positive_answer_def)
  from assertion_reported [OF code run locked _ _ _ _ refl rest(1,2) st rest(3-5), where raw = "\<lambda>_. 0" and raw' = "\<lambda>_. 0" and child = id
      and ws = "[]" and as = "[]" and u = unit_run_init and v = unit_run_init and pad = "[]" and rep = "(\<lambda>_. [], \<lambda>_. [])"]
  show ?thesis
    by (auto simp: start_state_def unit_run_init_def run_state_init_def add_errors_def set_status_def)
qed

section \<open>Modules\<close>

text \<open>\<^verbatim>\<open>ModuleController\<close>: the global dependencies of the module it was made for.\<close>

record module_controller =
  mc_module :: string

definition mc_new :: "string \<Rightarrow> module_controller" where
  "mc_new m = \<lparr>mc_module = m\<rparr>"

definition mc_dependsOn :: "string list \<Rightarrow> module_controller \<times> registry \<Rightarrow> module_controller \<times> registry" where
  "mc_dependsOn ds = (\<lambda>(mc, r). (mc, setGlobalModuleDependencies (mc_module mc) ds r))"

text \<open>Of several calls the last one decides for the tests that are registered later; those already registered
  get the dependencies of all of them.\<close>

theorem module_dependencies:
  "um_find m (reg_global (snd (fold mc_dependsOn (dss @ [ds]) (mc_new m, r)))) = Some (fold set_insert ds [])
   \<and> module_tests m (reg_tests (snd (fold mc_dependsOn (dss @ [ds]) (mc_new m, r))))
      = map (\<lambda>t. fold dependsOn (dss @ [ds]) t) (module_tests m (reg_tests r))"
proof (induction dss arbitrary: r)
  case Nil
  show ?case
    by (simp add: mc_dependsOn_def mc_new_def setGlobalModuleDependencies_def um_find_set module_tests_def)
next
  case (Cons ds' dss)
  have "fold mc_dependsOn ((ds' # dss) @ [ds]) (mc_new m, r)
      = fold mc_dependsOn (dss @ [ds]) (mc_new m, setGlobalModuleDependencies m ds' r)"
    by (simp add: mc_dependsOn_def mc_new_def)
  moreover have "module_tests m (reg_tests (setGlobalModuleDependencies m ds' r)) = map (dependsOn ds') (module_tests m (reg_tests r))"
    by (simp add: setGlobalModuleDependencies_def module_tests_def um_find_set)
  ultimately show ?case
    using Cons.IH [of "setGlobalModuleDependencies m ds' r"] by (simp add: comp_def)
qed

end
