(* ===== verification/Memory_Threads.thy ===== *)
theory Memory_Threads
  imports Sandbox
begin

text \<open>
  Threads that allocate and free at the same time (\<^verbatim>\<open>src/memory_hooks.cpp\<close> over \<^verbatim>\<open>src/memory.cpp\<close>). A hook is two
  steps, the call of the C library and the call of the tracker, and other threads may run between them. Each
  half is one step: the tracker's because it changes its tables inside \<^verbatim>\<open>_mtx\<close>, the library's because \<^verbatim>\<open>malloc\<close>,
  \<^verbatim>\<open>free\<close> and \<^verbatim>\<open>realloc\<close> are atomic for their callers. The program is correct: it frees and reallocates only what
  it holds. All threads run test code, outside the framework's locked sections.
\<close>

section \<open>State\<close>

text \<open>What a thread still has to do in the hook it is in.\<close>

datatype half =
  Malloc_tracks call_stack addr u64
| Free_releases addr
| Realloc_tracks call_stack addr addr u64

text \<open>
  \<open>w_heap\<close> are the blocks of the C library, \<open>w_held\<close> those the program holds, \<open>w_excepted\<close> those it holds that were
  allocated where the tracker makes an exception, \<open>w_fatal\<close> whether the tracker has thrown.
\<close>

record world =
  w_heap :: "addr set"
  w_held :: "addr set"
  w_excepted :: "addr set"
  w_memory :: memory
  w_doing :: "nat \<Rightarrow> half option"
  w_fatal :: bool

definition doing :: "nat \<Rightarrow> half option \<Rightarrow> world \<Rightarrow> world" where
  "doing t h w = w\<lparr>w_doing := (w_doing w)(t := h)\<rparr>"

section \<open>The halves of the hooks\<close>

text \<open>\<^verbatim>\<open>malloc\<close> and the other allocating functions: the library answers \<open>p\<close>, then the tracker is told.\<close>

definition malloc_library :: "nat \<Rightarrow> call_stack \<Rightarrow> u64 \<Rightarrow> addr \<Rightarrow> world \<Rightarrow> world" where
  "malloc_library t cs sz p w = doing t (Some (Malloc_tracks cs p sz)) (w\<lparr>w_heap := insert p (w_heap w)\<rparr>)"

definition malloc_tracker :: "nat \<Rightarrow> call_stack \<Rightarrow> addr \<Rightarrow> u64 \<Rightarrow> world \<Rightarrow> world" where
  "malloc_tracker t cs p sz w =
    (let w' = doing t None (w\<lparr>w_memory := mem_track cs p sz (w_memory w)\<rparr>)
     in if can_track_alloc cs (w_memory w) then w'\<lparr>w_held := insert p (w_held w)\<rparr>
        else w'\<lparr>w_excepted := insert p (w_excepted w)\<rparr>)"

text \<open>\<^verbatim>\<open>free\<close>: the tracker first; an exception switches the tracker off and the library is not called.\<close>

definition free_tracker :: "nat \<Rightarrow> call_stack \<Rightarrow> addr \<Rightarrow> world \<Rightarrow> world" where
  "free_tracker t cs p w =
    (case mem_remove cs p (w_memory w) of
       (Mem_done, m) \<Rightarrow>
         doing t (Some (Free_releases p)) (w\<lparr>w_memory := m, w_held := w_held w - {p}, w_excepted := w_excepted w - {p}\<rparr>)
     | (No_valid_block _, m) \<Rightarrow> w\<lparr>w_memory := mem_track_activity False m, w_fatal := True\<rparr>)"

definition free_library :: "nat \<Rightarrow> addr \<Rightarrow> world \<Rightarrow> world" where
  "free_library t p w = doing t None (w\<lparr>w_heap := w_heap w - {p}\<rparr>)"

text \<open>\<^verbatim>\<open>realloc\<close> of a block: the library moves it from \<open>p\<close> to \<open>q\<close>, then the tracker is told. When the library has no
  memory the hook changes nothing, and it is no step. A reallocation to no bytes, for which the library frees the block and
  returns null, is left out: the tracker is not told and keeps the block.\<close>

definition realloc_library :: "nat \<Rightarrow> call_stack \<Rightarrow> u64 \<Rightarrow> addr \<Rightarrow> addr \<Rightarrow> world \<Rightarrow> world" where
  "realloc_library t cs sz p q w =
    doing t (Some (Realloc_tracks cs p q sz))
      (w\<lparr>w_heap := insert q (w_heap w - {p}), w_held := w_held w - {p}\<rparr>)"

definition realloc_tracker :: "nat \<Rightarrow> call_stack \<Rightarrow> addr \<Rightarrow> addr \<Rightarrow> u64 \<Rightarrow> world \<Rightarrow> world" where
  "realloc_tracker t cs p q sz w =
    (case mem_retrack cs p q sz (w_memory w) of
       (Mem_done, m) \<Rightarrow> doing t None (w\<lparr>w_memory := m, w_held := insert q (w_held w)\<rparr>)
     | (No_valid_block _, m) \<Rightarrow> doing t None (w\<lparr>w_memory := mem_track_activity False m, w_fatal := True\<rparr>))"

section \<open>Interleaved steps\<close>

text \<open>
  A block allocated at an excepted place is freed at an excepted place. The library hands out addresses that
  are not allocated, and a block that is reallocated may stay where it is.
\<close>

inductive hook_step :: "world \<Rightarrow> world \<Rightarrow> bool" where
  malloc_1: "w_doing w t = None \<Longrightarrow> p \<noteq> null_ptr \<Longrightarrow> p \<notin> w_heap w \<Longrightarrow> hook_step w (malloc_library t cs sz p w)"
| malloc_2: "w_doing w t = Some (Malloc_tracks cs p sz) \<Longrightarrow> hook_step w (malloc_tracker t cs p sz w)"
| free_1: "w_doing w t = None \<Longrightarrow> p \<in> w_held w \<or> p \<in> w_excepted w \<and> \<not> can_track_dealloc cs (w_memory w) \<Longrightarrow>
     hook_step w (free_tracker t cs p w)"
| free_2: "w_doing w t = Some (Free_releases p) \<Longrightarrow> hook_step w (free_library t p w)"
| realloc_1: "w_doing w t = None \<Longrightarrow> p \<in> w_held w \<Longrightarrow> q \<noteq> null_ptr \<Longrightarrow> q \<notin> w_heap w - {p} \<Longrightarrow>
     hook_step w (realloc_library t cs sz p q w)"
| realloc_2: "w_doing w t = Some (Realloc_tracks cs p q sz) \<Longrightarrow> hook_step w (realloc_tracker t cs p q sz w)"

text \<open>The worlds that allowed steps lead to, in any order and by any number of threads.\<close>

inductive leads_to :: "(world \<Rightarrow> world \<Rightarrow> bool) \<Rightarrow> world \<Rightarrow> world \<Rightarrow> bool" for allowed where
  here: "leads_to allowed w w"
| further: "leads_to allowed w w1 \<Longrightarrow> hook_step w1 w2 \<Longrightarrow> allowed w1 w2 \<Longrightarrow> leads_to allowed w w2"

fun block_of :: "half \<Rightarrow> addr" where
  "block_of (Malloc_tracks cs p sz) = p"
| "block_of (Free_releases p) = p"
| "block_of (Realloc_tracks cs p q sz) = q"

fun old_of :: "half \<Rightarrow> addr option" where
  "old_of (Realloc_tracks cs p q sz) = Some p"
| "old_of _ = None"

text \<open>
  The addresses that the library has given up in a reallocation the tracker does not know of yet, and steps in which it does
  not hand one of them out again.
\<close>

definition moving :: "world \<Rightarrow> addr set" where
  "moving w = {p. \<exists>t h. w_doing w t = Some h \<and> old_of h = Some p}"

definition no_reuse :: "world \<Rightarrow> world \<Rightarrow> bool" where
  "no_reuse w w' \<longleftrightarrow> (w_heap w' - w_heap w) \<inter> moving w = {}"

definition fresh_world :: "addr set \<Rightarrow> memory \<Rightarrow> world" where
  "fresh_world H m = \<lparr>w_heap = H, w_held = {}, w_excepted = {}, w_memory = m, w_doing = (\<lambda>_. None), w_fatal = False\<rparr>"

text \<open>Both halves of a hook without interruption are the hook of theory \<open>Sandbox\<close>.\<close>

lemma malloc_halves:
  assumes "p \<noteq> null_ptr" and "sb_memory s = w_memory w"
  shows "sb_memory (snd (malloc_hook cs (\<lambda>_. p) sz s)) = w_memory (malloc_tracker t cs p sz (malloc_library t cs sz p w))"
  using assms by (simp add: malloc_hook_def alloc_hook_def malloc_tracker_def malloc_library_def doing_def Let_def)

lemma free_halves:
  assumes "p \<noteq> null_ptr" and "p \<noteq> tmp" and "sb_memory s = w_memory w"
    and "free_hook show_ptr trace cs tmp p s = (calls, e, s')"
  shows "sb_memory s' = w_memory (free_tracker t cs p w)"
    and "calls = (case w_doing (free_tracker t cs p (w\<lparr>w_doing := \<lambda>_. None\<rparr>)) t of None \<Rightarrow> [] | Some _ \<Rightarrow> [Libc_free p])"
  using assms
  by (auto simp: free_hook_def free_tracker_def with_tracker_def doing_def sb_exitAll_def sb_track_def
      split: mem_outcome.splits prod.splits)

section \<open>The invariant\<close>

text \<open>
  The tracker's blocks are those the program holds and those being moved, and a block that a thread is
  allocating, releasing or moving belongs to that thread alone.
\<close>

definition halves_ok :: "world \<Rightarrow> bool" where
  "halves_ok w \<longleftrightarrow>
     (\<forall>t h. w_doing w t = Some h \<longrightarrow> block_of h \<in> w_heap w \<and> block_of h \<notin> w_held w \<union> w_excepted w
        \<and> (block_of h \<in> moving w \<longrightarrow> old_of h = Some (block_of h)))
   \<and> (\<forall>t u h k. w_doing w t = Some h \<longrightarrow> w_doing w u = Some k \<longrightarrow> block_of h = block_of k \<longrightarrow> t = u)
   \<and> (\<forall>t u h k. w_doing w t = Some h \<longrightarrow> w_doing w u = Some k \<longrightarrow> old_of h \<noteq> None \<longrightarrow> old_of h = old_of k \<longrightarrow> t = u)"

definition world_inv :: "world \<Rightarrow> bool" where
  "world_inv w \<longleftrightarrow> \<not> w_fatal w \<and> tracking (w_memory w) \<and> mem_inv (w_memory w)
     \<and> (\<forall>p. um_find p (m_blocks (w_memory w)) \<noteq> None \<longleftrightarrow> p \<in> w_held w \<union> moving w)
     \<and> w_held w \<inter> w_excepted w = {} \<and> w_held w \<union> w_excepted w \<subseteq> w_heap w
     \<and> moving w \<inter> (w_held w \<union> w_excepted w) = {} \<and> halves_ok w"

lemma world_invD:
  assumes "world_inv w"
  shows "\<not> w_fatal w" and "tracking (w_memory w)" and "mem_inv (w_memory w)"
    and "um_find p (m_blocks (w_memory w)) \<noteq> None \<longleftrightarrow> p \<in> w_held w \<union> moving w"
    and "w_held w \<inter> w_excepted w = {}" and "w_held w \<union> w_excepted w \<subseteq> w_heap w"
    and "moving w \<inter> (w_held w \<union> w_excepted w) = {}" and "halves_ok w"
  using assms unfolding world_inv_def by blast+

lemma halves_okD:
  assumes "halves_ok w"
  shows "w_doing w t = Some h \<Longrightarrow> block_of h \<in> w_heap w"
    and "w_doing w t = Some h \<Longrightarrow> block_of h \<notin> w_held w \<and> block_of h \<notin> w_excepted w"
    and "w_doing w t = Some h \<Longrightarrow> block_of h \<in> moving w \<Longrightarrow> old_of h = Some (block_of h)"
    and "w_doing w t = Some h \<Longrightarrow> w_doing w u = Some k \<Longrightarrow> block_of h = block_of k \<Longrightarrow> t = u"
    and "w_doing w t = Some h \<Longrightarrow> w_doing w u = Some k \<Longrightarrow> old_of h = Some p \<Longrightarrow> old_of k = Some p \<Longrightarrow> t = u"
  using assms unfolding halves_ok_def by (blast, blast, blast, blast, metis option.distinct(1))

text \<open>How the addresses being moved change when a thread starts or ends a half.\<close>

lemma movingI: "w_doing w u = Some k \<Longrightarrow> old_of k = Some p \<Longrightarrow> p \<in> moving w"
  by (auto simp: moving_def)

lemma movingE:
  assumes "p \<in> moving w"
  obtains u k where "w_doing w u = Some k" and "old_of k = Some p"
  using assms by (auto simp: moving_def)

lemma halves_okI:
  assumes "\<And>t h. w_doing w t = Some h \<Longrightarrow> block_of h \<in> w_heap w"
    and "\<And>t h. w_doing w t = Some h \<Longrightarrow> block_of h \<notin> w_held w \<union> w_excepted w"
    and "\<And>t h. w_doing w t = Some h \<Longrightarrow> block_of h \<in> moving w \<Longrightarrow> old_of h = Some (block_of h)"
    and "\<And>t u h k. w_doing w t = Some h \<Longrightarrow> w_doing w u = Some k \<Longrightarrow> block_of h = block_of k \<Longrightarrow> t = u"
    and "\<And>t u h k p. w_doing w t = Some h \<Longrightarrow> w_doing w u = Some k \<Longrightarrow> old_of h = Some p \<Longrightarrow> old_of k = Some p \<Longrightarrow> t = u"
  shows "halves_ok w"
  using assms(1,2,3,4) unfolding halves_ok_def by (intro conjI allI impI) (blast, blast, blast, blast, auto dest: assms(5))

lemma moving_start:
  assumes "w_doing w t = None" and d: "w_doing w' = (w_doing w)(t := Some h)"
  shows "p \<in> moving w' \<longleftrightarrow> old_of h = Some p \<or> p \<in> moving w"
proof
  assume "p \<in> moving w'"
  then obtain u k where "w_doing w' u = Some k" "old_of k = Some p"
    by (rule movingE)
  then show "old_of h = Some p \<or> p \<in> moving w"
    using movingI [of w u k p] d by (cases "u = t") auto
next
  assume "old_of h = Some p \<or> p \<in> moving w"
  then show "p \<in> moving w'"
  proof
    assume "p \<in> moving w"
    then obtain u k where "w_doing w u = Some k" "old_of k = Some p"
      by (rule movingE)
    then show ?thesis
      using assms(1) movingI [of w' u k p] d by (cases "u = t") auto
  qed (use movingI [of w' t h p] d in simp)
qed

lemma moving_end:
  assumes ok: "halves_ok w" and h: "w_doing w t = Some h" and d: "w_doing w' = (w_doing w)(t := None)"
  shows "p \<in> moving w' \<longleftrightarrow> p \<in> moving w \<and> old_of h \<noteq> Some p"
proof
  assume "p \<in> moving w'"
  then obtain u k where k: "w_doing w' u = Some k" "old_of k = Some p"
    by (rule movingE)
  then have u: "u \<noteq> t" "w_doing w u = Some k"
    using d by (auto split: if_splits)
  then show "p \<in> moving w \<and> old_of h \<noteq> Some p"
    using halves_okD(5) [OF ok u(2) h k(2)] movingI [OF u(2) k(2)] by auto
next
  assume "p \<in> moving w \<and> old_of h \<noteq> Some p"
  then obtain u k where k: "w_doing w u = Some k" "old_of k = Some p" and "old_of h \<noteq> Some p"
    by (auto elim: movingE)
  then show "p \<in> moving w'"
    using h d movingI [of w' u k p] by (cases "u = t") auto
qed

text \<open>A thread starts a half on a block no other thread works on, or ends its own.\<close>

lemma halves_start:
  assumes ok: "halves_ok w" and idle: "w_doing w t = None" and d: "w_doing w' = (w_doing w)(t := Some h)"
    and heap: "block_of h \<in> w_heap w'" "w_heap w - {p} \<subseteq> w_heap w'"
    and held: "block_of h \<notin> w_held w' \<union> w_excepted w'" "w_held w' \<union> w_excepted w' \<subseteq> w_held w \<union> w_excepted w"
    and new: "\<And>u k. w_doing w u = Some k \<Longrightarrow> block_of k \<noteq> block_of h \<and> block_of k \<noteq> p"
    and old: "old_of h = None \<or> old_of h = Some p" "p \<notin> moving w" "block_of h \<notin> moving w"
  shows "halves_ok w'"
proof -
  note m = moving_start [OF idle d]
  have other: "w_doing w' u = Some k \<longleftrightarrow> (if u = t then k = h else w_doing w u = Some k)" for u k
    by (auto simp: d)
  have kept: "block_of k \<in> w_heap w' \<and> block_of k \<notin> w_held w' \<union> w_excepted w'
      \<and> (block_of k \<in> moving w' \<longrightarrow> old_of k = Some (block_of k))" if k: "w_doing w u = Some k" for u k
    using halves_okD(1-3) [OF ok k] new [OF k] heap(2) held(2) old(1) unfolding m by auto
  have mine: "block_of h \<in> moving w' \<longrightarrow> old_of h = Some (block_of h)"
    using old(3) unfolding m by auto
  have old': "\<not> (old_of k = Some a \<and> old_of h = Some a)" if "w_doing w u = Some k" for u k a
    using that old(1,2) movingI [OF that, of a] by auto
  show ?thesis
  proof (rule halves_okI)
    fix u v k l assume "w_doing w' u = Some k" "w_doing w' v = Some l" "block_of k = block_of l"
    then show "u = v"
      using new halves_okD(4) [OF ok, of u k v l] unfolding other by (auto split: if_splits)
  next
    fix u v k l a assume "w_doing w' u = Some k" "w_doing w' v = Some l" "old_of k = Some a" "old_of l = Some a"
    then show "u = v"
      using old' halves_okD(5) [OF ok, of u k v l a] unfolding other by (auto split: if_splits)
  qed (use kept mine heap(1) held(1) in \<open>auto simp: other split: if_splits\<close>)
qed

lemma halves_end:
  assumes ok: "halves_ok w" and h: "w_doing w t = Some h" and d: "w_doing w' = (w_doing w)(t := None)"
    and heap: "w_heap w - {block_of h} \<subseteq> w_heap w'" and held: "w_held w' \<union> w_excepted w' \<subseteq> insert (block_of h) (w_held w \<union> w_excepted w)"
  shows "halves_ok w'"
proof -
  note m = moving_end [OF ok h d]
  have other: "w_doing w' u = Some k \<longleftrightarrow> u \<noteq> t \<and> w_doing w u = Some k" for u k
    by (auto simp: d)
  have kept: "block_of k \<in> w_heap w' \<and> block_of k \<notin> w_held w' \<union> w_excepted w'
      \<and> (block_of k \<in> moving w' \<longrightarrow> old_of k = Some (block_of k))" if k: "w_doing w u = Some k" "u \<noteq> t" for u k
    using halves_okD(1-3) [OF ok k(1)] halves_okD(4) [OF ok k(1) h] k(2) heap held unfolding m by blast
  then show ?thesis
    by (intro halves_okI) (auto simp: other dest: halves_okD(4,5) [OF ok])
qed

section \<open>Every step keeps the invariant\<close>

lemma tracking_simps [simp]:
  "tracking (update_peaks m) = tracking m"
  "tracking (m\<lparr>m_blocks := bs, m_alloc_size := a, m_alloc_count := b\<rparr>) = tracking m"
  "tracking (m\<lparr>m_blocks := bs, m_alloc_size := a\<rparr>) = tracking m"
  "tracking (m\<lparr>m_free_size := a, m_free_count := b, m_blocks := bs\<rparr>) = tracking m"
  by (simp_all add: tracking_def)

lemma doing_simps [simp]:
  "w_heap (doing t h w) = w_heap w" "w_held (doing t h w) = w_held w" "w_excepted (doing t h w) = w_excepted w"
  "w_memory (doing t h w) = w_memory w" "w_fatal (doing t h w) = w_fatal w" "w_doing (doing t h w) = (w_doing w)(t := h)"
  by (simp_all add: doing_def)

lemma world_invI:
  assumes "\<not> w_fatal w" and "tracking (w_memory w)" and "mem_inv (w_memory w)"
    and "\<And>p. um_find p (m_blocks (w_memory w)) \<noteq> None \<longleftrightarrow> p \<in> w_held w \<or> p \<in> moving w"
    and "w_held w \<inter> w_excepted w = {}" and "w_held w \<union> w_excepted w \<subseteq> w_heap w"
    and "\<And>p. p \<in> moving w \<Longrightarrow> p \<notin> w_held w \<union> w_excepted w" and "halves_ok w"
  shows "world_inv w"
  using assms(1-3,5,6,8) assms(4,7) unfolding world_inv_def by auto

lemma malloc_library_inv:
  assumes inv: "world_inv w" and idle: "w_doing w t = None" and p: "p \<notin> w_heap w" "p \<notin> moving w"
  shows "world_inv (malloc_library t cs sz p w)"
proof -
  let ?w = "malloc_library t cs sz p w" and ?h = "Malloc_tracks cs p sz"
  have d: "w_doing ?w = (w_doing w)(t := Some ?h)"
    by (simp add: malloc_library_def)
  have "block_of k \<noteq> p" if "w_doing w u = Some k" for u k
    using halves_okD(1) [OF world_invD(8) [OF inv] that] p by auto
  then have "halves_ok ?w"
    by (intro halves_start [OF world_invD(8) [OF inv] idle d, of p])
      (use p world_invD(6) [OF inv] in \<open>auto simp: malloc_library_def\<close>)
  moreover have "q \<in> moving ?w \<longleftrightarrow> q \<in> moving w" for q
    using moving_start [OF idle d] by simp
  ultimately show ?thesis
    using world_invD(1-7) [OF inv] by (intro world_invI) (auto simp: malloc_library_def)
qed

lemma malloc_tracker_inv:
  assumes inv: "world_inv w" and h: "w_doing w t = Some (Malloc_tracks cs p sz)"
  shows "world_inv (malloc_tracker t cs p sz w)"
proof -
  let ?w = "malloc_tracker t cs p sz w" and ?m = "w_memory w"
  note ok = world_invD(8) [OF inv] and tr = world_invD(2) [OF inv]
  have d: "w_doing ?w = (w_doing w)(t := None)"
    by (simp add: malloc_tracker_def Let_def)
  have p: "p \<in> w_heap w" "p \<notin> w_held w" "p \<notin> w_excepted w" "p \<notin> moving w"
    using halves_okD(1-3) [OF ok h] by auto
  have fresh: "um_find p (m_blocks ?m) = None"
    using world_invD(4) [OF inv, of p] p by simp
  have bs: "um_invar (m_blocks ?m)"
    using world_invD(3) [OF inv] by (simp add: mem_inv_def)
  have "mem_inv (mem_track cs p sz ?m)"
    by (rule mem_inv_track [OF world_invD(3) [OF inv] _ tr]) (simp add: fresh)
  moreover have "halves_ok ?w"
    by (rule halves_end [OF ok h d]) (auto simp: malloc_tracker_def Let_def)
  moreover have "q \<in> moving ?w \<longleftrightarrow> q \<in> moving w" for q
    using moving_end [OF ok h d] by simp
  ultimately show ?thesis
    using world_invD(1,5,6,7) [OF inv] world_invD(4) [OF inv] p tr fresh um.lookup_insert [OF bs fresh]
    by (intro world_invI) (auto simp: malloc_tracker_def Let_def mem_track_eq split: if_splits)
qed

lemma free_tracker_inv:
  assumes inv: "world_inv w" and idle: "w_doing w t = None"
    and p: "p \<in> w_held w \<or> p \<in> w_excepted w \<and> \<not> can_track_dealloc cs (w_memory w)"
  shows "world_inv (free_tracker t cs p w)"
proof -
  let ?w = "free_tracker t cs p w" and ?m = "w_memory w"
  note ok = world_invD(8) [OF inv] and tr = world_invD(2) [OF inv]
  have bs: "um_invar (m_blocks ?m)"
    using world_invD(3) [OF inv] by (simp add: mem_inv_def)
  have unmoved: "p \<notin> moving w"
    using world_invD(7) [OF inv] p by auto
  have held: "p \<in> w_held w \<longleftrightarrow> um_find p (m_blocks ?m) \<noteq> None"
    using world_invD(4) [OF inv, of p] unmoved by simp
  obtain m where m: "mem_remove cs p ?m = (Mem_done, m)" "tracking m"
      "\<And>q. um_find q (m_blocks m) \<noteq> None \<longleftrightarrow> um_find q (m_blocks ?m) \<noteq> None \<and> q \<noteq> p"
  proof (cases "um_find p (m_blocks ?m)")
    case None
    then have "mem_remove cs p ?m = (Mem_done, ?m)"
      using p held tr by (simp add: mem_remove_eq fatal_outcome_def)
    then show ?thesis
      by (rule that [OF _ tr]) (use None in auto)
  next
    case (Some al)
    then show ?thesis
      using that tr um.lookup_erase [OF bs] by (simp add: mem_remove_eq)
  qed
  have w: "?w = doing t (Some (Free_releases p)) (w\<lparr>w_memory := m, w_held := w_held w - {p}, w_excepted := w_excepted w - {p}\<rparr>)"
    by (simp add: free_tracker_def m(1))
  have d: "w_doing ?w = (w_doing w)(t := Some (Free_releases p))"
    by (simp add: w)
  have "block_of k \<noteq> p" if "w_doing w u = Some k" for u k
    using halves_okD(2) [OF ok that] p by auto
  then have "halves_ok ?w"
    by (intro halves_start [OF ok idle d, of p]) (use p unmoved world_invD(6) [OF inv] in \<open>auto simp: w\<close>)
  moreover have "q \<in> moving ?w \<longleftrightarrow> q \<in> moving w" for q
    using moving_start [OF idle d] by simp
  moreover have "mem_inv m"
    using mem_inv_remove [OF world_invD(3) [OF inv] tr, of cs p] by (simp add: m(1))
  ultimately show ?thesis
    using world_invD(1,5,6,7) [OF inv] world_invD(4) [OF inv] m(2,3) unmoved by (intro world_invI) (auto simp: w)
qed

lemma free_library_inv:
  assumes inv: "world_inv w" and h: "w_doing w t = Some (Free_releases p)"
  shows "world_inv (free_library t p w)"
proof -
  let ?w = "free_library t p w"
  note ok = world_invD(8) [OF inv]
  have d: "w_doing ?w = (w_doing w)(t := None)"
    by (simp add: free_library_def)
  have "halves_ok ?w"
    by (rule halves_end [OF ok h d]) (auto simp: free_library_def)
  moreover have "q \<in> moving ?w \<longleftrightarrow> q \<in> moving w" for q
    using moving_end [OF ok h d] by simp
  moreover have "p \<notin> w_held w \<union> w_excepted w"
    using halves_okD(2) [OF ok h] by simp
  ultimately show ?thesis
    using world_invD(1-7) [OF inv] by (intro world_invI) (auto simp: free_library_def)
qed

lemma realloc_library_inv:
  assumes inv: "world_inv w" and idle: "w_doing w t = None" and p: "p \<in> w_held w"
    and q: "q \<notin> w_heap w - {p}" "q \<notin> moving w"
  shows "world_inv (realloc_library t cs sz p q w)"
proof -
  let ?w = "realloc_library t cs sz p q w" and ?h = "Realloc_tracks cs p q sz"
  note ok = world_invD(8) [OF inv]
  have d: "w_doing ?w = (w_doing w)(t := Some ?h)"
    by (simp add: realloc_library_def)
  have unmoved: "p \<notin> moving w" "p \<notin> w_excepted w" "q \<notin> w_held w - {p}" "q \<notin> w_excepted w"
    using world_invD(5,6,7) [OF inv] p q(1) by auto
  have "block_of k \<noteq> p \<and> block_of k \<noteq> q" if "w_doing w u = Some k" for u k
    using halves_okD(1,2) [OF ok that] p q by auto
  then have "halves_ok ?w"
    by (intro halves_start [OF ok idle d, of p]) (use unmoved q(2) in \<open>auto simp: realloc_library_def\<close>)
  moreover have "a \<in> moving ?w \<longleftrightarrow> a = p \<or> a \<in> moving w" for a
    using moving_start [OF idle d] by auto
  ultimately show ?thesis
    using world_invD(1,2,3,5,6,7) [OF inv] world_invD(4) [OF inv] p unmoved
    by (intro world_invI) (auto simp: realloc_library_def)
qed

lemma realloc_tracker_inv:
  assumes inv: "world_inv w" and h: "w_doing w t = Some (Realloc_tracks cs p q sz)"
  shows "world_inv (realloc_tracker t cs p q sz w)"
proof -
  let ?w = "realloc_tracker t cs p q sz w" and ?m = "w_memory w"
  note ok = world_invD(8) [OF inv] and tr = world_invD(2) [OF inv]
  have bs: "um_invar (m_blocks ?m)"
    using world_invD(3) [OF inv] by (simp add: mem_inv_def)
  have pm: "p \<in> moving w" "p \<notin> w_held w"
    using movingI [OF h] world_invD(7) [OF inv] by auto
  have q: "q \<in> w_heap w" "q \<notin> w_held w" "q \<notin> w_excepted w" "q \<in> moving w \<Longrightarrow> q = p"
    using halves_okD(1-3) [OF ok h] by auto
  obtain al where al: "um_find p (m_blocks ?m) = Some al"
    using world_invD(4) [OF inv, of p] pm by auto
  have qp: "q = p \<or> um_find q (m_blocks ?m) = None"
    using world_invD(4) [OF inv, of q] q(2,4) by auto
  then have fresh: "um_find q (um_erase p (m_blocks ?m)) = None"
    by (auto simp: um.lookup_erase [OF bs])
  obtain m where m: "mem_retrack cs p q sz ?m = (Mem_done, m)" "tracking m"
      "\<And>a. um_find a (m_blocks m) \<noteq> None \<longleftrightarrow> a = q \<or> um_find a (m_blocks ?m) \<noteq> None \<and> a \<noteq> p"
    using al tr um.lookup_insert [OF um.invar_erase [OF bs] fresh] um.lookup_erase [OF bs] by (simp add: mem_retrack_eq)
  have w: "?w = doing t None (w\<lparr>w_memory := m, w_held := insert q (w_held w)\<rparr>)"
    by (simp add: realloc_tracker_def m(1))
  have d: "w_doing ?w = (w_doing w)(t := None)"
    by (simp add: w)
  have "halves_ok ?w"
    by (rule halves_end [OF ok h d]) (auto simp: w)
  moreover have "a \<in> moving ?w \<longleftrightarrow> a \<in> moving w \<and> a \<noteq> p" for a
    using moving_end [OF ok h d] by auto
  moreover have "mem_inv m"
    using mem_inv_retrack [OF world_invD(3) [OF inv] _ tr, of cs p q sz] qp by (simp add: m(1))
  ultimately show ?thesis
    using world_invD(1,5,6,7) [OF inv] world_invD(4) [OF inv] m(2,3) q pm(2) by (intro world_invI) (auto simp: w)
qed

lemma hook_step_inv:
  assumes "hook_step w w'" and "no_reuse w w'" and "world_inv w"
  shows "world_inv w'"
  using assms
proof (induction rule: hook_step.induct)
  case (malloc_1 w t p cs sz)
  then show ?case
    by (intro malloc_library_inv) (auto simp: no_reuse_def malloc_library_def)
next
  case (realloc_1 w t p q cs sz)
  have "q \<notin> moving w"
    using realloc_1 world_invD(6,7) [OF realloc_1(6)] by (cases "q = p") (auto simp: no_reuse_def realloc_library_def)
  then show ?case
    using realloc_1 by (intro realloc_library_inv)
qed (auto intro: malloc_tracker_inv free_tracker_inv free_library_inv realloc_tracker_inv)

lemma leads_to_inv: "leads_to no_reuse w w' \<Longrightarrow> world_inv w \<Longrightarrow> world_inv w'"
  by (induction rule: leads_to.induct) (auto intro: hook_step_inv)

lemma fresh_world_inv: "tracking m \<Longrightarrow> mem_inv m \<Longrightarrow> m_blocks m = [] \<Longrightarrow> world_inv (fresh_world H m)"
  by (simp add: world_inv_def fresh_world_def um_find_def moving_def halves_ok_def)

text \<open>Each block is in the table once, so the block counters say how many there are.\<close>

lemma block_count:
  assumes "mem_inv m" and "\<And>p. um_find p (m_blocks m) \<noteq> None \<longleftrightarrow> p \<in> B"
  shows "m_alloc_count m - m_free_count m = of_nat (card B)"
proof -
  have bs: "distinct (map fst (m_blocks m))"
    using assms(1) by (simp add: mem_inv_def um_invar_def)
  have "B = fst ` set (m_blocks m)"
    using assms(2) by (auto simp: um_find_def map_of_eq_None_iff simp flip: not_None_eq)
  then have "card B = length (m_blocks m)"
    using distinct_card [OF bs] by simp
  then show ?thesis
    using assms(1) by (simp add: mem_inv_def)
qed

section \<open>Properties\<close>

text \<open>C3. However the hooks of several threads interleave, the tracker follows a correct program exactly, as long
  as the C library does not hand out again an address that a reallocation has given up but the tracker does not know of yet:
  no fatal error is raised, the blocks in the table are those the program holds or is moving, the counters
  say how many they are and how many bytes, and no block that is given to the C library to free is in the table.\<close>

theorem threads_tracked_exactly:
  assumes "tracking m" and "mem_inv m" and "m_blocks m = []" and "leads_to no_reuse (fresh_world H m) w"
  shows "\<not> w_fatal w \<and> tracking (w_memory w)
    \<and> (\<forall>p. um_find p (m_blocks (w_memory w)) \<noteq> None \<longleftrightarrow> p \<in> w_held w \<union> moving w)
    \<and> m_alloc_count (w_memory w) - m_free_count (w_memory w) = of_nat (card (w_held w \<union> moving w))
    \<and> m_alloc_size (w_memory w) - m_free_size (w_memory w) = of_nat (in_use (w_memory w))
    \<and> (\<forall>t p. w_doing w t = Some (Free_releases p) \<longrightarrow> um_find p (m_blocks (w_memory w)) = None)"
proof -
  have inv: "world_inv w"
    by (rule leads_to_inv [OF assms(4) fresh_world_inv [OF assms(1-3)]])
  have "um_find p (m_blocks (w_memory w)) = None" if "w_doing w t = Some (Free_releases p)" for t p
    using halves_okD(2,3) [OF world_invD(8) [OF inv] that] world_invD(4) [OF inv, of p] by auto
  then show ?thesis
    using world_invD(1-4) [OF inv] block_count [OF world_invD(3,4) [OF inv]] by (simp add: mem_inv_def)
qed

text \<open>Two threads: 0 allocates and reallocates, 1 allocates while 0 is between the two halves, and frees.\<close>

definition thread_memory :: memory where
  "thread_memory = memory_fields\<lparr>m_track := True\<rparr>"

definition no_stack :: call_stack where
  "no_stack = \<lparr>cs_len = 0, cs_stack = None, cs_skip = 0\<rparr>"

lemma thread_memory_ok: "tracking thread_memory" "mem_inv thread_memory" "m_blocks thread_memory = []"
  by (simp_all add: thread_memory_def tracking_def memory_fields_def mem_inv_def um_invar_def in_use_def heap_total_def
      regions_ok_def om_invar_def mapped_total_def)

definition world_1 :: world where
  "world_1 = malloc_tracker 0 no_stack 64 8 (malloc_library 0 no_stack 8 64 (fresh_world {} thread_memory))"

definition world_2 :: world where
  "world_2 = realloc_library 0 no_stack 32 64 128 world_1"

definition world_3 :: "addr \<Rightarrow> world" where
  "world_3 q = malloc_tracker 1 no_stack q 16 (malloc_library 1 no_stack 16 q world_2)"

lemma can_track_stack [simp]:
  "m_alloc_ex m = alloc_ex_table \<Longrightarrow> can_track_alloc cs m" "m_dealloc_ex m = dealloc_ex_table \<Longrightarrow> can_track_dealloc cs m"
  by (simp_all add: can_track_alloc_def can_track_dealloc_def te_matches_def alloc_ex_table_def dealloc_ex_table_def tracking_ex_def)

lemmas step_defs = malloc_library_def malloc_tracker_def realloc_library_def free_tracker_def free_library_def
  realloc_tracker_def Let_def fatal_outcome_def um_insert_def um_find_def um_erase_def update_peaks_def

lemma world_values:
  "world_1 = \<lparr>w_heap = {64}, w_held = {64}, w_excepted = {}, w_memory = mem_track no_stack 64 8 thread_memory,
     w_doing = (\<lambda>_. None), w_fatal = False\<rparr>"
  "world_2 = \<lparr>w_heap = {128}, w_held = {}, w_excepted = {}, w_memory = mem_track no_stack 64 8 thread_memory,
     w_doing = (\<lambda>_. None)(0 := Some (Realloc_tracks no_stack 64 128 32)), w_fatal = False\<rparr>"
  by (auto simp: world_1_def world_2_def step_defs doing_def fresh_world_def thread_memory_def memory_fields_def)

lemma thread_tables [simp]:
  "m_alloc_ex (update_peaks m) = m_alloc_ex m" "m_dealloc_ex (update_peaks m) = m_dealloc_ex m"
  "tracking m \<Longrightarrow> m_alloc_ex (mem_track cs p sz m) = m_alloc_ex m"
  "tracking m \<Longrightarrow> m_dealloc_ex (mem_track cs p sz m) = m_dealloc_ex m"
  by (simp_all add: update_peaks_def mem_track_eq)

lemma world_3_value: "world_3 q = \<lparr>w_heap = {q, 128}, w_held = {q}, w_excepted = {},
     w_memory = mem_track no_stack q 16 (mem_track no_stack 64 8 thread_memory),
     w_doing = (\<lambda>_. None)(0 := Some (Realloc_tracks no_stack 64 128 32)), w_fatal = False\<rparr>"
proof -
  have "m_alloc_ex (mem_track no_stack 64 8 thread_memory) = alloc_ex_table"
    using thread_memory_ok(1) by (simp add: thread_memory_def memory_fields_def)
  then show ?thesis
    unfolding world_3_def world_values by (auto simp: step_defs doing_def fun_eq_iff)
qed

lemma world_3_reached:
  assumes "q \<noteq> 128" and "q \<noteq> null_ptr" and "allowed = no_reuse \<and> q \<noteq> 64 \<or> allowed = (\<lambda>_ _. True)"
  shows "leads_to allowed (fresh_world {} thread_memory) (world_3 q)"
proof -
  let ?w0 = "fresh_world {} thread_memory"
  have allow: "allowed w w'" if "moving w = {} \<or> w_heap w' = w_heap w \<or> moving w = {64} \<and> w_heap w' = insert q (w_heap w)" for w w'
    using that assms(3) by (auto simp: no_reuse_def)
  have m2: "moving world_2 = {64}"
    by (auto simp: moving_def world_values split: if_splits)
  have "leads_to allowed ?w0 (malloc_library 0 no_stack 8 64 ?w0)"
    by (rule further [OF here malloc_1 allow]) (auto simp: fresh_world_def moving_def)
  then have "leads_to allowed ?w0 world_1"
    unfolding world_1_def by (rule further [OF _ malloc_2 allow]) (auto simp: malloc_library_def malloc_tracker_def doing_def Let_def)
  then have "leads_to allowed ?w0 world_2"
    unfolding world_2_def by (rule further [OF _ realloc_1 allow]) (auto simp: world_values moving_def)
  then have "leads_to allowed ?w0 (malloc_library 1 no_stack 16 q world_2)"
    by (rule further [OF _ malloc_1 allow]) (use assms(1,2) m2 in \<open>auto simp: malloc_library_def world_values\<close>)
  then show ?thesis
    unfolding world_3_def by (rule further [OF _ malloc_2 allow]) (auto simp: malloc_library_def malloc_tracker_def doing_def Let_def)
qed

theorem threads_tracked_exactly_witness:
  "leads_to no_reuse (fresh_world {} thread_memory) (world_3 256) \<and> \<not> w_fatal (world_3 256)
    \<and> um_find 256 (m_blocks (w_memory (world_3 256))) \<noteq> None \<and> um_find 128 (m_blocks (w_memory (world_3 256))) = None"
proof -
  have reached: "leads_to no_reuse (fresh_world {} thread_memory) (world_3 256)"
    by (rule world_3_reached) simp_all
  have m: "moving (world_3 256) = {64}"
    by (auto simp: moving_def world_3_value split: if_splits)
  have h: "w_held (world_3 256) = {256}"
    by (simp add: world_3_value)
  have in_table: "um_find p (m_blocks (w_memory (world_3 256))) \<noteq> None \<longleftrightarrow> p = 64 \<or> p = 256" and "\<not> w_fatal (world_3 256)" for p
    using threads_tracked_exactly [OF thread_memory_ok reached] unfolding m h by blast+
  moreover have "um_find 128 (m_blocks (w_memory (world_3 256))) = None"
    using in_table [of 128] by simp
  moreover have "um_find 256 (m_blocks (w_memory (world_3 256))) \<noteq> None"
    unfolding in_table by simp
  ultimately show ?thesis
    using reached by blast
qed

text \<open>The condition is needed: when the other thread is given the address that the reallocation has left, its block is lost
  from the table, and freeing it is a fatal error although the program is correct.\<close>

theorem realloc_race_fatal:
  "\<exists>w. leads_to (\<lambda>_ _. True) (fresh_world {} thread_memory) w \<and> 64 \<in> w_held w \<and> w_doing w 1 = None
    \<and> w_fatal (free_tracker 1 no_stack 64 w)"
proof -
  let ?w = "realloc_tracker 0 no_stack 64 128 32 (world_3 64)"
  have "leads_to (\<lambda>_ _. True) (fresh_world {} thread_memory) (world_3 64)"
    by (rule world_3_reached) simp_all
  then have "leads_to (\<lambda>_ _. True) (fresh_world {} thread_memory) ?w"
    by (rule further [OF _ realloc_2]) (simp_all add: world_3_value)
  moreover have "64 \<in> w_held ?w \<and> w_doing ?w 1 = None \<and> w_fatal (free_tracker 1 no_stack 64 ?w)"
    unfolding world_3_value
    by (simp add: realloc_tracker_def free_tracker_def doing_def mem_track_def mem_retrack_def mem_remove_def mem_enter_def mem_exit_def
        thread_memory_def memory_fields_def update_peaks_def um_insert_def um_find_def um_erase_def fatal_unless_excepted_def Let_def)
  ultimately show ?thesis
    by blast
qed

end
