(* ===== verification/Spec2Isabelle.thy ===== *)
theory Spec2Isabelle
  imports Memory_Props Util_Props Frand Network Socket Message_Props Sandbox_Props Scheduler_Props
    Buffer Stdio Sandbox_Run_Props Unit_Test_Props Performance_Test Distributed_Test Contexts_Props
    Lazy Allocation_Props Command_Line_Props User_Messages Test_Options Libc Message_Heap
    Call_Text Run_Options Assertions Memory_Threads
begin

text \<open>
  A model of dtest, a testing framework for C++ (\<^verbatim>\<open>src/\<close> and \<^verbatim>\<open>include/dtest_core/\<close> of the repository).

  The program runs the tests of a suite one after the other, each in a forked process; in that process a
  sandbox tracks every allocation, mapping and datagram, and the result, with the resources used and the
  errors, comes back to the parent as a message. Tests that need several machines run their parts on
  workers that the driver talks to over sockets.

  \<^item> \<^theory_text>\<open>Containers\<close>: the containers the other parts use. \<^theory_text>\<open>Call_Stack\<close>, \<^theory_text>\<open>Call_Text\<close> (\<^verbatim>\<open>call_stack.h\<close>,
    \<^verbatim>\<open>call_stack.cpp\<close>): captured stacks and their text.
  \<^item> \<^theory_text>\<open>Memory\<close> (\<^verbatim>\<open>memory.h\<close>, \<^verbatim>\<open>memory.cpp\<close>): the tables of blocks and mapped regions, the counters and peaks.
    \<^theory_text>\<open>Memory_Regions\<close> proves the release of a range of mapped bytes against the set of bytes covered,
    \<^theory_text>\<open>Memory_Accounts\<close> the invariant that ties the counters to the tables, \<^theory_text>\<open>Memory_Props\<close> the operations.
  \<^item> \<^theory_text>\<open>Network\<close> (\<^verbatim>\<open>network.h\<close>, \<^verbatim>\<open>network.cpp\<close>, \<^verbatim>\<open>network_hooks.cpp\<close>): traffic counters, injected faults, hooks.
    \<^theory_text>\<open>Frand\<close> (\<^verbatim>\<open>random.cpp\<close>): the random numbers that decide the faults.
  \<^item> \<^theory_text>\<open>Socket\<close> (\<^verbatim>\<open>socket.cpp\<close>): sending and receiving over partial system calls, polling with accept. \<^theory_text>\<open>Address\<close>
    (\<^verbatim>\<open>socket.h\<close>, \<^verbatim>\<open>socket.cpp\<close>): constructing, moving and closing sockets, ports, addresses and their text.
    \<^theory_text>\<open>Message\<close>, \<^theory_text>\<open>Message_Props\<close> (\<^verbatim>\<open>message.h\<close>, \<^verbatim>\<open>message.cpp\<close>): the buffer, its encoding and its transfer, as values;
    \<^theory_text>\<open>Message_Heap\<close> the objects with their blocks on a heap, refined to those values.
  \<^item> \<^theory_text>\<open>Util\<close>, \<^theory_text>\<open>Util_Props\<close> (\<^verbatim>\<open>util.cpp\<close>, \<^verbatim>\<open>util.h\<close>): durations, sizes, indentation, JSON.
  \<^item> \<^theory_text>\<open>Sandbox\<close>, \<^theory_text>\<open>Sandbox_Props\<close> (\<^verbatim>\<open>sandbox.cpp\<close>, \<^verbatim>\<open>memory_hooks.cpp\<close>): nested and locked sections, resource
    snapshots, and the hooks around the C library's memory functions.
    \<^theory_text>\<open>Libc\<close> (\<^verbatim>\<open>LibC\<close>): finding the library's functions behind the hooks, while the hooks are already called.
    \<^theory_text>\<open>Memory_Threads\<close> has several threads whose hooks interleave between the library's half and the tracker's.
  \<^item> \<^theory_text>\<open>Buffer\<close> (\<^verbatim>\<open>buffer.h\<close>): byte buffers over an explicit heap, refined to byte strings.
    \<^theory_text>\<open>Run_Options\<close> (\<^verbatim>\<open>Sandbox::Options\<close>): the options of a run, which own three such buffers.
    \<^theory_text>\<open>Lazy\<close> (\<^verbatim>\<open>lazy.h\<close>): values constructed on first use, over a store of objects.
    \<^theory_text>\<open>Stdio\<close> (\<^verbatim>\<open>sandbox.cpp\<close>): the redirection of the standard streams over a table of descriptors and pipes.
  \<^item> \<^theory_text>\<open>Sandbox_Run\<close>, \<^theory_text>\<open>Sandbox_Run_Props\<close> (\<^verbatim>\<open>Sandbox::run\<close>): the child's thread and signal handler, and the parent's
    loop over messages, timeout and the child's end: every run reports and reaps, it ends, and what the
    child sends is what the parent's callbacks are given.
  \<^item> \<^theory_text>\<open>Unit_Test\<close>, \<^theory_text>\<open>Unit_Test_Props\<close> (\<^verbatim>\<open>unit_test.h\<close>, \<^verbatim>\<open>unit_test.cpp\<close>, \<^verbatim>\<open>time_of.cpp\<close>): options, the function run in the
    sandbox, the checks, the result message, the driver's run, the report. \<^theory_text>\<open>Derived_Test\<close> has what the two
    subclasses share; \<^theory_text>\<open>Performance_Test\<close> (\<^verbatim>\<open>performance_test.cpp\<close>) adds the baseline and its second run,
    \<^theory_text>\<open>Distributed_Test\<close> (\<^verbatim>\<open>distributed_unit_test.cpp\<close>) the worker's part and the network report.
    \<^theory_text>\<open>Test_Options\<close> (\<^verbatim>\<open>dtest.h\<close> and the headers of the tests) has the macros that declare a test and the options chained
    after them, \<^theory_text>\<open>Assertions\<close> (\<^verbatim>\<open>test.h\<close>) what a test's code calls: assertions, failures, logged
    errors, and an assertion's way from the body to the driver's report.
  \<^item> \<^theory_text>\<open>Test\<close> (\<^verbatim>\<open>test.h\<close>, \<^verbatim>\<open>test.cpp\<close>): the registry and one test; \<^theory_text>\<open>Scheduler\<close> (\<^verbatim>\<open>Test::runAll\<close>): the suite.
    \<^theory_text>\<open>Scheduler_Inv\<close> has its invariant and \<^theory_text>\<open>Scheduler_Props\<close> what a run does with its tests.
  \<^item> \<^theory_text>\<open>Contexts\<close>, \<^theory_text>\<open>Contexts_Props\<close> (\<^verbatim>\<open>DriverContext\<close>, \<^verbatim>\<open>WorkerContext\<close>): allocating workers, running and joining their
    tests, notifications and user messages, and the worker's loop over commands.
    \<^theory_text>\<open>Allocation_Props\<close> follows a test's workers from allocation to release; \<^theory_text>\<open>Contexts_Setup\<close> has the ports and
    addresses, the start of the driver and the registration of a worker; \<^theory_text>\<open>User_Messages\<close> (\<^verbatim>\<open>dtest.h\<close>) the values the
    parts of a test send each other.
  \<^item> \<^theory_text>\<open>Command_Line\<close>, \<^theory_text>\<open>Command_Line_Props\<close> (\<^verbatim>\<open>dtest.cpp\<close>): the arguments, the search for test libraries, and the
    program as a driver and as a worker.

  A test's run crosses these parts: \<^theory_text>\<open>unit_func\<close> works on the child's sandbox, \<^theory_text>\<open>run_checks\<close> judges the
  snapshots, \<^theory_text>\<open>put_result\<close> encodes the result as a \<^theory_text>\<open>Message\<close>, \<^theory_text>\<open>parent_loop\<close> receives it through \<^theory_text>\<open>Socket\<close>, and
  \<^theory_text>\<open>get_result\<close> gives it back; \<^theory_text>\<open>unit_result_delivered\<close> is the theorem over the whole way. The interface between
  the encodings and their users is the locale \<^theory_text>\<open>field\<close>, interpreted for every kind of value sent. \<^theory_text>\<open>Refinement\<close>
  states once that programs over objects in memory follow their values, for buffers and for messages.

  Conventions. \<^verbatim>\<open>size_t\<close> and the other integers are words of their width and wrap around. An exception or
  a use of something that is not there is a value of an option or of a datatype. The C library, the
  kernel, the clock and the virtual functions of a test are arguments: functions or lists of answers.
  An unordered map is an association list with distinct keys whose order is the order of iteration; the
  theorems hold for every such list, so for every order the library may choose.

  Termination. The loop of the scheduler is total because each iteration deletes a copy of a test; the
  release loop of \<^theory_text>\<open>Memory\<close> because each step consumes part of the range; the loops over system calls
  follow the list of the kernel's answers, with separate theorems that enough answers complete the call.
  \<^theory_text>\<open>writeFully\<close> has fuel, since it never returns on a full pipe: two steps are enough for an input that
  fits, and no fuel is enough for one that does not.
  \<^verbatim>\<open>libc()\<close> has fuel for initialisations started within each other; one is enough, since the flag is set first.

  Not modelled: progress and usage texts on the standard streams; the mutexes themselves: each model
  is one thread's view (the calls other threads make meanwhile are arguments of \<^theory_text>\<open>Libc\<close>), except \<^theory_text>\<open>Memory_Threads\<close>, where the
  tracker's mutex makes each of its calls one step; failing allocations, for which the program has no
  code except in \<^theory_text>\<open>Buffer\<close>; the copy constructor of the lazy values, which does not compile; the kernel, the
  dynamic linker, name lookup, the file system and the clock, whose answers are arguments.
\<close>

end
